(* ===== verification/Prelude.thy ===== *)
theory Prelude
  imports
    Main
    "HOL-Library.Char_ord"
    "HOL-Library.List_Lexorder"
    "HOL-Library.Sublist"
    "HOL-Library.Word"
    "HOL-Library.Signed_Division"
begin

unbundle bit_operations_syntax

text \<open>
  The vocabulary every component shares.

  \<^item> Rust's \<open>u8\<close> in text and file contents is a \<open>char\<close> (8 bits), so that \<open>String\<close>, \<open>&str\<close>,
    \<open>Vec<u8>\<close> and \<open>&[u8]\<close> are all \<open>char list\<close> and literals can be written \<open>''abc''\<close>. A \<open>String\<close>
    is such a list for which \<open>utf8_valid\<close> holds; components say so where it matters.
  \<^item> \<open>usize\<close> positions and lengths are \<open>nat\<close>; fixed-width fields that the program shifts, masks
    or prints are words.
  \<^item> A fallible operation returns \<open>error + 'a\<close>. \<open>LoggedError\<close> is the repository's unit error
    (base/result.rs), \<open>Panic\<close> a Rust panic (slice out of range, failed \<open>copy_from_slice\<close>), \<open>Exit n\<close>
    a call of \<open>std::process::exit\<close>. \<open>bindE\<close> is the operator \<open>?\<close>.
  \<^item> The string functions of the standard library the sources use: \<open>split\<close>, \<open>find\<close>,
    \<open>strip_prefix\<close>, \<open>split_once\<close>, \<open>trim\<close>, \<open>split_whitespace\<close>, \<open>from_utf8\<close>, \<open>to_digit\<close>, \<open>parse\<close> and
    hexadecimal formatting.
\<close>

section \<open>Types\<close>

type_synonym byte = char
type_synonym bytes = "char list"
type_synonym u8 = "8 word"
type_synonym u16 = "16 word"
type_synonym u32 = "32 word"
type_synonym u64 = "64 word"

datatype error = LoggedError | Panic | Exit int

type_synonym 'a res = "error + 'a"

named_theorems res_simps \<open>evaluation of the result monad and of the slice operations\<close>
named_theorems str_simps \<open>evaluation of the string functions\<close>

section \<open>Results\<close>

definition bindE :: "'e + 'a \<Rightarrow> ('a \<Rightarrow> 'e + 'b) \<Rightarrow> 'e + 'b" where
  "bindE m f = (case m of Inl e \<Rightarrow> Inl e | Inr x \<Rightarrow> f x)"

lemma bindE_simps [simp, res_simps]:
  "bindE (Inl e) f = Inl e"
  "bindE (Inr x) f = f x"
  by (simp_all add: bindE_def)

lemma bindE_cong [fundef_cong]:
  "m = m' \<Longrightarrow> (\<And>x. m' = Inr x \<Longrightarrow> f x = f' x) \<Longrightarrow> bindE m f = bindE m' f'"
  by (cases m') (auto simp: bindE_def)

lemma bindE_eq_Inr_iff: "bindE m f = Inr y \<longleftrightarrow> (\<exists>x. m = Inr x \<and> f x = Inr y)"
  by (cases m) auto

lemma bindE_eq_Inl_iff: "bindE m f = Inl e \<longleftrightarrow> m = Inl e \<or> (\<exists>x. m = Inr x \<and> f x = Inl e)"
  by (cases m) auto

lemma bindE_assoc: "bindE (bindE m f) g = bindE m (\<lambda>x. bindE (f x) g)"
  by (cases m) auto

definition ok_or :: "'e \<Rightarrow> 'a option \<Rightarrow> 'e + 'a" where
  "ok_or e x = (case x of None \<Rightarrow> Inl e | Some v \<Rightarrow> Inr v)"

lemma ok_or_simps [simp, res_simps]: "ok_or e None = Inl e" "ok_or e (Some v) = Inr v"
  by (simp_all add: ok_or_def)

lemma ok_or_eq_Inr_iff [simp]: "ok_or e x = Inr v \<longleftrightarrow> x = Some v"
  by (cases x) auto

definition is_ok :: "'e + 'a \<Rightarrow> bool" where
  "is_ok r = (case r of Inl _ \<Rightarrow> False | Inr _ \<Rightarrow> True)"

lemma is_ok_simps [simp, res_simps]: "is_ok (Inl e) = False" "is_ok (Inr v) = True"
  by (simp_all add: is_ok_def)

text \<open>Slicing \<open>data[a..b]\<close> and \<open>data[a..]\<close>: out of range is a panic.\<close>

definition slice :: "'a list \<Rightarrow> nat \<Rightarrow> nat \<Rightarrow> 'a list res" where
  "slice xs a b = (if a \<le> b \<and> b \<le> length xs then Inr (take (b - a) (drop a xs)) else Inl Panic)"

definition slice_from :: "'a list \<Rightarrow> nat \<Rightarrow> 'a list res" where
  "slice_from xs a = (if a \<le> length xs then Inr (drop a xs) else Inl Panic)"

lemma slice_mid:
  "a = length pre \<Longrightarrow> b = a + length mid \<Longrightarrow> slice (pre @ mid @ post) a b = Inr mid"
  by (simp add: slice_def)

lemma slice_eq_Inr_length: "slice xs a b = Inr ys \<Longrightarrow> a \<le> b \<and> b \<le> length xs \<and> length ys = b - a"
  by (auto simp: slice_def split: if_splits)

lemma slice_panics: "length xs < b \<Longrightarrow> slice xs a b = Inl Panic"
  by (simp add: slice_def)

lemma slice_from_mid: "a = length pre \<Longrightarrow> slice_from (pre @ post) a = Inr post"
  by (simp add: slice_from_def)

section \<open>Text\<close>

abbreviation ord :: "byte \<Rightarrow> nat" where
  "ord c \<equiv> of_char c"

abbreviation NUL :: byte where
  "NUL \<equiv> CHR 0x00"

text \<open>Bytes as machine numbers.\<close>

definition u8_of :: "byte \<Rightarrow> u8" where
  "u8_of c = of_nat (ord c)"

definition byte_of :: "u8 \<Rightarrow> byte" where
  "byte_of w = char_of (unat w)"

lemma byte_of_u8_of [simp]: "byte_of (u8_of c) = c"
  by (simp add: byte_of_def u8_of_def unsigned_of_nat take_bit_nat_eq_self)

lemma u8_of_byte_of [simp]: "u8_of (byte_of w) = w"
proof -
  have "unat w < 256" using unsigned_less[where ?'a = nat, of w] by simp
  then show ?thesis by (simp add: byte_of_def u8_of_def take_bit_nat_eq_self)
qed

definition cont_byte :: "byte \<Rightarrow> bool" where
  "cont_byte b \<longleftrightarrow> 128 \<le> ord b \<and> ord b < 192"

text \<open>\<open>core::str::from_utf8\<close>: the well-formed byte sequences of RFC 3629.\<close>

fun utf8_valid :: "bytes \<Rightarrow> bool" where
  "utf8_valid [] = True"
| "utf8_valid (a # s) =
     (if ord a < 128 then utf8_valid s
      else if 0xC2 \<le> ord a \<and> ord a \<le> 0xDF then
        (case s of b # s' \<Rightarrow> cont_byte b \<and> utf8_valid s' | _ \<Rightarrow> False)
      else if 0xE0 \<le> ord a \<and> ord a \<le> 0xEF then
        (case s of b # c # s' \<Rightarrow>
           cont_byte b \<and> (ord a = 0xE0 \<longrightarrow> 0xA0 \<le> ord b) \<and> (ord a = 0xED \<longrightarrow> ord b < 0xA0)
           \<and> cont_byte c \<and> utf8_valid s' | _ \<Rightarrow> False)
      else if 0xF0 \<le> ord a \<and> ord a \<le> 0xF4 then
        (case s of b # c # d # s' \<Rightarrow>
           cont_byte b \<and> (ord a = 0xF0 \<longrightarrow> 0x90 \<le> ord b) \<and> (ord a = 0xF4 \<longrightarrow> ord b < 0x90)
           \<and> cont_byte c \<and> cont_byte d \<and> utf8_valid s' | _ \<Rightarrow> False)
      else False)"

lemma utf8_valid_append: "utf8_valid s \<Longrightarrow> utf8_valid (s @ t) = utf8_valid t"
  by (induction s rule: utf8_valid.induct) (auto split: if_splits list.splits)

lemma utf8_valid_ascii: "(\<forall>c \<in> set s. ord c < 128) \<Longrightarrow> utf8_valid s"
  by (induction s) auto

section \<open>Searching and splitting\<close>

text \<open>The first position at which \<open>pat\<close> occurs (\<open>str::find\<close>, \<open>memchr::memmem::find\<close>).\<close>

fun find_sub :: "'a list \<Rightarrow> 'a list \<Rightarrow> nat option" where
  "find_sub pat [] = (if pat = [] then Some 0 else None)"
| "find_sub pat (x # xs) =
     (if prefix pat (x # xs) then Some 0 else map_option Suc (find_sub pat xs))"

lemma find_sub_Some:
  "find_sub pat xs = Some i \<Longrightarrow>
     i + length pat \<le> length xs \<and> take (length pat) (drop i xs) = pat
     \<and> (\<forall>j < i. \<not> prefix pat (drop j xs))"
proof (induction xs arbitrary: i)
  case (Cons x xs)
  show ?case
  proof (cases "prefix pat (x # xs)")
    case True
    then show ?thesis using Cons.prems prefix_length_le[OF True] by (auto simp: prefix_def)
  next
    case False
    then obtain k where "find_sub pat xs = Some k" "i = Suc k" using Cons.prems by auto
    then show ?thesis using Cons.IH False by (auto simp: less_Suc_eq_0_disj)
  qed
qed (auto split: if_splits)

lemma find_sub_None: "find_sub pat xs = None \<longleftrightarrow> \<not> sublist pat xs"
  by (induction xs) (auto simp: sublist_Cons_right)

text \<open>\<open>str::split(c)\<close>: one piece more than there are separators.\<close>

fun split_on :: "'a \<Rightarrow> 'a list \<Rightarrow> 'a list list" where
  "split_on c [] = [[]]"
| "split_on c (x # xs) =
     (if x = c then [] # split_on c xs
      else (case split_on c xs of [] \<Rightarrow> [[x]] | y # ys \<Rightarrow> (x # y) # ys))"

fun join_with :: "'a list \<Rightarrow> 'a list list \<Rightarrow> 'a list" where
  "join_with sep [] = []"
| "join_with sep [x] = x"
| "join_with sep (x # y # ys) = x @ sep @ join_with sep (y # ys)"

lemma split_on_not_Nil [simp]: "split_on c xs \<noteq> []"
  by (cases xs) (auto split: list.splits)

lemma split_on_pieces: "p \<in> set (split_on c xs) \<Longrightarrow> c \<notin> set p"
  by (induction xs arbitrary: p) (auto split: if_splits list.splits)

lemma split_on_Cons_other:
  "x \<noteq> c \<Longrightarrow> split_on c (x # xs) = (x # hd (split_on c xs)) # tl (split_on c xs)"
  by (cases "split_on c xs") auto

lemma split_on_append_sep: "c \<notin> set xs \<Longrightarrow> split_on c (xs @ c # ys) = xs # split_on c ys"
  by (induction xs) auto

lemma split_on_no_sep: "c \<notin> set xs \<Longrightarrow> split_on c xs = [xs]"
  by (induction xs) auto

lemma split_on_join:
  "ps \<noteq> [] \<Longrightarrow> \<forall>p \<in> set ps. c \<notin> set p \<Longrightarrow> split_on c (join_with [c] ps) = ps"
proof (induction ps rule: induct_list012)
  case (3 x y zs)
  then show ?case by (simp add: split_on_append_sep)
qed (simp_all add: split_on_no_sep)

lemma join_split_on: "join_with [c] (split_on c xs) = xs"
proof (induction xs)
  case (Cons x xs)
  obtain y ys where "split_on c xs = y # ys" by (cases "split_on c xs") auto
  then show ?case using Cons by (cases ys) auto
qed simp

text \<open>\<open>str::split_once(c)\<close> and \<open>str::strip_prefix\<close>, \<open>strip_suffix\<close>.\<close>

definition split_once :: "'a \<Rightarrow> 'a list \<Rightarrow> ('a list \<times> 'a list) option" where
  "split_once c xs =
     (if c \<in> set xs then Some (takeWhile (\<lambda>x. x \<noteq> c) xs, tl (dropWhile (\<lambda>x. x \<noteq> c) xs)) else None)"

lemma split_once_append [simp]: "c \<notin> set a \<Longrightarrow> split_once c (a @ c # b) = Some (a, b)"
  by (induction a) (auto simp: split_once_def)

lemma split_once_SomeD:
  assumes "split_once c xs = Some (a, b)"
  shows "xs = a @ c # b \<and> c \<notin> set a"
proof -
  from assms have c: "c \<in> set xs" and a: "a = takeWhile (\<lambda>x. x \<noteq> c) xs"
    and b: "b = tl (dropWhile (\<lambda>x. x \<noteq> c) xs)"
    by (auto simp: split_once_def split: if_splits)
  from c obtain ys zs where "xs = ys @ c # zs" "c \<notin> set ys" by (meson split_list_first)
  then have "takeWhile (\<lambda>x. x \<noteq> c) xs = ys" "dropWhile (\<lambda>x. x \<noteq> c) xs = c # zs"
    by (induction ys arbitrary: xs) auto
  then show ?thesis using a b \<open>xs = ys @ c # zs\<close> \<open>c \<notin> set ys\<close> by simp
qed

definition strip_prefix :: "'a list \<Rightarrow> 'a list \<Rightarrow> 'a list option" where
  "strip_prefix pre xs = (if prefix pre xs then Some (drop (length pre) xs) else None)"

definition ends_with :: "'a list \<Rightarrow> 'a list \<Rightarrow> bool" where
  "ends_with xs suf = suffix suf xs"

text \<open>ASCII white space, \<open>str::trim\<close> and \<open>str::split_whitespace\<close> on ASCII text.\<close>

definition is_space :: "byte \<Rightarrow> bool" where
  "is_space c \<longleftrightarrow> (9 \<le> ord c \<and> ord c \<le> 13) \<or> ord c = 32"

definition trim_start :: "string \<Rightarrow> string" where
  "trim_start s = dropWhile is_space s"

definition trim_end :: "string \<Rightarrow> string" where
  "trim_end s = rev (dropWhile is_space (rev s))"

definition trim :: "string \<Rightarrow> string" where
  "trim s = trim_end (trim_start s)"

definition lines :: "string \<Rightarrow> string list" where
  "lines s = (let ls = split_on (CHR 0x0A) s in
     map (\<lambda>l. if l \<noteq> [] \<and> last l = CHR 0x0D then butlast l else l)
       (if last ls = [] then butlast ls else ls))"

section \<open>Numbers as text\<close>

definition digit_val :: "byte \<Rightarrow> nat option" where
  "digit_val c =
     (let n = ord c in
      if 48 \<le> n \<and> n \<le> 57 then Some (n - 48)
      else if 97 \<le> n \<and> n \<le> 102 then Some (n - 87)
      else if 65 \<le> n \<and> n \<le> 70 then Some (n - 55)
      else None)"

definition hex_char :: "nat \<Rightarrow> byte" where
  "hex_char n = (if n < 10 then char_of (48 + n) else char_of (87 + n))"

lemma digit_val_hex_char: "n < 16 \<Longrightarrow> digit_val (hex_char n) = Some n"
  by (auto simp: digit_val_def hex_char_def Let_def)

lemma hex_char_ascii: "n < 16 \<Longrightarrow> ord (hex_char n) < 128 \<and> hex_char n \<noteq> NUL"
  by (auto simp: hex_char_def char_of_eq_iff take_bit_eq_mod)

fun hex_digits :: "nat \<Rightarrow> string" where
  "hex_digits n = (if n < 16 then [hex_char n] else hex_digits (n div 16) @ [hex_char (n mod 16)])"

declare hex_digits.simps [simp del]

text \<open>The value of a hexadecimal text, and the format \<open>{:08x}\<close>.\<close>

definition hex_val :: "string \<Rightarrow> nat" where
  "hex_val s = foldl (\<lambda>r c. r * 16 + the (digit_val c)) 0 s"

definition fmt_08x :: "nat \<Rightarrow> string" where
  "fmt_08x n = (let s = hex_digits n in replicate (8 - length s) (CHR ''0'') @ s)"

lemma hex_val_snoc: "hex_val (s @ [c]) = hex_val s * 16 + the (digit_val c)"
  by (simp add: hex_val_def)

lemma hex_val_hex_digits: "hex_val (hex_digits n) = n"
proof (induction n rule: hex_digits.induct)
  case (1 n)
  then show ?case
    by (subst hex_digits.simps) (auto simp: hex_val_snoc digit_val_hex_char, simp add: hex_val_def digit_val_hex_char)
qed

lemma hex_digits_chars:
  "c \<in> set (hex_digits n) \<Longrightarrow> digit_val c \<noteq> None \<and> ord c < 128 \<and> c \<noteq> NUL"
proof (induction n arbitrary: c rule: hex_digits.induct)
  case (1 n)
  from 1(2) show ?case
    by (subst (asm) hex_digits.simps)
       (auto split: if_splits dest: 1(1) simp: digit_val_hex_char hex_char_ascii)
qed

lemma hex_digits_length: "n < 16 ^ Suc k \<Longrightarrow> length (hex_digits n) \<le> Suc k"
proof (induction n arbitrary: k rule: hex_digits.induct)
  case (1 n)
  show ?case
  proof (cases "n < 16")
    case True
    then show ?thesis by (subst hex_digits.simps) simp
  next
    case False
    then obtain j where k: "k = Suc j" using 1(2) by (cases k) auto
    have "n div 16 < 16 ^ Suc j" using 1(2) by (simp add: k less_mult_imp_div_less)
    from 1(1)[OF False this] show ?thesis using False k by (subst hex_digits.simps) simp
  qed
qed

lemma hex_val_zeros: "hex_val (replicate k (CHR ''0'') @ s) = hex_val s"
  by (induction k) (simp_all add: hex_val_def digit_val_def)

lemma hex_val_fmt_08x: "hex_val (fmt_08x n) = n"
  by (simp add: fmt_08x_def Let_def hex_val_zeros hex_val_hex_digits)

lemma fmt_08x_length: "n < 2 ^ 32 \<Longrightarrow> length (fmt_08x n) = 8"
  using hex_digits_length[of n 7] by (simp add: fmt_08x_def Let_def)

lemma fmt_08x_chars: "c \<in> set (fmt_08x n) \<Longrightarrow> digit_val c \<noteq> None \<and> ord c < 128 \<and> c \<noteq> NUL"
  using hex_digits_chars[of c n] by (cases "c = CHR ''0''") (auto simp: fmt_08x_def Let_def, simp add: digit_val_def)

text \<open>Decimal text: \<open>to_string\<close> of an unsigned number and \<open>str::parse\<close> for unsigned types below a bound.\<close>

fun dec_digits :: "nat \<Rightarrow> string" where
  "dec_digits n = (if n < 10 then [char_of (48 + n)] else dec_digits (n div 10) @ [char_of (48 + n mod 10)])"

declare dec_digits.simps [simp del]

fun dec_loop :: "nat \<Rightarrow> nat \<Rightarrow> string \<Rightarrow> nat option" where
  "dec_loop bound r [] = Some r"
| "dec_loop bound r (c # cs) =
     (if 48 \<le> ord c \<and> ord c \<le> 57 \<and> r * 10 + (ord c - 48) < bound
      then dec_loop bound (r * 10 + (ord c - 48)) cs else None)"

definition parse_unsigned :: "nat \<Rightarrow> string \<Rightarrow> nat option" where
  "parse_unsigned bound s =
     (let ds = (if prefix ''+'' s then tl s else s) in if ds = [] then None else dec_loop bound 0 ds)"

abbreviation parse_u32 :: "string \<Rightarrow> nat option" where
  "parse_u32 \<equiv> parse_unsigned (2 ^ 32)"

lemma dec_digits_chars: "c \<in> set (dec_digits n) \<Longrightarrow> 48 \<le> ord c \<and> ord c \<le> 57"
proof (induction n arbitrary: c rule: dec_digits.induct)
  case (1 n)
  from 1(2) show ?case
    by (subst (asm) dec_digits.simps) (auto split: if_splits dest: 1(1))
qed

lemma dec_digits_not_Nil: "dec_digits n \<noteq> []"
  by (subst dec_digits.simps) simp

lemma dec_loop_append:
  "dec_loop bound r (xs @ ys) = (case dec_loop bound r xs of None \<Rightarrow> None | Some r' \<Rightarrow> dec_loop bound r' ys)"
  by (induction xs arbitrary: r) auto

lemma dec_loop_digits: "n < bound \<Longrightarrow> dec_loop bound 0 (dec_digits n) = Some n"
proof (induction n rule: dec_digits.induct)
  case (1 n)
  then show ?case by (subst dec_digits.simps) (auto simp: dec_loop_append)
qed

lemma parse_dec_digits: "n < bound \<Longrightarrow> parse_unsigned bound (dec_digits n) = Some n"
proof -
  assume n: "n < bound"
  have "\<not> prefix ''+'' (dec_digits n)"
    using dec_digits_chars[of "CHR ''+''" n] by (auto simp: prefix_def)
  then show ?thesis using dec_loop_digits[OF n] dec_digits_not_Nil[of n] by (simp add: parse_unsigned_def)
qed

text \<open>\<open>str::split_whitespace\<close> on ASCII text.\<close>

function split_whitespace :: "string \<Rightarrow> string list" where
  "split_whitespace s =
     (let s = dropWhile is_space s in
      if s = [] then []
      else takeWhile (\<lambda>c. \<not> is_space c) s # split_whitespace (dropWhile (\<lambda>c. \<not> is_space c) s))"
  by pat_completeness auto
termination
proof (relation "measure length")
  fix s x assume x: "x = dropWhile is_space s" "x \<noteq> []"
  have "length x \<le> length s" using x(1) by (simp add: length_dropWhile_le)
  moreover have "length (dropWhile (\<lambda>c. \<not> is_space c) x) < length x"
  proof (cases x)
    case (Cons a y)
    then have "\<not> is_space a" using hd_dropWhile[of is_space s] x by simp
    then show ?thesis using Cons by (simp add: le_imp_less_Suc length_dropWhile_le)
  qed (use x in simp)
  ultimately show "(dropWhile (\<lambda>c. \<not> is_space c) x, s) \<in> measure length" by simp
qed simp

declare split_whitespace.simps [simp del]

text \<open>Words without white space, joined by single spaces, are found again.\<close>

lemma split_whitespace_word:
  assumes "w \<noteq> []" "\<forall>c \<in> set w. \<not> is_space c"
  shows "split_whitespace w = [w]"
    and "is_space c \<Longrightarrow> split_whitespace (w @ c # s) = w # split_whitespace s"
proof -
  have d: "dropWhile is_space (w @ t) = w @ t" for t using assms by (cases w) auto
  have t: "takeWhile (\<lambda>c. \<not> is_space c) w = w" "dropWhile (\<lambda>c. \<not> is_space c) w = []"
    using assms(2) by (auto simp: takeWhile_eq_all_conv dropWhile_eq_Nil_conv)
  show "split_whitespace w = [w]"
    using d[of "[]"] assms(1) by (subst split_whitespace.simps) (simp add: t Let_def split_whitespace.simps[of "[]"])
  assume c: "is_space c"
  have "dropWhile (\<lambda>c. \<not> is_space c) (w @ c # s) = c # s" "takeWhile (\<lambda>c. \<not> is_space c) (w @ c # s) = w"
    using assms(2) c by (induction w) auto
  moreover have "split_whitespace (c # s) = split_whitespace s"
    using c by (subst (1 2) split_whitespace.simps) simp
  ultimately show "split_whitespace (w @ c # s) = w # split_whitespace s"
    using d[of "c # s"] assms(1) by (subst split_whitespace.simps) simp
qed

lemma split_whitespace_join:
  "\<forall>w \<in> set ws. w \<noteq> [] \<and> (\<forall>c \<in> set w. \<not> is_space c) \<Longrightarrow> split_whitespace (join_with '' '' ws) = ws"
proof (induction ws rule: induct_list012)
  case 1
  then show ?case by (simp add: split_whitespace.simps)
next
  case (3 x y zs)
  then show ?case by (simp add: split_whitespace_word(2) is_space_def)
qed (simp add: split_whitespace_word(1))

section \<open>Plain old data\<close>

text \<open>The little-endian bytes of a number (\<open>bytemuck::bytes_of\<close> on the Android targets).\<close>

fun le_bytes :: "nat \<Rightarrow> nat \<Rightarrow> bytes" where
  "le_bytes 0 n = []"
| "le_bytes (Suc k) n = char_of (n mod 256) # le_bytes k (n div 256)"

fun of_le :: "bytes \<Rightarrow> nat" where
  "of_le [] = 0"
| "of_le (b # bs) = ord b + 256 * of_le bs"

lemma length_le_bytes [simp]: "length (le_bytes k n) = k"
  by (induction k arbitrary: n) auto

lemma of_le_le_bytes: "of_le (le_bytes k n) = n mod 256 ^ k"
proof (induction k arbitrary: n)
  case (Suc k)
  have "n mod (256 * 256 ^ k) = n mod 256 + 256 * (n div 256 mod 256 ^ k)"
    by (subst mod_mult2_eq) simp
  then show ?case using Suc by simp
qed simp

lemma of_le_le_bytes_id [simp]: "n < 256 ^ k \<Longrightarrow> of_le (le_bytes k n) = n"
  by (simp add: of_le_le_bytes)

lemma of_le_bound: "of_le bs < 256 ^ length bs"
proof (induction bs)
  case (Cons b bs)
  have "ord b + 256 * of_le bs < 256 + 256 * of_le bs" by simp
  also have "\<dots> = 256 * Suc (of_le bs)" by simp
  also have "\<dots> \<le> 256 * 256 ^ length bs" using Cons by (intro mult_le_mono2) simp
  finally show ?case by simp
qed simp

lemma le_bytes_of_le: "le_bytes (length bs) (of_le bs) = bs"
  by (induction bs) auto

end
