(* ===== verification/BTreeMap.thy ===== *)
theory BTreeMap
  imports Prelude
begin

text \<open>
  \<open>std::collections::BTreeMap\<close> as the list of its entries in key order, which is what the
  program observes of it (iteration order included).  The locale \<open>store\<close> is the contract the
  clients rely on (what a lookup returns after each operation, and that each operation keeps the
  invariant); \<open>sorted_store\<close> adds that a map is determined by its lookups.  Both are interpreted
  on the sorted lists.
\<close>

type_synonym ('k, 'v) btree = "('k \<times> 'v) list"

definition bt_inv :: "('k::linorder, 'v) btree \<Rightarrow> bool" where
  "bt_inv m \<longleftrightarrow> sorted_wrt (<) (map fst m)"

definition bt_get :: "('k::linorder, 'v) btree \<Rightarrow> 'k \<Rightarrow> 'v option" where
  "bt_get m k = map_of m k"

definition bt_insert :: "'k \<Rightarrow> 'v \<Rightarrow> ('k::linorder, 'v) btree \<Rightarrow> ('k, 'v) btree" where
  "bt_insert k v m = filter (\<lambda>p. fst p < k) m @ (k, v) # filter (\<lambda>p. k < fst p) m"

definition bt_remove :: "'k \<Rightarrow> ('k::linorder, 'v) btree \<Rightarrow> ('k, 'v) btree" where
  "bt_remove k m = filter (\<lambda>p. fst p \<noteq> k) m"

definition bt_retain :: "('k \<Rightarrow> 'v \<Rightarrow> bool) \<Rightarrow> ('k::linorder, 'v) btree \<Rightarrow> ('k, 'v) btree" where
  "bt_retain P m = filter (\<lambda>p. P (fst p) (snd p)) m"

definition bt_extend :: "('k::linorder \<times> 'v) list \<Rightarrow> ('k, 'v) btree \<Rightarrow> ('k, 'v) btree" where
  "bt_extend kvs m = fold (\<lambda>(k, v). bt_insert k v) kvs m"

definition bt_contains :: "('k::linorder, 'v) btree \<Rightarrow> 'k \<Rightarrow> bool" where
  "bt_contains m k \<longleftrightarrow> bt_get m k \<noteq> None"

section \<open>The contract\<close>

locale store =
  fixes inv :: "'m \<Rightarrow> bool"
    and get :: "'m \<Rightarrow> 'k \<Rightarrow> 'v option"
    and ins :: "'k \<Rightarrow> 'v \<Rightarrow> 'm \<Rightarrow> 'm"
    and del :: "'k \<Rightarrow> 'm \<Rightarrow> 'm"
    and ret :: "('k \<Rightarrow> 'v \<Rightarrow> bool) \<Rightarrow> 'm \<Rightarrow> 'm"
  assumes inv_ins: "inv m \<Longrightarrow> inv (ins k v m)"
    and inv_del: "inv m \<Longrightarrow> inv (del k m)"
    and inv_ret: "inv m \<Longrightarrow> inv (ret P m)"
    and get_ins: "inv m \<Longrightarrow> get (ins k v m) = (get m)(k \<mapsto> v)"
    and get_del: "inv m \<Longrightarrow> get (del k m) = (get m)(k := None)"
    and get_ret: "inv m \<Longrightarrow> get (ret P m) a =
          (case get m a of None \<Rightarrow> None | Some v \<Rightarrow> if P a v then Some v else None)"
begin

lemma get_move:
  assumes "inv m" "get m a = Some v"
  shows "get (ins b v (del a m)) = (get m)(a := None, b \<mapsto> v)"
  using assms by (simp add: get_ins get_del inv_del)

lemma inv_extend: "inv m \<Longrightarrow> inv (fold (\<lambda>(k, v). ins k v) kvs m)"
  by (induction kvs arbitrary: m) (auto simp: inv_ins)

lemma get_extend:
  "inv m \<Longrightarrow> distinct (map fst kvs) \<Longrightarrow>
     get (fold (\<lambda>(k, v). ins k v) kvs m) = get m ++ map_of kvs"
proof (induction kvs arbitrary: m)
  case (Cons p kvs)
  then have "fst p \<notin> dom (map_of kvs)" by (simp add: dom_map_of_conv_image_fst)
  with Cons show ?case
    by (cases p) (auto simp: inv_ins get_ins map_add_def fun_eq_iff dom_def split: option.splits)
qed simp

lemma inv_del_all: "inv m \<Longrightarrow> inv (fold del ks m)"
  by (induction ks arbitrary: m) (auto simp: inv_del)

lemma get_del_all:
  "inv m \<Longrightarrow> get (fold del ks m) k = (if k \<in> set ks then None else get m k)"
  by (induction ks arbitrary: m) (auto simp: inv_del get_del)

end

locale sorted_store = store inv get ins del ret
  for inv :: "'m \<Rightarrow> bool" and get :: "'m \<Rightarrow> 'k \<Rightarrow> 'v option"
    and ins :: "'k \<Rightarrow> 'v \<Rightarrow> 'm \<Rightarrow> 'm" and del :: "'k \<Rightarrow> 'm \<Rightarrow> 'm"
    and ret :: "('k \<Rightarrow> 'v \<Rightarrow> bool) \<Rightarrow> 'm \<Rightarrow> 'm" +
  assumes get_ext: "inv m \<Longrightarrow> inv m' \<Longrightarrow> get m = get m' \<Longrightarrow> m = m'"
begin

lemma ins_commute:
  "inv m \<Longrightarrow> a \<noteq> b \<Longrightarrow> ins a v (ins b w m) = ins b w (ins a v m)"
  by (rule get_ext) (auto simp: inv_ins get_ins)

lemma ins_overwrite: "inv m \<Longrightarrow> ins a v (ins a w m) = ins a v m"
  by (rule get_ext) (auto simp: inv_ins get_ins)

lemma del_ins: "inv m \<Longrightarrow> get m a = None \<Longrightarrow> del a (ins a v m) = m"
  by (rule get_ext) (auto simp: inv_ins inv_del get_ins get_del)

lemma ins_same: "inv m \<Longrightarrow> get m a = Some v \<Longrightarrow> ins a v m = m"
  by (rule get_ext) (auto simp: inv_ins get_ins)

end

section \<open>The sorted lists implement it\<close>

lemma bt_inv_Nil [simp]: "bt_inv []"
  by (simp add: bt_inv_def)

lemma bt_inv_Cons: "bt_inv (p # m) \<longleftrightarrow> (\<forall>q \<in> set m. fst p < fst q) \<and> bt_inv m"
  by (simp add: bt_inv_def)

lemma bt_inv_filter: "bt_inv m \<Longrightarrow> bt_inv (filter P m)"
  by (induction m) (auto simp: bt_inv_Cons)

lemma bt_inv_distinct: "bt_inv m \<Longrightarrow> distinct (map fst m)"
  unfolding bt_inv_def using strict_sorted_iff by blast

lemma bt_inv_insert: "bt_inv m \<Longrightarrow> bt_inv (bt_insert k v m)"
  unfolding bt_insert_def bt_inv_def
  by (induction m) (auto simp: sorted_wrt_append)

lemma map_of_filter_key: "map_of (filter (\<lambda>p. P (fst p)) m) k = (if P k then map_of m k else None)"
  by (induction m) auto

lemma bt_get_insert: "bt_get (bt_insert k v m) = (bt_get m)(k \<mapsto> v)"
proof (rule ext)
  fix a
  show "bt_get (bt_insert k v m) a = ((bt_get m)(k \<mapsto> v)) a"
    using map_of_filter_key[of "\<lambda>x. x < k" m a] map_of_filter_key[of "\<lambda>x. k < x" m a]
    by (auto simp: bt_get_def bt_insert_def map_add_def split: option.splits)
qed

lemma bt_get_retain:
  assumes "bt_inv m"
  shows "bt_get (bt_retain P m) a =
    (case bt_get m a of None \<Rightarrow> None | Some v \<Rightarrow> if P a v then Some v else None)"
  using bt_inv_distinct[OF assms]
  by (induction m) (auto simp: bt_get_def bt_retain_def map_of_eq_None_iff split: option.splits)

lemma bt_get_Cons_less: "bt_inv ((a, v) # m) \<Longrightarrow> k \<le> a \<Longrightarrow> k \<noteq> a \<Longrightarrow> bt_get ((a, v) # m) k = None"
  by (auto simp: bt_get_def bt_inv_Cons map_of_eq_None_iff)

lemma bt_get_ext:
  "bt_inv m \<Longrightarrow> bt_inv m' \<Longrightarrow> bt_get m = bt_get m' \<Longrightarrow> m = m'"
proof (induction m arbitrary: m')
  case Nil
  show ?case using fun_cong[OF Nil(3), of "fst (hd m')"] by (cases m') (simp_all add: bt_get_def)
next
  case (Cons p m)
  obtain a v where p: "p = (a, v)" by force
  obtain b w n where m': "m' = (b, w) # n"
    using fun_cong[OF Cons.prems(3), of a] p by (cases m') (auto simp: bt_get_def)
  have va: "bt_get m' a = Some v" and wb: "bt_get (p # m) b = Some w"
    using fun_cong[OF Cons.prems(3), of a] fun_cong[OF Cons.prems(3), of b]
    by (simp_all add: p m' bt_get_def)
  have "a = b"
  proof (rule ccontr)
    assume ne: "a \<noteq> b"
    consider "a \<le> b" | "b \<le> a" by (rule linorder_le_cases)
    then show False
    proof cases
      case 1
      then show False using bt_get_Cons_less[of b w n a] ne va Cons.prems(2) by (simp add: m')
    next
      case 2
      then show False using bt_get_Cons_less[of a v m b] ne wb Cons.prems(1) by (simp add: p)
    qed
  qed
  have no: "bt_get m a = None" "bt_get n a = None"
    using Cons.prems(1,2) \<open>a = b\<close>
    by (auto simp: p m' bt_get_def bt_inv_Cons map_of_eq_None_iff)
  have "bt_get m = bt_get n"
  proof (rule ext)
    fix k
    show "bt_get m k = bt_get n k"
      using fun_cong[OF Cons.prems(3), of k] no \<open>a = b\<close>
      by (cases "k = a") (simp_all add: p m' bt_get_def)
  qed
  moreover have "v = w" using va by (simp add: m' \<open>a = b\<close> bt_get_def)
  ultimately show ?case using Cons by (simp add: p m' \<open>a = b\<close> bt_inv_Cons)
qed

interpretation bt: sorted_store bt_inv bt_get bt_insert bt_remove bt_retain
proof unfold_locales
  fix m :: "('k::linorder, 'v) btree" and k v P a
  show "bt_inv m \<Longrightarrow> bt_inv (bt_insert k v m)" by (rule bt_inv_insert)
  show "bt_inv m \<Longrightarrow> bt_inv (bt_remove k m)" by (simp add: bt_remove_def bt_inv_filter)
  show "bt_inv m \<Longrightarrow> bt_inv (bt_retain P m)" by (simp add: bt_retain_def bt_inv_filter)
  show "bt_get (bt_insert k v m) = (bt_get m)(k \<mapsto> v)" by (rule bt_get_insert)
  show "bt_get (bt_remove k m) = (bt_get m)(k := None)"
    using map_of_filter_key[of "\<lambda>a. a \<noteq> k" m] by (auto simp: bt_get_def bt_remove_def fun_eq_iff)
  show "bt_inv m \<Longrightarrow> bt_get (bt_retain P m) a =
      (case bt_get m a of None \<Rightarrow> None | Some v \<Rightarrow> if P a v then Some v else None)"
    by (rule bt_get_retain)
  show "bt_inv m \<Longrightarrow> bt_inv m' \<Longrightarrow> bt_get m = bt_get m' \<Longrightarrow> m = m'" for m'
    by (rule bt_get_ext)
qed

lemma bt_inv_extend: "bt_inv m \<Longrightarrow> bt_inv (bt_extend kvs m)"
  unfolding bt_extend_def by (rule bt.inv_extend)

lemma bt_get_extend:
  "bt_inv m \<Longrightarrow> distinct (map fst kvs) \<Longrightarrow> bt_get (bt_extend kvs m) = bt_get m ++ map_of kvs"
  unfolding bt_extend_def by (rule bt.get_extend)

lemma bt_extend_eq:
  assumes "bt_inv m" "distinct (map fst kvs)" "distinct (map fst kvs')" "map_of kvs = map_of kvs'"
  shows "bt_extend kvs m = bt_extend kvs' m"
  by (rule bt.get_ext) (simp_all add: assms bt_inv_extend bt_get_extend)

text \<open>Inserting the entries of a sorted list one after the other rebuilds the list.\<close>

lemma bt_insert_last:
  "\<forall>p \<in> set m. fst p < k \<Longrightarrow> bt_insert k v m = m @ [(k, v)]"
  by (auto simp: bt_insert_def filter_id_conv filter_empty_conv)

lemma bt_get_SomeD: "bt_get m k = Some v \<Longrightarrow> (k, v) \<in> set m"
  by (simp add: bt_get_def map_of_SomeD)

lemma bt_get_SomeI: "bt_inv m \<Longrightarrow> (k, v) \<in> set m \<Longrightarrow> bt_get m k = Some v"
  by (simp add: bt_get_def bt_inv_distinct)

lemmas bt_invs = bt.inv_ins bt.inv_del bt.inv_ret bt_inv_extend

end
