(* ===== verification/CStr.thy ===== *)
theory CStr
  imports Prelude
begin

text \<open>
  base/cstr.rs and the path builder of base/files.rs.  A validated C string is the list of its
  bytes without the terminator.  The trait \<open>Utf8CStrBuf\<close> is the record \<open>buf_ops\<close> of its
  methods (the methods a \<open>dyn Utf8CStrBuf\<close> is called through); its contract is the locale
  \<open>cstr_buf\<close>, in which the path builder and the path tracker are verified once.  The locale is
  interpreted on the fixed buffers (\<open>Utf8CStrBufArr\<close>, \<open>Utf8CStrBufRef\<close>) and on the heap string
  (\<open>Utf8CString\<close>).
\<close>

section \<open>Validation\<close>

datatype str_err = Utf8Error | CStrWithNullError | CStrUntilNullError | NullPointerError

definition from_cstr :: "bytes \<Rightarrow> str_err + string" where
  "from_cstr cstr = (if utf8_valid cstr then Inr cstr else Inl Utf8Error)"

definition from_bytes_until_nul :: "bytes \<Rightarrow> str_err + string" where
  "from_bytes_until_nul bs =
     (if NUL \<in> set bs then from_cstr (takeWhile (\<lambda>b. b \<noteq> NUL) bs) else Inl CStrUntilNullError)"

definition from_bytes :: "bytes \<Rightarrow> str_err + string" where
  "from_bytes bs =
     (if bs \<noteq> [] \<and> last bs = NUL \<and> NUL \<notin> set (butlast bs) then from_cstr (butlast bs)
      else Inl CStrWithNullError)"

lemma from_bytes_ok: "NUL \<notin> set s \<Longrightarrow> utf8_valid s \<Longrightarrow> from_bytes (s @ [NUL]) = Inr s"
  by (simp add: from_bytes_def from_cstr_def)

lemma from_bytes_Inr:
  assumes "from_bytes bs = Inr s"
  shows "bs = s @ [NUL] \<and> NUL \<notin> set s \<and> utf8_valid s"
proof (cases bs rule: rev_exhaust)
  case Nil
  then show ?thesis using assms by (simp add: from_bytes_def)
next
  case (snoc ys y)
  then show ?thesis using assms by (auto simp: from_bytes_def from_cstr_def split: if_splits)
qed

section \<open>Fixed buffers\<close>

record fixed_buf =
  fb_used :: nat
  fb_buf :: bytes

definition fixed_inv :: "fixed_buf \<Rightarrow> bool" where
  "fixed_inv b \<longleftrightarrow> fb_used b < length (fb_buf b) \<and> fb_buf b ! fb_used b = NUL"

definition arr_new :: "nat \<Rightarrow> fixed_buf" where
  "arr_new n = \<lparr>fb_used = 0, fb_buf = replicate n NUL\<rparr>"

definition buf_ref_from :: "bytes \<Rightarrow> fixed_buf res" where
  "buf_ref_from bs = (if bs = [] then Inl Panic else Inr \<lparr>fb_used = 0, fb_buf = bs[0 := NUL]\<rparr>)"

definition copy_cstr_truncate :: "bytes \<Rightarrow> bytes \<Rightarrow> bytes \<times> nat" where
  "copy_cstr_truncate dest src =
     (if length dest \<le> 1 then (dest, 0)
      else let len = min (length src) (length dest - 1);
               dest = (if len > 0 then take len src @ drop len dest else dest)
           in (dest[len := NUL], len))"

definition fixed_as_str :: "fixed_buf \<Rightarrow> string" where
  "fixed_as_str b = take (fb_used b) (fb_buf b)"

definition fixed_push_str :: "fixed_buf \<Rightarrow> string \<Rightarrow> fixed_buf \<times> nat" where
  "fixed_push_str b s =
     (let (dest, len) = copy_cstr_truncate (drop (fb_used b) (fb_buf b)) s
      in (b\<lparr>fb_used := fb_used b + len, fb_buf := take (fb_used b) (fb_buf b) @ dest\<rparr>, len))"

definition fixed_capacity :: "fixed_buf \<Rightarrow> nat" where
  "fixed_capacity b = length (fb_buf b)"

definition fixed_clear :: "fixed_buf \<Rightarrow> fixed_buf" where
  "fixed_clear b = b\<lparr>fb_used := 0, fb_buf := (fb_buf b)[0 := NUL]\<rparr>"

definition fixed_truncate :: "fixed_buf \<Rightarrow> nat \<Rightarrow> fixed_buf res" where
  "fixed_truncate b new_len =
     (if fb_used b \<le> new_len then Inr b
      else if new_len < length (fb_buf b) then Inr (b\<lparr>fb_used := new_len, fb_buf := (fb_buf b)[new_len := NUL]\<rparr>)
      else Inl Panic)"

definition fixed_rebuild :: "fixed_buf \<Rightarrow> fixed_buf \<times> (str_err + unit)" where
  "fixed_rebuild b =
     (case from_bytes_until_nul (fb_buf b) of
        Inr s \<Rightarrow> (b\<lparr>fb_used := length s\<rparr>, Inr ())
      | Inl e \<Rightarrow> (b\<lparr>fb_used := 0, fb_buf := (fb_buf b)[0 := NUL]\<rparr>, Inl e))"

section \<open>Heap strings\<close>

text \<open>
  \<open>Utf8CString\<close> holds a \<open>String\<close>, and every operation re-adds the terminator outside of its length;
  the model is the string.  \<open>String::truncate\<close> panics unless the new end is a character boundary.
\<close>

definition is_char_boundary :: "string \<Rightarrow> nat \<Rightarrow> bool" where
  "is_char_boundary s n \<longleftrightarrow> n = 0 \<or> n = length s \<or> (n < length s \<and> \<not> cont_byte (s ! n))"

definition heap_push_str :: "string \<Rightarrow> string \<Rightarrow> string \<times> nat" where
  "heap_push_str b s = (b @ s, length s)"

definition heap_clear :: "string \<Rightarrow> string" where
  "heap_clear b = []"

definition heap_truncate :: "string \<Rightarrow> nat \<Rightarrow> string res" where
  "heap_truncate b new_len =
     (if new_len \<le> length b then
        (if is_char_boundary b new_len then Inr (take new_len b) else Inl Panic)
      else Inr b)"

section \<open>The trait\<close>

record 'b buf_ops =
  op_len :: "'b \<Rightarrow> nat"
  op_as_str :: "'b \<Rightarrow> string"
  op_push_str :: "'b \<Rightarrow> string \<Rightarrow> 'b \<times> nat"
  op_clear :: "'b \<Rightarrow> 'b"
  op_truncate :: "'b \<Rightarrow> nat \<Rightarrow> 'b res"

definition fixed_ops :: "fixed_buf buf_ops" where
  "fixed_ops = \<lparr>op_len = fb_used, op_as_str = fixed_as_str, op_push_str = fixed_push_str,
     op_clear = fixed_clear, op_truncate = fixed_truncate\<rparr>"

definition heap_ops :: "string buf_ops" where
  "heap_ops = \<lparr>op_len = length, op_as_str = (\<lambda>s. s), op_push_str = heap_push_str,
     op_clear = heap_clear, op_truncate = heap_truncate\<rparr>"

text \<open>\<open>append_path_impl\<close> of base/files.rs.\<close>

definition append_path_impl :: "'b buf_ops \<Rightarrow> 'b \<Rightarrow> string \<Rightarrow> 'b" where
  "append_path_impl ops b path =
     (let b = (if prefix ''/'' path then op_clear ops b else b);
          b = (if op_len ops b \<noteq> 0 \<and> \<not> ends_with (op_as_str ops b) ''/''
               then fst (op_push_str ops b ''/'') else b)
      in fst (op_push_str ops b path))"

text \<open>\<open>PathTracker\<close> of core/module.rs: the buffer and the length to return to when dropped.\<close>

record 'b path_tracker =
  pt_path :: 'b
  pt_len :: nat

definition tracker_from :: "'b buf_ops \<Rightarrow> 'b \<Rightarrow> 'b path_tracker" where
  "tracker_from ops p = \<lparr>pt_path = p, pt_len = op_len ops p\<rparr>"

definition tracker_append :: "'b buf_ops \<Rightarrow> 'b path_tracker \<Rightarrow> string \<Rightarrow> 'b path_tracker" where
  "tracker_append ops t name =
     \<lparr>pt_path = append_path_impl ops (pt_path t) name, pt_len = op_len ops (pt_path t)\<rparr>"

definition tracker_reborrow :: "'b buf_ops \<Rightarrow> 'b path_tracker \<Rightarrow> 'b path_tracker" where
  "tracker_reborrow ops t = tracker_from ops (pt_path t)"

definition tracker_drop :: "'b buf_ops \<Rightarrow> 'b path_tracker \<Rightarrow> 'b res" where
  "tracker_drop ops t = op_truncate ops (pt_path t) (pt_len t)"

text \<open>What the path builder is for: the path text it means to produce.\<close>

definition joined_path :: "string \<Rightarrow> string \<Rightarrow> string" where
  "joined_path base path =
     (if prefix ''/'' path then path
      else if base = [] \<or> ends_with base ''/'' then base @ path
      else base @ ''/'' @ path)"

text \<open>
  A scoped walk down a path, as the module code does it: append a component, work below it, drop
  the tracker.  The drop of every level runs after the work below it.
\<close>

fun scoped_walk :: "'b buf_ops \<Rightarrow> 'b \<Rightarrow> string list \<Rightarrow> 'b res" where
  "scoped_walk ops b [] = Inr b"
| "scoped_walk ops b (name # names) =
     (let t = tracker_append ops (tracker_from ops b) name
      in bindE (scoped_walk ops (pt_path t) names) (\<lambda>p. tracker_drop ops (t\<lparr>pt_path := p\<rparr>)))"

text \<open>
  A use of a fixed buffer: calls of its methods, and foreign code that writes through \<open>as_mut_ptr\<close> at most
  \<open>capacity\<close> bytes, after which the buffer is rebuilt.
\<close>

datatype buf_use = UsePush string | UseAppend string | UseClear | UseTruncate nat | UseForeign bytes

fun use_buf :: "fixed_buf \<Rightarrow> buf_use \<Rightarrow> fixed_buf res" where
  "use_buf b (UsePush s) = Inr (fst (fixed_push_str b s))"
| "use_buf b (UseAppend s) = Inr (append_path_impl fixed_ops b s)"
| "use_buf b UseClear = Inr (fixed_clear b)"
| "use_buf b (UseTruncate n) = fixed_truncate b n"
| "use_buf b (UseForeign bs) =
     (let bs = take (fixed_capacity b) bs
      in Inr (fst (fixed_rebuild (b\<lparr>fb_buf := bs @ drop (length bs) (fb_buf b)\<rparr>))))"

fun use_bufs :: "fixed_buf \<Rightarrow> buf_use list \<Rightarrow> fixed_buf res" where
  "use_bufs b [] = Inr b"
| "use_bufs b (u # us) = bindE (use_buf b u) (\<lambda>b. use_bufs b us)"

section \<open>The contract of the trait\<close>

locale cstr_buf =
  fixes ops :: "'b buf_ops"
    and inv :: "'b \<Rightarrow> bool"
    and fits :: "'b \<Rightarrow> nat \<Rightarrow> bool"
  assumes len_as_str: "inv b \<Longrightarrow> op_len ops b = length (op_as_str ops b)"
    and push_inv: "inv b \<Longrightarrow> inv (fst (op_push_str ops b s))"
    and push_as_str: "inv b \<Longrightarrow>
          op_as_str ops (fst (op_push_str ops b s)) = op_as_str ops b @ take (snd (op_push_str ops b s)) s"
    and push_le: "inv b \<Longrightarrow> snd (op_push_str ops b s) \<le> length s"
    and push_fits: "inv b \<Longrightarrow> fits b (op_len ops b + length s) \<Longrightarrow> snd (op_push_str ops b s) = length s"
    and fits_push: "inv b \<Longrightarrow> fits (fst (op_push_str ops b s)) n = fits b n"
    and clear_inv: "inv b \<Longrightarrow> inv (op_clear ops b)"
    and clear_as_str: "inv b \<Longrightarrow> op_as_str ops (op_clear ops b) = []"
    and fits_clear: "inv b \<Longrightarrow> fits (op_clear ops b) n = fits b n"
    and fits_mono: "fits b n \<Longrightarrow> m \<le> n \<Longrightarrow> fits b m"
    and truncate_ok: "inv b \<Longrightarrow> n \<le> op_len ops b \<Longrightarrow> is_char_boundary (op_as_str ops b) n \<Longrightarrow>
          \<exists>b'. op_truncate ops b n = Inr b' \<and> inv b' \<and> op_as_str ops b' = take n (op_as_str ops b)"
begin

lemma append_inv: "inv b \<Longrightarrow> inv (append_path_impl ops b p)"
  by (auto simp: append_path_impl_def Let_def intro: push_inv clear_inv)

lemma append_fits:
  assumes "inv b" "fits b (length (joined_path (op_as_str ops b) p))"
  shows "op_as_str ops (append_path_impl ops b p) = joined_path (op_as_str ops b) p"
proof -
  define c where "c = (if prefix ''/'' p then op_clear ops b else b)"
  have c: "inv c" "op_as_str ops c = (if prefix ''/'' p then [] else op_as_str ops b)"
    "fits c n = fits b n" for n
    using assms(1) by (auto simp: c_def clear_inv clear_as_str fits_clear)
  define sep where "sep = (op_len ops c \<noteq> 0 \<and> \<not> ends_with (op_as_str ops c) ''/'')"
  define d where "d = (if sep then fst (op_push_str ops c ''/'') else c)"
  have j: "joined_path (op_as_str ops b) p = op_as_str ops c @ (if sep then ''/'' else []) @ p"
    using c by (auto simp: joined_path_def sep_def len_as_str)
  have "fits c (op_len ops c + length ''/'')" if sep
    by (rule fits_mono[of c "length (joined_path (op_as_str ops b) p)"])
       (use assms(2) c that in \<open>simp_all add: j len_as_str\<close>)
  then have "op_as_str ops d = op_as_str ops c @ (if sep then ''/'' else [])"
    using push_fits[OF c(1), of "''/''"] by (auto simp: d_def push_as_str[OF c(1)])
  moreover have d: "inv d" "fits d n = fits b n" for n
    using c by (auto simp: d_def push_inv fits_push)
  ultimately have "snd (op_push_str ops d p) = length p"
    by (intro push_fits) (use assms(2) j in \<open>auto simp: len_as_str split: if_splits\<close>)
  with \<open>op_as_str ops d = _\<close> d(1) have "op_as_str ops (fst (op_push_str ops d p)) = joined_path (op_as_str ops b) p"
    by (simp add: push_as_str j)
  moreover have "append_path_impl ops b p = fst (op_push_str ops d p)"
    unfolding append_path_impl_def Let_def d_def sep_def c_def ..
  ultimately show ?thesis by simp
qed

lemma append_relative:
  assumes "inv b" "\<not> prefix ''/'' p" "p \<noteq> []" "utf8_valid p"
  shows "prefix (op_as_str ops b) (op_as_str ops (append_path_impl ops b p))"
    and "is_char_boundary (op_as_str ops (append_path_impl ops b p)) (op_len ops b)"
proof -
  define sep where "sep = (op_len ops b \<noteq> 0 \<and> \<not> ends_with (op_as_str ops b) ''/'')"
  define d where "d = (if sep then fst (op_push_str ops b ''/'') else b)"
  have d: "inv d" "append_path_impl ops b p = fst (op_push_str ops d p)"
    using assms by (auto simp: d_def sep_def append_path_impl_def push_inv)
  define n m where "n = snd (op_push_str ops b ''/'')" and "m = snd (op_push_str ops d p)"
  have e: "op_as_str ops (append_path_impl ops b p)
      = op_as_str ops b @ take n (if sep then ''/'' else []) @ take m p"
    using push_as_str[OF d(1), of p] push_as_str[OF assms(1), of "''/''"]
    by (simp add: d(2) n_def m_def) (simp add: d_def)
  show "prefix (op_as_str ops b) (op_as_str ops (append_path_impl ops b p))"
    by (simp add: e)
  obtain a q where p: "p = a # q" "\<not> cont_byte a"
    using assms(3,4) by (cases p) (auto simp: cont_byte_def split: if_splits)
  show "is_char_boundary (op_as_str ops (append_path_impl ops b p)) (op_len ops b)"
    unfolding e is_char_boundary_def len_as_str[OF assms(1)]
    using p by (cases n; cases m) (auto simp: nth_append cont_byte_def)
qed

lemma tracker_restores:
  assumes "inv b" "\<not> prefix ''/'' p" "p \<noteq> []" "utf8_valid p"
    and "inv c" "op_as_str ops c = op_as_str ops (append_path_impl ops b p)"
  shows "\<exists>b'. op_truncate ops c (op_len ops b) = Inr b' \<and> inv b' \<and> op_as_str ops b' = op_as_str ops b"
proof -
  note a = append_relative[OF assms(1-4)]
  have "op_len ops b \<le> op_len ops c"
    using a(1) assms(1,5,6) by (simp add: len_as_str prefix_length_le)
  moreover have "is_char_boundary (op_as_str ops c) (op_len ops b)"
    using a(2) by (simp add: assms(6))
  ultimately obtain b' where "op_truncate ops c (op_len ops b) = Inr b'" "inv b'"
      "op_as_str ops b' = take (op_len ops b) (op_as_str ops c)"
    using truncate_ok[OF assms(5)] by blast
  moreover have "take (op_len ops b) (op_as_str ops c) = op_as_str ops b"
    using a(1) assms(1,6) by (auto simp: len_as_str prefix_def)
  ultimately show ?thesis by auto
qed

lemma scoped_walk_restores:
  assumes "inv b" "list_all (\<lambda>p. \<not> prefix ''/'' p \<and> p \<noteq> [] \<and> utf8_valid p) ps"
  shows "\<exists>b'. scoped_walk ops b ps = Inr b' \<and> inv b' \<and> op_as_str ops b' = op_as_str ops b"
  using assms
proof (induction ps arbitrary: b)
  case (Cons p ps)
  then obtain c where c: "scoped_walk ops (append_path_impl ops b p) ps = Inr c" "inv c"
      "op_as_str ops c = op_as_str ops (append_path_impl ops b p)"
    using append_inv[of b p] by fastforce
  show ?case
    using tracker_restores[of b p c] Cons.prems c
    by (simp add: tracker_append_def tracker_from_def tracker_drop_def)
qed simp

end

section \<open>The implementations satisfy it\<close>

lemma copy_cstr_truncate_spec:
  assumes "dest \<noteq> []" "copy_cstr_truncate dest src = (dest', n)"
  shows "n = min (length src) (length dest - 1)" "length dest' = length dest"
    and "take n dest' = take n src" "length dest > 1 \<or> hd dest = NUL \<Longrightarrow> dest' ! n = NUL"
proof -
  let ?n = "min (length src) (length dest - 1)"
  have *: "length dest \<le> 1 \<and> dest' = dest \<and> n = 0 \<or>
      1 < length dest \<and> n = ?n \<and> dest' = (take n src @ drop n dest)[n := NUL]"
    using assms(2) by (auto simp: copy_cstr_truncate_def Let_def split: if_splits)
  show n: "n = ?n" using * assms(1) by (cases dest) auto
  show "length dest' = length dest" using * by auto
  show "take n dest' = take n src" using * by (auto simp: take_update_cancel)
  show "length dest > 1 \<or> hd dest = NUL \<Longrightarrow> dest' ! n = NUL"
    using * assms(1) by (auto simp: hd_conv_nth)
qed

lemma fixed_push_spec:
  fixes s :: string
  assumes "fixed_inv b"
  defines "r \<equiv> fixed_push_str b s"
  shows "snd r = min (length s) (fixed_capacity b - 1 - fb_used b)"
    and "fixed_inv (fst r)" and "fixed_as_str (fst r) = fixed_as_str b @ take (snd r) s"
    and "fixed_capacity (fst r) = fixed_capacity b"
proof -
  define dest where "dest = drop (fb_used b) (fb_buf b)"
  obtain d n where dn: "copy_cstr_truncate dest s = (d, n)" by force
  have ne: "dest \<noteq> []" "hd dest = NUL"
    using assms(1) by (auto simp: dest_def fixed_inv_def hd_drop_conv_nth)
  note sp = copy_cstr_truncate_spec[OF ne(1) dn]
  have r: "r = (b\<lparr>fb_used := fb_used b + n, fb_buf := take (fb_used b) (fb_buf b) @ d\<rparr>, n)"
    using dn by (simp add: r_def fixed_push_str_def dest_def)
  have u: "fb_used b < length (fb_buf b)" using assms(1) by (simp add: fixed_inv_def)
  show "snd r = min (length s) (fixed_capacity b - 1 - fb_used b)"
    using sp(1) by (simp add: r fixed_capacity_def dest_def)
  show "fixed_capacity (fst r) = fixed_capacity b"
    using sp(2) u by (simp add: r fixed_capacity_def dest_def)
  show "fixed_inv (fst r)"
    using sp(1,2) sp(4) ne u by (auto simp: r fixed_inv_def dest_def nth_append)
  show "fixed_as_str (fst r) = fixed_as_str b @ take (snd r) s"
    using sp(3) u by (simp add: r fixed_as_str_def)
qed

interpretation fixed: cstr_buf fixed_ops fixed_inv "\<lambda>b n. n < fixed_capacity b"
proof unfold_locales
  fix b :: fixed_buf and s :: string and n :: nat
  assume i: "fixed_inv b"
  show "op_len fixed_ops b = length (op_as_str fixed_ops b)"
    using i by (simp add: fixed_ops_def fixed_as_str_def fixed_inv_def)
  show "fixed_inv (fst (op_push_str fixed_ops b s))" "snd (op_push_str fixed_ops b s) \<le> length s"
    "op_as_str fixed_ops (fst (op_push_str fixed_ops b s)) =
       op_as_str fixed_ops b @ take (snd (op_push_str fixed_ops b s)) s"
    "(n < fixed_capacity (fst (op_push_str fixed_ops b s))) = (n < fixed_capacity b)"
    using fixed_push_spec[OF i, of s] by (simp_all add: fixed_ops_def)
  show "op_len fixed_ops b + length s < fixed_capacity b \<Longrightarrow> snd (op_push_str fixed_ops b s) = length s"
    using fixed_push_spec(1)[OF i, of s] by (simp add: fixed_ops_def)
  show "fixed_inv (op_clear fixed_ops b)" "op_as_str fixed_ops (op_clear fixed_ops b) = []"
    "(n < fixed_capacity (op_clear fixed_ops b)) = (n < fixed_capacity b)"
    using i by (cases "fb_buf b";
      auto simp: fixed_ops_def fixed_clear_def fixed_inv_def fixed_as_str_def fixed_capacity_def)+
  show "n \<le> op_len fixed_ops b \<Longrightarrow> \<exists>b'. op_truncate fixed_ops b n = Inr b' \<and> fixed_inv b' \<and>
      op_as_str fixed_ops b' = take n (op_as_str fixed_ops b)"
    using i by (auto simp: fixed_ops_def fixed_truncate_def fixed_inv_def fixed_as_str_def min_def)
qed auto

lemma fixed_append_capacity:
  "fixed_inv b \<Longrightarrow> fixed_capacity (append_path_impl fixed_ops b s) = fixed_capacity b"
  using fixed_push_spec(4) fixed.push_inv fixed.clear_inv
  by (simp add: append_path_impl_def Let_def fixed_ops_def)
     (simp add: fixed_clear_def fixed_capacity_def)

lemma nul_position: "NUL \<in> set bs \<Longrightarrow> length (takeWhile (\<lambda>b. b \<noteq> NUL) bs) < length bs \<and> bs ! length (takeWhile (\<lambda>b. b \<noteq> NUL) bs) = NUL"
  by (induction bs) auto

lemma fixed_rebuild_inv:
  assumes "fb_buf b \<noteq> []"
  shows "fixed_inv (fst (fixed_rebuild b)) \<and> fixed_capacity (fst (fixed_rebuild b)) = fixed_capacity b"
  using assms nul_position [of "fb_buf b"]
  by (auto simp: fixed_rebuild_def from_bytes_until_nul_def from_cstr_def fixed_inv_def fixed_capacity_def)

lemma use_buf_inv:
  assumes "fixed_inv b"
  shows "\<exists>b'. use_buf b u = Inr b' \<and> fixed_inv b' \<and> fixed_capacity b' = fixed_capacity b"
proof (cases u)
  case (UsePush s)
  then show ?thesis using fixed_push_spec [OF assms, of s] by simp
next
  case (UseAppend s)
  then show ?thesis using fixed.append_inv [OF assms, of s] fixed_append_capacity [OF assms, of s] by simp
next
  case UseClear
  then show ?thesis using fixed.clear_inv [OF assms] by (simp add: fixed_ops_def) (simp add: fixed_clear_def fixed_capacity_def)
next
  case (UseTruncate n)
  then show ?thesis using assms by (auto simp: fixed_truncate_def fixed_inv_def fixed_capacity_def)
next
  case (UseForeign bs)
  have "fb_buf b \<noteq> []" using assms by (auto simp: fixed_inv_def)
  then show ?thesis
    using UseForeign fixed_rebuild_inv [of "b\<lparr>fb_buf := take (fixed_capacity b) bs @ drop (length (take (fixed_capacity b) bs)) (fb_buf b)\<rparr>"]
    by (auto simp: fixed_capacity_def Let_def)
qed

lemma use_bufs_inv:
  "fixed_inv b \<Longrightarrow> \<exists>b'. use_bufs b us = Inr b' \<and> fixed_inv b' \<and> fixed_capacity b' = fixed_capacity b"
proof (induction us arbitrary: b)
  case (Cons u us)
  obtain c where "use_buf b u = Inr c" "fixed_inv c" "fixed_capacity c = fixed_capacity b"
    using use_buf_inv [OF Cons.prems] by blast
  with Cons.IH [of c] show ?case by simp
qed simp

interpretation heap: cstr_buf heap_ops "\<lambda>_. True" "\<lambda>_ _. True"
  by unfold_locales (simp_all add: heap_ops_def heap_push_str_def heap_clear_def heap_truncate_def)

section \<open>Properties\<close>

text \<open>
  Appending a path to a fixed buffer that has room for the result keeps the buffer's invariant
  (\<open>used\<close> below the capacity, terminator at \<open>used\<close>) and yields the joined path: the path itself when
  it is absolute, otherwise the old content and the path with exactly one separator between them.
\<close>
theorem fixed_append_path:
  assumes "fixed_inv b"
    and "length (joined_path (fixed_as_str b) path) < fixed_capacity b"
  shows "fixed_inv (append_path_impl fixed_ops b path)
    \<and> fixed_as_str (append_path_impl fixed_ops b path) = joined_path (fixed_as_str b) path"
  using fixed.append_inv[OF assms(1), of path] fixed.append_fits[of b path] assms
  by (simp add: fixed_ops_def)

theorem fixed_append_path_witness:
  "fixed_inv (append_path_impl fixed_ops (arr_new 8) ''/a'')
    \<and> fixed_as_str (append_path_impl fixed_ops (arr_new 8) ''/a'') = ''/a''"
  using fixed_append_path[of "arr_new 8" "''/a''"]
  by (simp add: fixed_inv_def arr_new_def fixed_capacity_def joined_path_def)

text \<open>
  C29. Walking down any list of relative, non-empty path components with nested path trackers and
  dropping each tracker on the way back restores the content of a fixed buffer, even when the
  buffer was too small and components were cut off on the way down; no drop panics.
\<close>
theorem path_tracker_restores:
  assumes "fixed_inv b"
    and "list_all (\<lambda>p. \<not> prefix ''/'' p \<and> p \<noteq> [] \<and> utf8_valid p) names"
  shows "\<exists>b'. scoped_walk fixed_ops b names = Inr b' \<and> fixed_inv b' \<and> fixed_as_str b' = fixed_as_str b"
  using fixed.scoped_walk_restores[OF assms] by (simp add: fixed_ops_def)

theorem path_tracker_restores_witness:
  "\<exists>b'. scoped_walk fixed_ops (arr_new 6) [''system'', ''bin''] = Inr b'
     \<and> fixed_inv b' \<and> fixed_as_str b' = []"
  using path_tracker_restores[of "arr_new 6" "[''system'', ''bin'']"]
  by (simp add: fixed_inv_def arr_new_def fixed_as_str_def)

text \<open>
  C16. However a fixed buffer is used, pushes, paths, truncations at any length and foreign writes
  included, no index is out of range, its array keeps its size, the string in it is shorter than the
  array and the terminator follows it.
\<close>
theorem fixed_buf_bounds:
  assumes "0 < n"
  shows "\<exists>b. use_bufs (arr_new n) us = Inr b \<and> length (fb_buf b) = n \<and> length (fixed_as_str b) < n \<and> fb_buf b ! length (fixed_as_str b) = NUL"
proof -
  have "fixed_inv (arr_new n)" using assms by (simp add: fixed_inv_def arr_new_def)
  from use_bufs_inv [OF this, of us] show ?thesis
    by (auto simp: fixed_inv_def fixed_capacity_def fixed_as_str_def arr_new_def min_def)
qed

theorem fixed_buf_bounds_witness:
  "\<exists>b. use_bufs (arr_new 4) [UsePush ''abcdef'', UseTruncate 9, UseForeign ''xyzzy'', UseAppend ''q''] = Inr b \<and>
     length (fb_buf b) = 4 \<and> length (fixed_as_str b) < 4 \<and> fb_buf b ! length (fixed_as_str b) = NUL"
  by (rule fixed_buf_bounds) simp

text \<open>
  The content of a fixed buffer need not be valid UTF-8 although only valid UTF-8 is pushed:
  a push that does not fit is cut at a byte, not at a character.  Here the two-byte character
  C3 A9 is pushed into an empty buffer of two bytes.
\<close>
theorem fixed_push_cuts_characters:
  "utf8_valid [CHR 0xC3, CHR 0xA9]
   \<and> fixed_as_str (fst (fixed_push_str (arr_new 2) [CHR 0xC3, CHR 0xA9])) = [CHR 0xC3]
   \<and> \<not> utf8_valid [CHR 0xC3]"
  by (simp add: fixed_push_str_def arr_new_def copy_cstr_truncate_def fixed_as_str_def cont_byte_def
      numeral_2_eq_2)

end
