(* ===== verification/Cpio.thy ===== *)
theory Cpio
  imports BTreeMap CStr
begin

text \<open>
  boot/cpio.rs: the newc archive format (\<open>load_from_data\<close>, \<open>dump\<close>) and the editing operations.
  \<open>struct Cpio\<close> has one field, the map from entry names to entries, and is that map here.  A file
  being written is the list of bytes written so far; a write call writes all its bytes.  Types of
  libc are those of the 64-bit Android targets: \<open>mode_t\<close>, \<open>uid_t\<close>, \<open>gid_t\<close> have 32 bits and
  \<open>dev_t\<close> has 64.
\<close>

section \<open>Archive data\<close>

definition S_IFMT :: u32 where "S_IFMT = 0xF000"
definition S_IFSOCK :: u32 where "S_IFSOCK = 0xC000"
definition S_IFLNK :: u32 where "S_IFLNK = 0xA000"
definition S_IFREG :: u32 where "S_IFREG = 0x8000"
definition S_IFBLK :: u32 where "S_IFBLK = 0x6000"
definition S_IFDIR :: u32 where "S_IFDIR = 0x4000"
definition S_IFCHR :: u32 where "S_IFCHR = 0x2000"
definition S_IFIFO :: u32 where "S_IFIFO = 0x1000"

lemmas S_IF_defs = S_IFMT_def S_IFSOCK_def S_IFLNK_def S_IFREG_def S_IFBLK_def S_IFDIR_def
  S_IFCHR_def S_IFIFO_def

record cpio_header =
  h_magic :: bytes
  h_ino :: bytes
  h_mode :: bytes
  h_uid :: bytes
  h_gid :: bytes
  h_nlink :: bytes
  h_mtime :: bytes
  h_filesize :: bytes
  h_devmajor :: bytes
  h_devminor :: bytes
  h_rdevmajor :: bytes
  h_rdevminor :: bytes
  h_namesize :: bytes
  h_check :: bytes

record cpio_entry =
  ce_mode :: u32
  ce_uid :: u32
  ce_gid :: u32
  ce_rdevmajor :: u64
  ce_rdevminor :: u64
  ce_data :: bytes

type_synonym cpio = "(string, cpio_entry) btree"

definition hdr_sz :: nat where "hdr_sz = 110"

definition hdr_field :: "bytes \<Rightarrow> nat \<Rightarrow> bytes" where
  "hdr_field h i = take 8 (drop (6 + 8 * i) h)"

definition header_of :: "bytes \<Rightarrow> cpio_header" where
  "header_of h = \<lparr>h_magic = take 6 h, h_ino = hdr_field h 0, h_mode = hdr_field h 1,
     h_uid = hdr_field h 2, h_gid = hdr_field h 3, h_nlink = hdr_field h 4,
     h_mtime = hdr_field h 5, h_filesize = hdr_field h 6, h_devmajor = hdr_field h 7,
     h_devminor = hdr_field h 8, h_rdevmajor = hdr_field h 9, h_rdevminor = hdr_field h 10,
     h_namesize = hdr_field h 11, h_check = hdr_field h 12\<rparr>"

section \<open>Helpers\<close>

fun x8u_loop :: "u32 \<Rightarrow> string \<Rightarrow> u32 res" where
  "x8u_loop ret [] = Inr ret"
| "x8u_loop ret (c # cs) =
     bindE (ok_or LoggedError (digit_val c)) (\<lambda>d. x8u_loop (ret * 16 + of_nat d) cs)"

definition x8u :: "bytes \<Rightarrow> u32 res" where
  "x8u x = (if utf8_valid x then x8u_loop 0 x else Inl LoggedError)"

definition align_4 :: "nat \<Rightarrow> nat" where
  "align_4 x = (x + 3) div 4 * 4"

text \<open>The same function on the machine word, as it is computed.\<close>

definition align_4_usize :: "64 word \<Rightarrow> 64 word" where
  "align_4_usize x = (x + 3) AND NOT 3"

definition norm_path :: "string \<Rightarrow> string" where
  "norm_path path = join_with ''/'' (filter (\<lambda>x. x \<noteq> []) (split_on (CHR ''/'') path))"

text \<open>\<open>mode_t::from_str_radix(s, 8)\<close>: an optional sign \<open>+\<close>, then octal digits, 32 bits.\<close>

fun octal_loop :: "nat \<Rightarrow> string \<Rightarrow> nat option" where
  "octal_loop r [] = Some r"
| "octal_loop r (c # cs) =
     (case digit_val c of
        Some d \<Rightarrow> if d < 8 \<and> r * 8 + d < 2 ^ 32 then octal_loop (r * 8 + d) cs else None
      | None \<Rightarrow> None)"

definition parse_mode :: "string \<Rightarrow> u32 option" where
  "parse_mode s =
     (let ds = (if prefix ''+'' s then tl s else s)
      in if ds = [] then None else map_option of_nat (octal_loop 0 ds))"

section \<open>Reading an archive\<close>

datatype load_next = Break | Continue nat cpio

text \<open>The end of an iteration, once the header's entry is known to be a file of the archive.\<close>

definition load_entry :: "bytes \<Rightarrow> cpio_header \<Rightarrow> string \<Rightarrow> nat \<Rightarrow> cpio \<Rightarrow> load_next res" where
  "load_entry data hdr name pos cpio =
     bindE (x8u (h_filesize hdr)) (\<lambda>file_sz.
     bindE (x8u (h_mode hdr)) (\<lambda>mode.
     bindE (x8u (h_uid hdr)) (\<lambda>uid.
     bindE (x8u (h_gid hdr)) (\<lambda>gid.
     bindE (x8u (h_rdevmajor hdr)) (\<lambda>rmaj.
     bindE (x8u (h_rdevminor hdr)) (\<lambda>rmin.
     bindE (slice data pos (pos + unat file_sz)) (\<lambda>d.
     Inr (Continue (align_4 (pos + unat file_sz))
       (bt_insert name \<lparr>ce_mode = mode, ce_uid = uid, ce_gid = gid,
          ce_rdevmajor = ucast rmaj, ce_rdevminor = ucast rmin, ce_data = d\<rparr> cpio)))))))))"

definition load_step :: "bytes \<Rightarrow> nat \<Rightarrow> cpio \<Rightarrow> load_next res" where
  "load_step data pos cpio =
     bindE (slice data pos (pos + hdr_sz)) (\<lambda>h.
     let hdr = header_of h in
     if h_magic hdr \<noteq> ''070701'' then Inl LoggedError
     else
     let pos = pos + hdr_sz in
     bindE (x8u (h_namesize hdr)) (\<lambda>name_sz.
     bindE (slice data pos (pos + unat name_sz)) (\<lambda>nm.
     case from_bytes nm of
       Inl _ \<Rightarrow> Inl LoggedError
     | Inr name \<Rightarrow>
       let pos = align_4 (pos + unat name_sz) in
       if name = ''.'' \<or> name = ''..'' then Inr (Continue pos cpio)
       else if name = ''TRAILER!!!'' then
         bindE (slice_from data pos) (\<lambda>rest.
         case find_sub ''070701'' rest of
           Some x \<Rightarrow> Inr (Continue (pos + x) cpio)
         | None \<Rightarrow> Inr Break)
       else load_entry data hdr name pos cpio)))"

lemma align_4_bounds: "x \<le> align_4 x \<and> align_4 x \<le> x + 3"
  unfolding align_4_def by linarith

definition entry_ok :: "cpio_entry \<Rightarrow> bool" where
  "entry_ok e \<longleftrightarrow> ce_rdevmajor e < 2 ^ 32 \<and> ce_rdevminor e < 2 ^ 32 \<and> length (ce_data e) < 2 ^ 32"

definition name_ok :: "string \<Rightarrow> bool" where
  "name_ok n \<longleftrightarrow> utf8_valid n \<and> NUL \<notin> set n \<and> length n + 1 < 2 ^ 32
     \<and> n \<noteq> ''.'' \<and> n \<noteq> ''..'' \<and> n \<noteq> ''TRAILER!!!''"

lemma unat_32_less: "unat (w :: u32) < 2 ^ 32"
  using unsigned_less[where ?'a = nat, of w] by simp

lemma ucast_32_64_less: "(ucast (w :: u32) :: u64) < 2 ^ 32"
  using unat_32_less[of w] by (simp add: word_less_nat_alt unsigned_ucast_eq take_bit_eq_mod)

lemma load_entry_Continue:
  assumes "load_entry data hdr name pos c = Inr r"
  shows "\<exists>pos' e. r = Continue pos' (bt_insert name e c) \<and> entry_ok e \<and> pos \<le> pos' \<and> pos' \<le> length data + 3"
proof -
  from assms obtain sz m u g a b d where
    d: "slice data pos (pos + unat (sz :: u32)) = Inr d" and
    r: "r = Continue (align_4 (pos + unat sz))
       (bt_insert name \<lparr>ce_mode = m, ce_uid = u, ce_gid = g,
          ce_rdevmajor = ucast (a :: u32), ce_rdevminor = ucast (b :: u32), ce_data = d\<rparr> c)"
    by (auto simp: load_entry_def bindE_eq_Inr_iff)
  from slice_eq_Inr_length[OF d]
  have "pos + unat sz \<le> length data" "length d = unat sz" by auto
  moreover from this have "entry_ok \<lparr>ce_mode = m, ce_uid = u, ce_gid = g, ce_rdevmajor = ucast a,
      ce_rdevminor = ucast b, ce_data = d\<rparr>"
    using unat_32_less[of sz] ucast_32_64_less[of a] ucast_32_64_less[of b] by (simp add: entry_ok_def)
  ultimately show ?thesis
    using align_4_bounds[of "pos + unat sz"] unfolding r by fastforce
qed

lemma load_step_Continue:
  assumes "load_step data pos c = Inr (Continue pos' c')"
  shows "pos + hdr_sz \<le> length data \<and> pos + hdr_sz \<le> pos' \<and>
    (c' = c \<or> (\<exists>name e. c' = bt_insert name e c \<and> name_ok name \<and> entry_ok e \<and> pos' \<le> length data + 3))"
proof -
  let ?q = "pos + hdr_sz"
  obtain h where h: "slice data pos ?q = Inr h"
    using assms by (cases "slice data pos ?q") (simp_all add: load_step_def)
  then have len: "?q \<le> length data" by (auto dest: slice_eq_Inr_length)
  have m: "h_magic (header_of h) = ''070701''"
    using assms by (rule contrapos_pp) (simp add: load_step_def h)
  obtain sz where sz: "x8u (h_namesize (header_of h)) = Inr sz"
    using assms by (cases "x8u (h_namesize (header_of h))") (simp_all add: load_step_def h m)
  obtain nm where nm: "slice data ?q (?q + unat sz) = Inr nm"
    using assms by (cases "slice data ?q (?q + unat sz)") (simp_all add: load_step_def h m sz)
  obtain name where name: "from_bytes nm = Inr name"
    using assms by (cases "from_bytes nm") (simp_all add: load_step_def h m sz nm)
  note r = assms[unfolded load_step_def, simplified h m sz nm name Let_def bindE_simps sum.case
      if_False HOL.simp_thms not_True_eq_False]
  define p where "p = align_4 (pos + hdr_sz + unat sz)"
  have p: "pos + hdr_sz \<le> p" unfolding p_def using align_4_bounds[of "pos + hdr_sz + unat sz"] by linarith
  show ?thesis
  proof (cases "name = ''.'' \<or> name = ''..'' \<or> name = ''TRAILER!!!''")
    case True
    then have "c' = c \<and> p \<le> pos'"
      using r by (auto simp: Let_def p_def bindE_eq_Inr_iff split: if_split_asm option.split_asm)
    then show ?thesis using len p by simp
  next
    case False
    from name have "nm = name @ [NUL]" "NUL \<notin> set name" "utf8_valid name"
      by (auto dest: from_bytes_Inr)
    moreover have "length nm < 2 ^ 32"
      using slice_eq_Inr_length[OF nm] unat_32_less[of sz] by simp
    ultimately have "name_ok name" using False by (simp add: name_ok_def)
    moreover have "load_entry data (header_of h) name p c = Inr (Continue pos' c')"
      using r False by (simp add: Let_def p_def)
    ultimately show ?thesis using len p load_entry_Continue by fastforce
  qed
qed

function load_loop :: "bytes \<Rightarrow> nat \<Rightarrow> cpio \<Rightarrow> cpio res" where
  "load_loop data pos cpio =
     (if pos < length data then
        (case load_step data pos cpio of
           Inl e \<Rightarrow> Inl e
         | Inr Break \<Rightarrow> Inr cpio
         | Inr (Continue pos' cpio') \<Rightarrow> load_loop data pos' cpio')
      else Inr cpio)"
  by pat_completeness auto
termination
proof (relation "measure (\<lambda>(data, pos, _). length data - pos)")
  fix data pos cpio x2 x21 x22
  assume "pos < length data" "load_step data pos cpio = Inr x2" "x2 = Continue x21 x22"
  then show "((data, x21, x22), data, pos, cpio) \<in> measure (\<lambda>(data, pos, _). length data - pos)"
    using load_step_Continue[of data pos cpio x21 x22] by (auto simp: hdr_sz_def)
qed simp

declare load_loop.simps [simp del]

definition load_from_data :: "bytes \<Rightarrow> cpio res" where
  "load_from_data data = load_loop data 0 []"

section \<open>Writing an archive\<close>

text \<open>The format string of \<open>dump\<close> with its thirteen numbers, and \<open>WriteExt::write_zeros\<close>.\<close>

definition header_text :: "nat list \<Rightarrow> bytes" where
  "header_text nums = ''070701'' @ concat (map fmt_08x nums)"

definition zeros :: "nat \<Rightarrow> bytes" where
  "zeros n = replicate n NUL"

definition dump_entry :: "nat \<Rightarrow> nat \<Rightarrow> string \<Rightarrow> cpio_entry \<Rightarrow> bytes \<times> nat" where
  "dump_entry pos inode name entry =
     (let h = header_text [inode, unat (ce_mode entry), unat (ce_uid entry), unat (ce_gid entry),
                1, 0, length (ce_data entry), 0, 0,
                unat (ce_rdevmajor entry), unat (ce_rdevminor entry), length name + 1, 0];
          pos = pos + length h;
          pos = pos + length name;
          pos = pos + 1;
          pad1 = zeros (align_4 pos - pos);
          pos = align_4 pos;
          pos = pos + length (ce_data entry);
          pad2 = zeros (align_4 pos - pos);
          pos = align_4 pos
      in (h @ name @ [NUL] @ pad1 @ ce_data entry @ pad2, pos))"

fun dump_entries :: "(string \<times> cpio_entry) list \<Rightarrow> nat \<Rightarrow> nat \<Rightarrow> bytes \<times> nat \<times> nat" where
  "dump_entries [] pos inode = ([], pos, inode)"
| "dump_entries ((name, entry) # es) pos inode =
     (let (b, pos) = dump_entry pos inode name entry;
          (bs, pos, inode) = dump_entries es pos (inode + 1)
      in (b @ bs, pos, inode))"

definition dump_trailer :: "nat \<Rightarrow> nat \<Rightarrow> bytes" where
  "dump_trailer pos inode =
     (let h = header_text [inode, 493, 0, 0, 1, 0, 0, 0, 0, 0, 0, 11, 0];
          pos = pos + length h;
          pos = pos + length (''TRAILER!!!'' @ [NUL])
      in h @ ''TRAILER!!!'' @ [NUL] @ zeros (align_4 pos - pos))"

definition dump :: "cpio \<Rightarrow> bytes" where
  "dump cpio =
     (let (bs, pos, inode) = dump_entries cpio 0 300000
      in bs @ dump_trailer pos inode)"

section \<open>Reading back what was written\<close>

definition cpio_wf :: "cpio \<Rightarrow> bool" where
  "cpio_wf c \<longleftrightarrow> bt_inv c \<and> list_all (\<lambda>(n, e). name_ok n \<and> entry_ok e) c \<and> length c + 300000 < 2 ^ 32"

lemma x8u_loop_digits:
  "list_all (\<lambda>c. digit_val c \<noteq> None) s \<Longrightarrow>
     x8u_loop (of_nat r) s = Inr (of_nat (foldl (\<lambda>r c. r * 16 + the (digit_val c)) r s))"
proof (induction s arbitrary: r)
  case (Cons c s)
  then obtain d where "digit_val c = Some d" by auto
  then show ?case using Cons.IH[of "r * 16 + d"] Cons.prems by simp
qed simp

lemma x8u_fmt_08x: "x8u (fmt_08x n) = Inr (of_nat n)"
proof -
  have "utf8_valid (fmt_08x n)" using fmt_08x_chars by (blast intro: utf8_valid_ascii)
  moreover have "list_all (\<lambda>c. digit_val c \<noteq> None) (fmt_08x n)"
    using fmt_08x_chars by (auto simp: list_all_iff)
  ultimately show ?thesis
    using x8u_loop_digits[of "fmt_08x n" 0] hex_val_fmt_08x[of n] by (simp add: x8u_def hex_val_def)
qed

lemma take_drop_concat:
  "list_all (\<lambda>x. length x = k) xs \<Longrightarrow> i < length xs \<Longrightarrow> take k (drop (k * i) (concat xs)) = xs ! i"
proof (induction xs arbitrary: i)
  case (Cons x xs)
  then show ?case by (cases i) auto
qed simp

lemma header_text_length: "list_all (\<lambda>n. n < 2 ^ 32) fs \<Longrightarrow> length (header_text fs) = 6 + 8 * length fs"
  unfolding header_text_def by (induction fs) (auto simp: fmt_08x_length)

lemma header_text_field:
  assumes "list_all (\<lambda>n. n < 2 ^ 32) fs" "i < length fs"
  shows "x8u (hdr_field (header_text fs) i) = Inr (of_nat (fs ! i))"
proof -
  have "drop (6 + 8 * i) (header_text fs) = drop (8 * i) (concat (map fmt_08x fs))"
    by (simp add: header_text_def drop_drop [symmetric] add.commute [of 6])
  moreover have "list_all (\<lambda>x. length x = 8) (map fmt_08x fs)"
    using assms(1) by (auto simp: list_all_iff fmt_08x_length)
  ultimately have "hdr_field (header_text fs) i = fmt_08x (fs ! i)"
    using assms(2) by (simp add: hdr_field_def take_drop_concat)
  then show ?thesis by (simp add: x8u_fmt_08x)
qed

lemma header_text_magic: "h_magic (header_of (header_text fs)) = ''070701''"
  by (simp add: header_of_def header_text_def)

lemma header_text_fields:
  assumes "list_all (\<lambda>n. n < 2 ^ 32) fs" "length fs = 13"
  shows "x8u (h_mode (header_of (header_text fs))) = Inr (of_nat (fs ! 1))"
    and "x8u (h_uid (header_of (header_text fs))) = Inr (of_nat (fs ! 2))"
    and "x8u (h_gid (header_of (header_text fs))) = Inr (of_nat (fs ! 3))"
    and "x8u (h_filesize (header_of (header_text fs))) = Inr (of_nat (fs ! 6))"
    and "x8u (h_rdevmajor (header_of (header_text fs))) = Inr (of_nat (fs ! 9))"
    and "x8u (h_rdevminor (header_of (header_text fs))) = Inr (of_nat (fs ! 10))"
    and "x8u (h_namesize (header_of (header_text fs))) = Inr (of_nat (fs ! 11))"
  using header_text_field[OF assms(1)] assms(2) by (simp_all add: header_of_def)

text \<open>One iteration of the reader on a header, a name and the padding after it.\<close>

lemma load_step_header:
  assumes fs: "list_all (\<lambda>n. n < 2 ^ 32) fs" "length fs = 13" "fs ! 11 = length name + 1"
    and name: "utf8_valid name" "NUL \<notin> set name" "name \<noteq> ''.''" "name \<noteq> ''..''"
    and data: "data = pre @ header_text fs @ name @ NUL # post" "pos = length pre"
  shows "load_step data pos c =
    (let pos = align_4 (pos + hdr_sz + (length name + 1)) in
     if name = ''TRAILER!!!'' then
         bindE (slice_from data pos) (\<lambda>rest.
         case find_sub ''070701'' rest of
           Some x \<Rightarrow> Inr (Continue (pos + x) c)
         | None \<Rightarrow> Inr Break)
       else load_entry data (header_of (header_text fs)) name pos c)"
proof -
  have len: "length (header_text fs) = hdr_sz"
    using header_text_length[OF fs(1)] fs(2) by (simp add: hdr_sz_def)
  have "length name + 1 < 2 ^ 32"
    using fs(1)[unfolded list_all_length, rule_format, of 11] fs(2,3) by simp
  then have nsz: "unat (of_nat (length name + 1) :: u32) = length name + 1"
    by (simp only: unsigned_of_nat) (simp add: take_bit_nat_eq_self)
  have s1: "slice data pos (pos + hdr_sz) = Inr (header_text fs)"
    unfolding data(1) by (rule slice_mid) (simp_all add: data(2) len)
  have s2: "slice data (pos + hdr_sz) (pos + hdr_sz + (length name + 1)) = Inr (name @ [NUL])"
    using slice_mid[of "pos + hdr_sz" "pre @ header_text fs" _ "name @ [NUL]" post] data len by simp
  have f: "from_bytes (name @ [NUL]) = Inr name" using name by (simp add: from_bytes_ok)
  show ?thesis
    unfolding load_step_def s1 bindE_simps Let_def header_text_magic header_text_fields(7)[OF fs(1,2)] fs(3)
      nsz s2 f sum.case
    using name(3,4) by simp
qed

lemma ucast_ucast_32:
  assumes "(w :: u64) < 2 ^ 32"
  shows "ucast (ucast w :: u32) = w"
proof (rule word_unat_eq_iff [THEN iffD2])
  have "unat w < 2 ^ 32" using assms by (simp add: word_less_nat_alt)
  then show "unat (ucast (ucast w :: u32) :: u64) = unat w"
    by (simp add: unsigned_ucast_eq unsigned_take_bit_eq take_bit_nat_eq_self)
qed

lemma unat_of_nat_32: "n < 2 ^ 32 \<Longrightarrow> unat (of_nat n :: u32) = n"
  by (simp add: unsigned_of_nat take_bit_nat_eq_self)

lemma unat_64_less: "(w :: u64) < 2 ^ 32 \<Longrightarrow> unat w < 2 ^ 32"
  by (simp add: word_less_nat_alt)

lemma load_dump_entry:
  assumes ok: "name_ok n" "entry_ok e" and ino: "inode < 2 ^ 32"
    and d: "dump_entry (length pre) inode n e = (b, p)"
  shows "load_step (pre @ b @ post) (length pre) c = Inr (Continue p (bt_insert n e c))"
    and "p = length pre + length b" and "0 < length b"
proof -
  define fs where "fs = [inode, unat (ce_mode e), unat (ce_uid e), unat (ce_gid e),
                1, 0, length (ce_data e), 0, 0,
                unat (ce_rdevmajor e), unat (ce_rdevminor e), length n + 1, 0]"
  have fs: "list_all (\<lambda>n. n < 2 ^ 32) fs" "length fs = 13" "fs ! 11 = length n + 1"
    using ok ino unat_32_less unat_64_less by (auto simp: fs_def entry_ok_def name_ok_def)
  have len: "length (header_text fs) = hdr_sz"
    using header_text_length[OF fs(1)] fs(2) by (simp add: hdr_sz_def)
  define q1 where "q1 = length pre + hdr_sz + (length n + 1)"
  define q2 where "q2 = align_4 q1 + length (ce_data e)"
  have b: "b = header_text fs @ n @ NUL # (zeros (align_4 q1 - q1) @ ce_data e @ zeros (align_4 q2 - q2))"
    and p: "p = align_4 q2"
    using d unfolding dump_entry_def Let_def fs_def [symmetric] len
    by (auto simp: q1_def q2_def add.assoc)
  show "p = length pre + length b" "0 < length b"
    using align_4_bounds[of q1] align_4_bounds[of q2]
    by (simp_all add: b p len q1_def q2_def zeros_def)
  let ?data = "pre @ b @ post"
  have e: "entry_ok e" "unat (of_nat (length (ce_data e)) :: u32) = length (ce_data e)"
    using ok(2) by (simp_all add: entry_ok_def unat_of_nat_32)
  have sl: "slice ?data (align_4 q1) (align_4 q1 + length (ce_data e)) = Inr (ce_data e)"
    using slice_mid[of "align_4 q1" "pre @ header_text fs @ n @ NUL # zeros (align_4 q1 - q1)" _
        "ce_data e" "zeros (align_4 q2 - q2) @ post"] align_4_bounds[of q1]
    by (simp add: b len q1_def zeros_def)
  have "load_entry ?data (header_of (header_text fs)) n (align_4 q1) c = Inr (Continue p (bt_insert n e c))"
    unfolding load_entry_def header_text_fields[OF fs(1,2)] bindE_simps
    using e sl ucast_ucast_32[of "ce_rdevmajor e"] ucast_ucast_32[of "ce_rdevminor e"]
    by (simp add: fs_def p q2_def entry_ok_def) (cases e, simp)
  moreover have "n \<noteq> ''.''" "n \<noteq> ''..''" "n \<noteq> ''TRAILER!!!''" "utf8_valid n" "NUL \<notin> set n"
    using ok(1) by (auto simp: name_ok_def)
  ultimately show "load_step ?data (length pre) c = Inr (Continue p (bt_insert n e c))"
    by (subst load_step_header[OF fs, where pre = pre and post = "zeros (align_4 q1 - q1) @ ce_data e @ zeros (align_4 q2 - q2) @ post"])
       (simp_all add: b q1_def)
qed

lemma load_trailer:
  assumes ino: "inode < 2 ^ 32"
  shows "load_step (pre @ dump_trailer (length pre) inode) (length pre) c = Inr Break"
proof -
  define fs where "fs = [inode, 493, 0, 0, 1, 0, 0, 0, 0, 0, 0, 11, 0]"
  have fs: "list_all (\<lambda>n. n < 2 ^ 32) fs" "length fs = 13" "fs ! 11 = length ''TRAILER!!!'' + 1"
    using ino by (auto simp: fs_def)
  have len: "length (header_text fs) = hdr_sz"
    using header_text_length[OF fs(1)] fs(2) by (simp add: hdr_sz_def)
  define q where "q = length pre + hdr_sz + (length ''TRAILER!!!'' + 1)"
  have t: "dump_trailer (length pre) inode
      = header_text fs @ ''TRAILER!!!'' @ NUL # zeros (align_4 q - q)"
    unfolding dump_trailer_def Let_def fs_def [symmetric] len by (simp add: q_def add.assoc)
  let ?data = "pre @ dump_trailer (length pre) inode"
  have "length ?data = q + (align_4 q - q)"
    by (simp add: t len zeros_def q_def)
  then have "length ?data = align_4 q" using align_4_bounds[of q] by linarith
  then have "slice_from ?data (align_4 q) = Inr []"
    by (simp add: slice_from_def)
  moreover have "utf8_valid ''TRAILER!!!''" by (simp add: utf8_valid_ascii)
  ultimately show ?thesis
    by (subst load_step_header[OF fs, where pre = pre and post = "zeros (align_4 q - q)"])
       (simp_all add: t Let_def q_def add.assoc)
qed

lemma load_loop_dump:
  assumes "dump_entries es (length pre) inode = (bs, pos, inode')"
    and "list_all (\<lambda>(n, e). name_ok n \<and> entry_ok e) es" "inode + length es < 2 ^ 32"
  shows "load_loop (pre @ bs @ dump_trailer pos inode') (length pre) c = Inr (bt_extend es c)"
  using assms
proof (induction es arbitrary: pre inode bs c)
  case Nil
  then show ?case
    using load_trailer[of inode pre c] by (subst load_loop.simps) (simp add: bt_extend_def dump_trailer_def header_text_def Let_def)
next
  case (Cons x es)
  obtain n e where x: "x = (n, e)" by force
  obtain b p where b: "dump_entry (length pre) inode n e = (b, p)" by force
  obtain bs' where bs': "dump_entries es p (inode + 1) = (bs', pos, inode')" "bs = b @ bs'"
    using Cons.prems(1) by (auto simp: x b split: prod.splits)
  have ok: "name_ok n" "entry_ok e" "inode < 2 ^ 32" using Cons.prems by (auto simp: x)
  note step = load_dump_entry[OF ok b]
  have "load_loop (pre @ bs @ dump_trailer pos inode') (length pre) c
      = load_loop ((pre @ b) @ bs' @ dump_trailer pos inode') (length (pre @ b)) (bt_insert n e c)"
    using step(3) step(1)[of "bs' @ dump_trailer pos inode'" c]
    by (subst load_loop.simps) (simp add: bs'(2) step(2))
  also have "\<dots> = Inr (bt_extend es (bt_insert n e c))"
    using Cons.IH[of "pre @ b" "inode + 1" bs'] bs'(1) Cons.prems(2,3) by (simp add: x step(2))
  finally show ?case by (simp add: x bt_extend_def)
qed

lemma bt_extend_rebuild: "bt_inv m \<Longrightarrow> bt_extend m [] = m"
  using bt_get_extend[of "[]" m] bt_inv_distinct[of m]
  by (intro bt.get_ext) (simp_all add: bt_inv_extend, simp add: bt_get_def [abs_def])

section \<open>Editing operations\<close>

definition rm :: "cpio \<Rightarrow> string \<Rightarrow> bool \<Rightarrow> cpio" where
  "rm c path recursive =
     (let path = norm_path path;
          c = bt_remove path c
      in if recursive then
           let path = path @ ''/'' in bt_retain (\<lambda>k _. \<not> prefix path k) c
         else c)"

definition exists_entry :: "cpio \<Rightarrow> string \<Rightarrow> bool" where
  "exists_entry c path = bt_contains c (norm_path path)"

text \<open>
  What \<open>add\<close> asks of the file system: the attributes of the input (\<open>lstat\<close>) and its content
  (following symlinks).  \<open>st_major\<close> and \<open>st_minor\<close> stand for \<open>major(st_rdev)\<close>, \<open>minor(st_rdev)\<close>.
\<close>

record file_attr =
  st_mode :: u32
  st_major :: u32
  st_minor :: u32

definition attr_is :: "file_attr \<Rightarrow> u32 \<Rightarrow> bool" where
  "attr_is a mode \<longleftrightarrow> st_mode a AND S_IFMT = mode"

definition add :: "(string \<Rightarrow> file_attr option) \<Rightarrow> (string \<Rightarrow> bytes option) \<Rightarrow>
    cpio \<Rightarrow> u32 \<Rightarrow> string \<Rightarrow> string \<Rightarrow> cpio res" where
  "add get_attr read_file c mode path file =
     (if ends_with path ''/'' then Inl LoggedError
      else bindE (ok_or LoggedError (get_attr file)) (\<lambda>attr.
      bindE (if attr_is attr S_IFREG \<or> attr_is attr S_IFLNK then
               bindE (ok_or LoggedError (read_file file)) (\<lambda>content.
                 Inr (mode OR S_IFREG, 0, 0, content))
             else if attr_is attr S_IFBLK then
               Inr (mode OR S_IFBLK, ucast (st_major attr), ucast (st_minor attr), [])
             else if attr_is attr S_IFCHR then
               Inr (mode OR S_IFCHR, ucast (st_major attr), ucast (st_minor attr), [])
             else Inl LoggedError) (\<lambda>(mode, rmaj, rmin, content).
      Inr (bt_insert (norm_path path) \<lparr>ce_mode = mode, ce_uid = 0, ce_gid = 0,
             ce_rdevmajor = rmaj, ce_rdevminor = rmin, ce_data = content\<rparr> c))))"

definition mkdir :: "cpio \<Rightarrow> u32 \<Rightarrow> string \<Rightarrow> cpio" where
  "mkdir c mode dir =
     bt_insert (norm_path dir) \<lparr>ce_mode = mode OR S_IFDIR, ce_uid = 0, ce_gid = 0,
       ce_rdevmajor = 0, ce_rdevminor = 0, ce_data = []\<rparr> c"

definition ln :: "cpio \<Rightarrow> string \<Rightarrow> string \<Rightarrow> cpio" where
  "ln c src dst =
     bt_insert (norm_path dst) \<lparr>ce_mode = S_IFLNK, ce_uid = 0, ce_gid = 0,
       ce_rdevmajor = 0, ce_rdevminor = 0, ce_data = norm_path src\<rparr> c"

definition mv :: "cpio \<Rightarrow> string \<Rightarrow> string \<Rightarrow> cpio res" where
  "mv c from_path to_path =
     bindE (ok_or LoggedError (bt_get c (norm_path from_path))) (\<lambda>entry.
       Inr (bt_insert (norm_path to_path) entry (bt_remove (norm_path from_path) c)))"

text \<open>The names \<open>ls\<close> prints, in the order it prints them.\<close>

definition ls_shows :: "string \<Rightarrow> bool \<Rightarrow> string \<Rightarrow> bool" where
  "ls_shows path recursive name =
     (case strip_prefix path (''/'' @ name) of
        None \<Rightarrow> False
      | Some p \<Rightarrow>
          \<not> (p \<noteq> [] \<and> \<not> prefix ''/'' p)
          \<and> \<not> (\<not> recursive \<and> p \<noteq> [] \<and> count_list p (CHR ''/'') > 1))"

definition ls :: "cpio \<Rightarrow> string \<Rightarrow> bool \<Rightarrow> (string \<times> cpio_entry) list" where
  "ls c path recursive =
     (let path = norm_path path;
          path = (if path = [] then path else ''/'' @ path)
      in filter (\<lambda>(name, _). ls_shows path recursive name) c)"

section \<open>Lemmas on the operations\<close>

lemma norm_path_idem: "norm_path (norm_path p) = norm_path p"
proof -
  define cs where "cs = filter (\<lambda>x. x \<noteq> []) (split_on (CHR ''/'') p)"
  have cs: "\<forall>c \<in> set cs. CHR ''/'' \<notin> set c" "filter (\<lambda>x. x \<noteq> []) cs = cs"
    by (auto simp: cs_def dest: split_on_pieces)
  show ?thesis
  proof (cases "cs = []")
    case True
    then show ?thesis by (simp add: norm_path_def cs_def [symmetric])
  next
    case False
    then have "split_on (CHR ''/'') (join_with ''/'' cs) = cs" using cs(1) by (simp add: split_on_join)
    then show ?thesis by (simp add: norm_path_def cs_def [symmetric] cs(2))
  qed
qed

lemma list_all_bt_insert:
  "list_all P m \<Longrightarrow> P (k, v) \<Longrightarrow> list_all P (bt_insert k v m)"
  by (auto simp: bt_insert_def list_all_iff)

lemma length_bt_insert: "bt_inv m \<Longrightarrow> length (bt_insert k v m) \<le> length m + 1"
proof -
  have "length (filter (\<lambda>p. fst p < k) m) + length (filter (\<lambda>p. k < fst p) m) \<le> length m"
    by (induction m) auto
  then show ?thesis by (simp add: bt_insert_def)
qed

definition loaded_inv :: "bytes \<Rightarrow> nat \<Rightarrow> cpio \<Rightarrow> bool" where
  "loaded_inv data pos c \<longleftrightarrow> bt_inv c \<and> list_all (\<lambda>(n, e). name_ok n \<and> entry_ok e) c
     \<and> length c * hdr_sz \<le> pos \<and> length c * hdr_sz \<le> length data + 3"

lemma load_step_inv:
  assumes "load_step data pos c = Inr (Continue pos' c')" "loaded_inv data pos c"
  shows "loaded_inv data pos' c'"
proof -
  note s = load_step_Continue[OF assms(1)]
  show ?thesis
  proof (cases "c' = c")
    case True
    then show ?thesis using s assms(2) by (simp add: loaded_inv_def)
  next
    case False
    then obtain name e where c': "c' = bt_insert name e c" "name_ok name" "entry_ok e"
        "pos' \<le> length data + 3" using s by blast
    have i: "bt_inv c" "length c * hdr_sz \<le> pos" using assms(2) by (auto simp: loaded_inv_def)
    have "length c' * hdr_sz \<le> (length c + 1) * hdr_sz"
      using length_bt_insert[OF i(1)] unfolding c'(1) by (rule mult_le_mono1)
    also have "\<dots> \<le> pos'" using i(2) s by simp
    finally show ?thesis
      using c' assms(2) by (simp add: loaded_inv_def bt_inv_insert list_all_bt_insert)
  qed
qed

lemma load_loop_inv:
  "loaded_inv data pos c \<Longrightarrow> load_loop data pos c = Inr c' \<Longrightarrow> \<exists>pos'. loaded_inv data pos' c'"
proof (induction data pos c rule: load_loop.induct)
  case (1 data pos c)
  show ?case
  proof (cases "pos < length data")
    case True
    note u = 1(3)[unfolded load_loop.simps[of data pos c]]
    from u True show ?thesis
      using 1(1)[OF True] 1(2) load_step_inv[of data pos c]
      by (auto split: sum.splits load_next.splits)
  next
    case False
    then show ?thesis using 1(2,3) by (auto simp: load_loop.simps)
  qed
qed

lemma bt_get_rm:
  assumes "bt_inv c"
  shows "bt_get (rm c path r) k =
    (if k = norm_path path \<or> (r \<and> prefix (norm_path path @ ''/'') k) then None else bt_get c k)"
  using assms by (simp add: rm_def Let_def bt.get_ret bt.get_del bt.inv_del split: option.splits)

lemma and_not_mask:
  fixes w :: "64 word"
  shows "unat (w AND NOT (mask k)) = unat w div 2 ^ k * 2 ^ k"
proof -
  have "w AND NOT (mask k) = push_bit k (drop_bit k w)"
    by (rule bit_eqI) (auto simp: bit_simps not_less)
  moreover have "unat w div 2 ^ k * 2 ^ k < 2 ^ 64"
    using unsigned_less[where ?'a = nat, of w] by (simp add: order_le_less_trans[OF div_times_less_eq_dividend])
  moreover have "unat (push_bit k (drop_bit k w)) = take_bit 64 (push_bit k (drop_bit k (unat w)))"
    using unsigned_less[where ?'a = nat, of w]
    by (simp add: unsigned_push_bit_eq unsigned_drop_bit_eq take_bit_nat_eq_self)
  ultimately show ?thesis
    by (simp only: push_bit_eq_mult [of k "unat w div 2 ^ k"] drop_bit_eq_div [of k "unat w"]
        take_bit_nat_eq_self)
qed

lemma and_not_3: "unat ((w :: 64 word) AND NOT 3) = unat w div 4 * 4"
proof -
  have "(3 :: 64 word) = mask 2" by (simp add: mask_eq_exp_minus_1)
  then show ?thesis using and_not_mask[of w 2] by (simp only:) simp
qed

lemma load_dump:
  assumes "cpio_wf c"
  shows "load_from_data (dump c) = Inr c"
proof -
  obtain bs pos inode where d: "dump_entries c 0 300000 = (bs, pos, inode)"
    by (cases "dump_entries c 0 300000") auto
  then show ?thesis
    using load_loop_dump[of c "[]" 300000 bs pos inode "[]"] assms
    by (simp add: load_from_data_def dump_def bt_extend_rebuild cpio_wf_def)
qed

lemma load_wf:
  assumes "load_from_data data = Inr c" "length data < 2 ^ 32"
  shows "cpio_wf c"
proof -
  have "loaded_inv data 0 []" by (simp add: loaded_inv_def)
  then obtain pos where "loaded_inv data pos c"
    using assms(1) load_loop_inv unfolding load_from_data_def by blast
  then show ?thesis using assms(2) by (simp add: loaded_inv_def cpio_wf_def hdr_sz_def)
qed

lemma load_sorted: "load_from_data data = Inr c \<Longrightarrow> bt_inv c"
  using load_loop_inv[of data 0 "[]" c] by (auto simp: load_from_data_def loaded_inv_def)

section \<open>Properties\<close>

text \<open>
  C1. Writing an archive and reading it back is the identity, for every well-formed archive: names
  in order, valid UTF-8 without NUL, none of them \<open>.\<close>, \<open>..\<close> or the trailer's name, and all numbers
  within the eight hexadecimal digits of the header.
\<close>
theorem cpio_roundtrip: "cpio_wf c \<Longrightarrow> load_from_data (dump c) = Inr c"
  by (rule load_dump)

theorem cpio_roundtrip_witness:
  "load_from_data (dump [(''init'', \<lparr>ce_mode = 0x81E8, ce_uid = 0, ce_gid = 0, ce_rdevmajor = 0,
      ce_rdevminor = 0, ce_data = ''ELF''\<rparr>)])
   = Inr [(''init'', \<lparr>ce_mode = 0x81E8, ce_uid = 0, ce_gid = 0, ce_rdevmajor = 0,
      ce_rdevminor = 0, ce_data = ''ELF''\<rparr>)]"
  by (rule cpio_roundtrip) (simp add: cpio_wf_def bt_inv_def name_ok_def entry_ok_def)

text \<open>
  C14. Whatever bytes the reader accepts (of a file below 4 GiB), the archive it returns is
  well-formed, so that writing and reading it again changes nothing: one pass through the tool
  normalises an archive.
\<close>
theorem cpio_load_normalises:
  assumes "load_from_data data = Inr c" "length data < 2 ^ 32"
  shows "cpio_wf c \<and> load_from_data (dump c) = Inr c"
  using load_wf[OF assms] load_dump by blast

theorem cpio_load_normalises_witness:
  "cpio_wf [(''a'', \<lparr>ce_mode = 0x41ED, ce_uid = 0, ce_gid = 0, ce_rdevmajor = 0,
      ce_rdevminor = 0, ce_data = []\<rparr>)]"
proof -
  let ?c = "[(''a'', \<lparr>ce_mode = 0x41ED, ce_uid = 0, ce_gid = 0, ce_rdevmajor = 0,
      ce_rdevminor = 0, ce_data = []\<rparr>)]"
  have "load_from_data (dump ?c) = Inr ?c"
    by (rule load_dump) (simp add: cpio_wf_def bt_inv_def name_ok_def entry_ok_def)
  moreover have "length (dump ?c) < 2 ^ 32"
    by (simp add: dump_def dump_trailer_def dump_entry_def Let_def header_text_length align_4_def zeros_def)
  ultimately show ?thesis using cpio_load_normalises by blast
qed

text \<open>
  A non-empty file shorter than one header makes the reader panic (the slice of the header is
  out of range) instead of returning an error.
\<close>
theorem cpio_short_file_panics:
  assumes "0 < length data" "length data < hdr_sz"
  shows "load_from_data data = Inl Panic"
  using assms by (simp add: load_from_data_def load_loop.simps[of data 0] load_step_def slice_panics)

theorem cpio_short_file_panics_witness: "load_from_data ''070701'' = Inl Panic"
  using cpio_short_file_panics[of "''070701''"] by (simp add: hdr_sz_def)



text \<open>
  \<open>rm\<close> removes the named entry and, when recursive, exactly the entries below it: a
  sibling whose name merely begins with the same characters stays.
\<close>
theorem cpio_rm_removes_subtree:
  assumes "bt_inv c"
  shows "bt_get (rm c path recursive) k =
    (if k = norm_path path \<or> recursive \<and> prefix (norm_path path @ ''/'') k then None else bt_get c k)"
  using assms by (rule bt_get_rm)

theorem cpio_rm_removes_subtree_witness:
  "bt_get (rm (mkdir (mkdir [] 0 ''sbin'') 0 ''sbin2'') ''/sbin/'' True) ''sbin2''
     = Some \<lparr>ce_mode = 0x4000, ce_uid = 0, ce_gid = 0, ce_rdevmajor = 0, ce_rdevminor = 0, ce_data = []\<rparr>"
  using cpio_rm_removes_subtree[of "mkdir (mkdir [] 0 ''sbin'') 0 ''sbin2''" "''/sbin/''" True "''sbin2''"]
  by (simp add: mkdir_def norm_path_def bt_get_insert bt_inv_insert S_IFDIR_def)

text \<open>
  \<open>mv\<close> fails exactly when the source does not exist; otherwise the entry is found under
  the new name with its content, no longer under the old one (unless both are the same), and nothing
  else changed.
\<close>
theorem cpio_mv_spec:
  assumes "bt_inv c"
  shows "case bt_get c (norm_path a) of
      None \<Rightarrow> mv c a b = Inl LoggedError
    | Some e \<Rightarrow> \<exists>c'. mv c a b = Inr c' \<and> bt_get c' = (bt_get c)(norm_path a := None, norm_path b \<mapsto> e)"
  using bt.get_move[OF assms] by (simp add: mv_def split: option.splits)

theorem cpio_mv_spec_witness:
  "\<exists>c'. mv (mkdir [] 0 ''a'') ''/a'' ''b/'' = Inr c' \<and> bt_get c' ''a'' = None"
  using cpio_mv_spec[of "mkdir [] 0 ''a''" "''/a''" "''b/''"]
  by (auto simp: mkdir_def norm_path_def bt_get_insert bt_inv_insert)

text \<open>
  The machine computation of \<open>align_4\<close>, an addition and a mask on 64 bits, is the least
  multiple of four that is not below its argument, as long as the argument is not within three of the
  largest 64-bit number.
\<close>
theorem align_4_machine:
  assumes "x + 3 < 2 ^ 64"
  shows "unat (align_4_usize (of_nat x)) = align_4 x"
proof -
  have "(of_nat x + 3 :: 64 word) = of_nat (x + 3)" by simp
  moreover have "unat (of_nat (x + 3) :: 64 word) = x + 3"
    using assms by (simp only: unsigned_of_nat) (simp add: take_bit_nat_eq_self)
  ultimately show ?thesis by (simp only: align_4_usize_def align_4_def and_not_3)
qed

theorem align_4_machine_witness: "unat (align_4_usize (of_nat 113)) = align_4 113"
  using align_4_machine[of 113] by simp

end
