(* ===== verification/Patch.thy ===== *)
theory Patch
  imports Prelude
begin

text \<open>
  boot/patch.rs: removal of the verity and encryption flags from fstab files, and the byte patcher.
  \<open>remove_pattern\<close> works in place on the buffer with a read and a write index and is modelled so;
  \<open>stripped\<close> is its specification on lists.  The loop is a partial function (a matcher that
  matches the empty string would make it run forever); the properties show that it returns.
\<close>

section \<open>The matchers\<close>

definition match_patterns :: "bytes list \<Rightarrow> bytes \<Rightarrow> nat option" where
  "match_patterns pats buf =
     (let len = (if hd buf = CHR '','' then 1 else 0);
          b = drop len buf;
          found = (if b = [] then None else find (\<lambda>p. prefix p b) pats)
      in case found of
           None \<Rightarrow> None
         | Some p \<Rightarrow>
             let len = len + length p;
                 b = drop len buf
             in Some (if b \<noteq> [] \<and> hd b = CHR ''=''
                      then len + length (takeWhile (\<lambda>c. c \<notin> {CHR '' '', CHR 0x0A, NUL}) b)
                      else len))"

definition verity_patterns :: "bytes list" where
  "verity_patterns =
     [''verifyatboot'', ''verify'', ''avb_keys'', ''avb'', ''support_scfs'', ''fsverity'']"

definition encryption_patterns :: "bytes list" where
  "encryption_patterns = [''forceencrypt'', ''forcefdeorfbe'', ''fileencryption'']"

section \<open>The in-place loop\<close>

partial_function (option) remove_loop ::
    "(bytes \<Rightarrow> nat option) \<Rightarrow> bytes \<Rightarrow> nat \<Rightarrow> nat \<Rightarrow> nat \<Rightarrow> (bytes \<times> nat \<times> nat) option" where
  "remove_loop matcher buf write read sz =
     (if read < length buf then
        (case matcher (drop read buf) of
           Some len \<Rightarrow> remove_loop matcher buf write (read + len) (sz - len)
         | None \<Rightarrow> remove_loop matcher (buf[write := buf ! read]) (write + 1) (read + 1) sz)
      else Some (buf, write, sz))"

definition remove_pattern :: "(bytes \<Rightarrow> nat option) \<Rightarrow> bytes \<Rightarrow> (bytes \<times> nat) option" where
  "remove_pattern matcher buf =
     (case remove_loop matcher buf 0 0 (length buf) of
        None \<Rightarrow> None
      | Some (buf, write, sz) \<Rightarrow>
          Some (take write buf @ replicate (length buf - write) NUL, sz))"

definition patch_verity :: "bytes \<Rightarrow> (bytes \<times> nat) option" where
  "patch_verity buf = remove_pattern (match_patterns verity_patterns) buf"

definition patch_encryption :: "bytes \<Rightarrow> (bytes \<times> nat) option" where
  "patch_encryption buf = remove_pattern (match_patterns encryption_patterns) buf"

section \<open>Byte patches\<close>

definition to_ascii_uppercase :: "u8 \<Rightarrow> u8" where
  "to_ascii_uppercase b = (if 97 \<le> b \<and> b \<le> 122 then b - 32 else b)"

definition nibble :: "byte \<Rightarrow> u8" where
  "nibble c = (let n = to_ascii_uppercase (u8_of c) - 48 in if n > 9 then n - 7 else n)"

fun hex2byte :: "bytes \<Rightarrow> bytes" where
  "hex2byte (a # b # hex) = byte_of (push_bit 4 (nibble a) OR nibble b) # hex2byte hex"
| "hex2byte _ = []"

text \<open>\<open>hexpatch\<close>; the in-place replacement \<open>mut_u8_patch\<close> is C++ and a parameter.\<close>

definition hexpatch :: "(bytes \<Rightarrow> bytes \<Rightarrow> bytes \<Rightarrow> bytes \<times> nat list) \<Rightarrow>
    bytes option \<Rightarrow> bytes \<Rightarrow> bytes \<Rightarrow> bytes option \<times> bool" where
  "hexpatch mut_u8_patch file from_hex to_hex =
     (case file of
        None \<Rightarrow> (None, False)
      | Some mem \<Rightarrow>
          let (mem, v) = mut_u8_patch mem (hex2byte from_hex) (hex2byte to_hex)
          in (Some mem, v \<noteq> []))"

section \<open>Specification of the removal\<close>

function stripped :: "(bytes \<Rightarrow> nat option) \<Rightarrow> bytes \<Rightarrow> bytes" where
  "stripped matcher [] = []"
| "stripped matcher (x # xs) =
     (case matcher (x # xs) of
        Some n \<Rightarrow> stripped matcher (drop (n - 1) xs)
      | None \<Rightarrow> x # stripped matcher xs)"
  by pat_completeness auto
termination by (relation "measure (\<lambda>(_, xs). length xs)") auto

text \<open>A matcher that consumes something and never runs past the end.\<close>

definition progressive :: "(bytes \<Rightarrow> nat option) \<Rightarrow> bool" where
  "progressive matcher \<longleftrightarrow> (\<forall>b n. b \<noteq> [] \<longrightarrow> matcher b = Some n \<longrightarrow> 0 < n \<and> n \<le> length b)"

lemma match_patterns_progressive:
  assumes "[] \<notin> set pats"
  shows "progressive (match_patterns pats)"
  unfolding progressive_def
proof (intro allI impI)
  fix b n assume b: "b \<noteq> []" "match_patterns pats b = Some n"
  define k where "k = (if hd b = CHR '','' then 1 else 0 :: nat)"
  obtain p where p: "find (\<lambda>p. prefix p (drop k b)) pats = Some p"
    and n: "n = (let c = drop (k + length p) b in if c \<noteq> [] \<and> hd c = CHR ''=''
        then k + length p + length (takeWhile (\<lambda>c. c \<notin> {CHR '' '', CHR 0x0A, NUL}) c) else k + length p)"
    using b(2) by (auto simp: match_patterns_def Let_def k_def split: option.split_asm if_split_asm)
  have "p \<in> set pats" "prefix p (drop k b)" using p by (auto simp: find_Some_iff)
  then have "p \<noteq> []" "length p \<le> length b - k"
    using assms prefix_length_le[of p "drop k b"] by auto
  moreover have "k \<le> length b" using b(1) by (cases b) (auto simp: k_def)
  moreover have "length (takeWhile P (drop (k + length p) b)) \<le> length b - (k + length p)" for P
    using length_takeWhile_le[of P "drop (k + length p) b"] by simp
  ultimately show "0 < n \<and> n \<le> length b"
    unfolding n Let_def by (auto split: if_splits simp: le_diff_conv2 Nat.le_diff_conv2 add.commute)
qed

lemma remove_loop_spec:
  assumes "progressive matcher" "wr \<le> rd" "rd \<le> length buf" "length buf - rd \<le> sz"
  shows "\<exists>buf'. remove_loop matcher buf wr rd sz
      = Some (buf', wr + length (stripped matcher (drop rd buf)),
              sz - (length buf - rd - length (stripped matcher (drop rd buf))))
    \<and> length buf' = length buf
    \<and> take (wr + length (stripped matcher (drop rd buf))) buf' = take wr buf @ stripped matcher (drop rd buf)
    \<and> length (stripped matcher (drop rd buf)) \<le> length buf - rd"
  using assms(2-)
proof (induction "length buf - rd" arbitrary: buf wr rd sz rule: less_induct)
  case less
  show ?case
  proof (cases "rd < length buf")
    case False
    then show ?thesis using less.prems by (subst remove_loop.simps) simp
  next
    case True
    then obtain x xs where d: "drop rd buf = x # xs" "x = buf ! rd" "xs = drop (Suc rd) buf"
      by (simp add: Cons_nth_drop_Suc [symmetric])
    show ?thesis
    proof (cases "matcher (drop rd buf)")
      case None
      define b where "b = buf[wr := buf ! rd]"
      have e: "drop (Suc rd) b = xs" using less.prems by (simp add: b_def d(3))
      have "take (Suc wr) b = take wr buf @ [x]"
        using less.prems True by (simp add: b_def d(2) take_Suc_conv_app_nth)
      moreover have "length b - Suc rd < length buf - rd" "length b = length buf"
        using True by (simp_all add: b_def)
      moreover note less.hyps[of b "Suc rd" "Suc wr" sz]
      moreover have "remove_loop matcher buf wr rd sz = remove_loop matcher b (Suc wr) (Suc rd) sz"
        using None True by (subst remove_loop.simps) (simp add: b_def)
      moreover have "stripped matcher (drop rd buf) = x # stripped matcher xs"
        using None by (simp add: d(1))
      ultimately show ?thesis
        using less.prems True by (auto simp: e)
    next
      case (Some n)
      then have n: "0 < n" "n \<le> length buf - rd"
        using assms(1) True unfolding progressive_def by (metis d(1) length_drop list.distinct(1))+
      have e: "stripped matcher (drop rd buf) = stripped matcher (drop (rd + n) buf)"
        using Some n by (simp add: d(1)) (simp add: d(3) add.commute)
      define l where "l = length (stripped matcher (drop (rd + n) buf))"
      have "length buf - (rd + n) < length buf - rd" "wr \<le> rd + n" "rd + n \<le> length buf"
        "length buf - (rd + n) \<le> sz - n" using n less.prems True by linarith+
      from less.hyps[OF this] obtain buf' where b:
        "remove_loop matcher buf wr (rd + n) (sz - n) = Some (buf', wr + l, sz - n - (length buf - (rd + n) - l))"
        "length buf' = length buf" "take (wr + l) buf' = take wr buf @ stripped matcher (drop (rd + n) buf)"
        "l \<le> length buf - (rd + n)" unfolding l_def by blast
      moreover have "remove_loop matcher buf wr rd sz = remove_loop matcher buf wr (rd + n) (sz - n)"
        using Some True by (subst remove_loop.simps) simp
      moreover have "sz - n - (length buf - (rd + n) - l) = sz - (length buf - rd - l)"
        using b(4) n less.prems True by linarith
      ultimately show ?thesis using n by (simp add: e l_def)
    qed
  qed
qed

lemma stripped_subseq: "subseq (stripped matcher xs) xs"
proof (induction matcher xs rule: stripped.induct)
  case (2 matcher x xs)
  show ?case
  proof (cases "matcher (x # xs)")
    case None
    then show ?thesis using 2 by simp
  next
    case (Some n)
    have "subseq (stripped matcher (drop (n - 1) xs)) (drop (n - 1) xs)" using 2 Some by simp
    moreover have "subseq (drop (n - 1) xs) (x # xs)"
      by (metis append_Cons append_take_drop_id list_emb_append2 subseq_order.order_refl)
    ultimately have "subseq (stripped matcher (drop (n - 1) xs)) (x # xs)" by (rule subseq_order.order_trans)
    then show ?thesis using Some by simp
  qed
qed simp

lemma stripped_untouched:
  "\<forall>i < length xs. matcher (drop i xs) = None \<Longrightarrow> stripped matcher xs = xs"
proof (induction xs)
  case (Cons x xs)
  from Cons.prems have "matcher (x # xs) = None" by (metis drop0 length_greater_0_conv list.distinct(1))
  moreover have "\<forall>i < length xs. matcher (drop i xs) = None"
    using Cons.prems by (metis Suc_less_eq drop_Suc_Cons length_Cons)
  ultimately show ?case using Cons.IH by simp
qed simp

locale pattern_matcher =
  fixes matcher :: "bytes \<Rightarrow> nat option"
  assumes progress: "b \<noteq> [] \<Longrightarrow> matcher b = Some n \<Longrightarrow> 0 < n \<and> n \<le> length b"
begin

lemma removes:
  "remove_pattern matcher buf =
     Some (stripped matcher buf @ replicate (length buf - length (stripped matcher buf)) NUL,
           length (stripped matcher buf))"
proof -
  have "progressive matcher" using progress by (simp add: progressive_def)
  from remove_loop_spec[OF this, of 0 0 buf "length buf"] obtain buf' where
    b: "remove_loop matcher buf 0 0 (length buf) =
       Some (buf', length (stripped matcher buf), length buf - (length buf - length (stripped matcher buf)))"
      "length buf' = length buf" "take (length (stripped matcher buf)) buf' = stripped matcher buf"
      "length (stripped matcher buf) \<le> length buf" by auto
  then show ?thesis by (simp add: remove_pattern_def)
qed

end

interpretation verity: pattern_matcher "match_patterns verity_patterns"
  using match_patterns_progressive[of verity_patterns]
  by unfold_locales (auto simp: progressive_def verity_patterns_def)

interpretation encryption: pattern_matcher "match_patterns encryption_patterns"
  using match_patterns_progressive[of encryption_patterns]
  by unfold_locales (auto simp: progressive_def encryption_patterns_def)

lemma patch_verity_eq:
  "patch_verity buf = (let s = stripped (match_patterns verity_patterns) buf in
     Some (s @ replicate (length buf - length s) NUL, length s))"
  by (simp add: patch_verity_def verity.removes Let_def)

lemma patch_encryption_eq:
  "patch_encryption buf = (let s = stripped (match_patterns encryption_patterns) buf in
     Some (s @ replicate (length buf - length s) NUL, length s))"
  by (simp add: patch_encryption_def encryption.removes Let_def)

text \<open>The lower-case hexadecimal text of a byte string.\<close>

definition byte2hex :: "bytes \<Rightarrow> string" where
  "byte2hex bs = concat (map (\<lambda>b. [hex_char (ord b div 16), hex_char (ord b mod 16)]) bs)"

lemma nibble_hex_char:
  assumes "n < 16" shows "nibble (hex_char n) = of_nat n"
proof -
  have "\<forall>k \<in> set [0..<16]. nibble (hex_char k) = of_nat k"
    by (simp add: upt_rec nibble_def hex_char_def to_ascii_uppercase_def u8_of_def of_char_of Let_def)
  then show ?thesis using assms by simp
qed

lemma or_nibbles:
  assumes "l < 16"
  shows "push_bit 4 (of_nat h) OR of_nat l = (of_nat (16 * h + l) :: u8)"
proof -
  have no: "\<not> bit (of_nat l :: u8) n" if "4 \<le> n" for n
  proof -
    have "l < 2 ^ n" using assms power_increasing[OF that, of "2::nat"] by simp
    then have "\<not> bit l n" by (simp add: bit_iff_odd)
    then show ?thesis by (simp add: bit_simps)
  qed
  have "push_bit 4 (of_nat h) + of_nat l = (push_bit 4 (of_nat h) OR of_nat l :: u8)"
    by (rule disjunctive_add) (use no in \<open>auto simp: bit_push_bit_iff\<close>)
  then show ?thesis by (simp add: push_bit_eq_mult mult.commute)
qed
lemma nibbles_byte: "byte_of (push_bit 4 (of_nat (ord b div 16)) OR of_nat (ord b mod 16)) = b"
  by (simp add: or_nibbles u8_of_def [symmetric])

section \<open>Properties\<close>

text \<open>
  C32. \<open>patch_verity\<close> always returns.  The buffer afterwards holds the input with every match of a
  verity pattern removed, left to right, and zeros up to its old length; the returned size is the
  length of what is left, and what is left is a subsequence of the input.
\<close>
theorem patch_verity_strips:
  "\<exists>s. s = stripped (match_patterns verity_patterns) buf \<and> subseq s buf
     \<and> patch_verity buf = Some (s @ replicate (length buf - length s) NUL, length s)"
  by (simp add: patch_verity_eq stripped_subseq Let_def)

text \<open>
  The same for \<open>patch_encryption\<close>.
\<close>
theorem patch_encryption_strips:
  "\<exists>s. s = stripped (match_patterns encryption_patterns) buf \<and> subseq s buf
     \<and> patch_encryption buf = Some (s @ replicate (length buf - length s) NUL, length s)"
  by (simp add: patch_encryption_eq stripped_subseq Let_def)

text \<open>
  Reading back the hexadecimal text of any byte string with \<open>hex2byte\<close> returns the bytes.
\<close>
theorem hex2byte_roundtrip: "hex2byte (byte2hex bs) = bs"
proof (induction bs)
  case (Cons b bs)
  have "ord b div 16 < 16" "ord b mod 16 < 16"
    using nat_of_char_less_256[of b] by linarith+
  then show ?case using Cons nibbles_byte[of b] by (simp add: byte2hex_def nibble_hex_char)
qed (simp add: byte2hex_def)

end
