(* ===== verification/Ramdisk.thy ===== *)
theory Ramdisk
  imports Cpio Patch
begin

text \<open>
  boot/cpio.rs, second part: the ramdisk operations \<open>patch\<close>, \<open>test\<close>, \<open>backup\<close> and \<open>restore\<close> of
  an archive.  The XZ codec is a third-party library and appears as two parameters, \<open>xz_enc\<close> and
  \<open>xz_dec\<close>.  A \<open>HashMap\<close> of backups is only ever used to extend the archive, so it is kept as a
  sorted map here.
\<close>

section \<open>Patching and testing\<close>

definition MAGISK_PATCHED :: int where "MAGISK_PATCHED = 1"
definition UNSUPPORTED_CPIO :: int where "UNSUPPORTED_CPIO = 2"

definition patch_data :: "(bytes \<Rightarrow> (bytes \<times> nat) option) \<Rightarrow> bytes \<Rightarrow> bytes option" where
  "patch_data f data =
     (case f data of
        None \<Rightarrow> None
      | Some (buf, len) \<Rightarrow>
          Some (if len \<noteq> length data then take len buf @ zeros (len - length buf) else buf))"

definition is_fstab :: "bool \<Rightarrow> bool \<Rightarrow> string \<Rightarrow> cpio_entry \<Rightarrow> bool" where
  "is_fstab keep_verity keep_force_encrypt name entry \<longleftrightarrow>
     (\<not> keep_verity \<or> \<not> keep_force_encrypt)
     \<and> ce_mode entry AND S_IFMT = S_IFREG
     \<and> \<not> prefix ''.backup'' name
     \<and> \<not> prefix ''twrp'' name
     \<and> \<not> prefix ''recovery'' name
     \<and> prefix ''fstab'' name"

text \<open>The closure given to \<open>retain\<close>: the entry as it leaves it, and whether it is kept.\<close>

definition patch_entry :: "bool \<Rightarrow> bool \<Rightarrow> string \<Rightarrow> cpio_entry \<Rightarrow> (cpio_entry \<times> bool) option" where
  "patch_entry keep_verity keep_force_encrypt name entry =
     (let fstab = is_fstab keep_verity keep_force_encrypt name entry in
      case (if \<not> keep_verity \<and> fstab then patch_data patch_verity (ce_data entry)
            else Some (ce_data entry)) of
        None \<Rightarrow> None
      | Some data \<Rightarrow>
          if \<not> keep_verity \<and> \<not> fstab \<and> name = ''verity_key'' then Some (entry, False)
          else
            (case (if \<not> keep_force_encrypt \<and> fstab then patch_data patch_encryption data
                   else Some data) of
               None \<Rightarrow> None
             | Some data \<Rightarrow> Some (entry\<lparr>ce_data := data\<rparr>, True)))"

fun patch_entries :: "bool \<Rightarrow> bool \<Rightarrow> cpio \<Rightarrow> cpio option" where
  "patch_entries kv kf [] = Some []"
| "patch_entries kv kf ((name, entry) # es) =
     (case patch_entry kv kf name entry of
        None \<Rightarrow> None
      | Some (entry, keep) \<Rightarrow>
          map_option (\<lambda>r. if keep then (name, entry) # r else r) (patch_entries kv kf es))"

definition check_env :: "(string \<Rightarrow> string option) \<Rightarrow> string \<Rightarrow> bool" where
  "check_env env name \<longleftrightarrow> env name = Some ''true''"

definition patch :: "(string \<Rightarrow> string option) \<Rightarrow> cpio \<Rightarrow> cpio option" where
  "patch env c =
     patch_entries (check_env env ''KEEPVERITY'') (check_env env ''KEEPFORCEENCRYPT'') c"

definition test :: "cpio \<Rightarrow> int" where
  "test c =
     (if list_ex (exists_entry c) [''sbin/launch_daemonsu.sh'', ''sbin/su'', ''init.xposed.rc'',
            ''boot/sbin/launch_daemonsu.sh'']
      then UNSUPPORTED_CPIO
      else if list_ex (exists_entry c) [''.backup/.magisk'', ''init.magisk.rc'',
            ''overlay/init.magisk.rc'']
      then MAGISK_PATCHED
      else 0)"

section \<open>Backup and restore\<close>

definition compress :: "(bytes \<Rightarrow> bytes option) \<Rightarrow> cpio_entry \<Rightarrow> cpio_entry option" where
  "compress xz_enc e =
     (if ce_mode e AND S_IFMT \<noteq> S_IFREG then None
      else map_option (\<lambda>d. e\<lparr>ce_data := d\<rparr>) (xz_enc (ce_data e)))"

definition decompress :: "(bytes \<Rightarrow> bytes option) \<Rightarrow> cpio_entry \<Rightarrow> cpio_entry option" where
  "decompress xz_dec e =
     (if ce_mode e AND S_IFMT \<noteq> S_IFREG then None
      else map_option (\<lambda>d. e\<lparr>ce_data := d\<rparr>) (xz_dec (ce_data e)))"

definition restore_name :: "(bytes \<Rightarrow> bytes option) \<Rightarrow> string \<times> cpio_entry \<Rightarrow> string \<times> cpio_entry" where
  "restore_name xz_dec = (\<lambda>(name, entry).
     case (if ends_with name ''.xz'' then decompress xz_dec entry else None) of
       Some entry \<Rightarrow> (take (length name - 3 - 8) (drop 8 name), entry)
     | None \<Rightarrow> (drop 8 name, entry))"

definition restore_one :: "(bytes \<Rightarrow> bytes option) \<Rightarrow> string \<times> cpio_entry \<Rightarrow> cpio \<times> string \<Rightarrow> cpio \<times> string" where
  "restore_one xz_dec = (\<lambda>(name, entry) (backups, rm_list).
     if name = ''.backup/.rmlist'' then
       (backups, if utf8_valid (ce_data entry) then rm_list @ ce_data entry else rm_list)
     else if name \<noteq> ''.backup/.magisk'' then
       (let (new_name, entry) = restore_name xz_dec (name, entry)
        in (bt_insert new_name entry backups, rm_list))
     else (backups, rm_list))"

definition restore :: "(bytes \<Rightarrow> bytes option) \<Rightarrow> cpio \<Rightarrow> cpio" where
  "restore xz_dec c =
     (let extracted = filter (\<lambda>p. prefix ''.backup/'' (fst p)) c;
          c = filter (\<lambda>p. \<not> prefix ''.backup/'' (fst p)) c;
          (backups, rm_list) = fold (restore_one xz_dec) extracted ([], []);
          c = rm c ''.backup'' False
      in if rm_list = [] \<and> backups = [] then []
         else
           let c = fold (\<lambda>r c. if r \<noteq> [] then rm c r False else c) (split_on NUL rm_list) c
           in bt_extend backups c)"

datatype backup_action = Backup string cpio_entry | Record string | Noop

fun merge_actions :: "cpio \<Rightarrow> cpio \<Rightarrow> backup_action list" where
  "merge_actions ((l, le) # left) ((r, re) # right) =
     (if l < r then Backup l le # merge_actions left ((r, re) # right)
      else if r < l then Record r # merge_actions ((l, le) # left) right
      else (if ce_data re \<noteq> ce_data le then Backup l le else Noop) # merge_actions left right)"
| "merge_actions ((l, le) # left) [] = Backup l le # merge_actions left []"
| "merge_actions [] ((r, _) # right) = Record r # merge_actions [] right"
| "merge_actions [] [] = []"

definition backup_entry :: "(bytes \<Rightarrow> bytes option) \<Rightarrow> bool \<Rightarrow> string \<Rightarrow> cpio_entry \<Rightarrow> string \<times> cpio_entry" where
  "backup_entry xz_enc skip_compress name entry =
     (case (if \<not> skip_compress then compress xz_enc entry else None) of
        Some entry \<Rightarrow> (''.backup/'' @ name @ ''.xz'', entry)
      | None \<Rightarrow> (''.backup/'' @ name, entry))"

fun backup_step :: "(bytes \<Rightarrow> bytes option) \<Rightarrow> bool \<Rightarrow> backup_action \<Rightarrow> cpio \<times> string \<Rightarrow> cpio \<times> string" where
  "backup_step xz_enc skip (Backup name entry) (backups, rm_list) =
     (let (b, entry) = backup_entry xz_enc skip name entry in (bt_insert b entry backups, rm_list))"
| "backup_step xz_enc skip (Record name) (backups, rm_list) = (backups, rm_list @ name @ [NUL])"
| "backup_step xz_enc skip Noop (backups, rm_list) = (backups, rm_list)"

definition plain_entry :: "u32 \<Rightarrow> bytes \<Rightarrow> cpio_entry" where
  "plain_entry mode data = \<lparr>ce_mode = mode, ce_uid = 0, ce_gid = 0, ce_rdevmajor = 0,
     ce_rdevminor = 0, ce_data = data\<rparr>"

definition backup_from :: "(bytes \<Rightarrow> bytes option) \<Rightarrow> bool \<Rightarrow> cpio \<Rightarrow> cpio \<Rightarrow> cpio" where
  "backup_from xz_enc skip_compress c o' =
     (let backups = bt_insert ''.backup'' (plain_entry S_IFDIR []) [];
          o' = rm o' ''.backup'' True;
          c = rm c ''.backup'' True;
          (backups, rm_list) = fold (backup_step xz_enc skip_compress) (merge_actions o' c) (backups, []);
          backups = (if rm_list \<noteq> []
                     then bt_insert ''.backup/.rmlist'' (plain_entry S_IFREG rm_list) backups
                     else backups)
      in bt_extend backups c)"

definition backup :: "(bytes \<Rightarrow> bytes option) \<Rightarrow> bytes option \<Rightarrow> bool \<Rightarrow> cpio \<Rightarrow> cpio res" where
  "backup xz_enc origin skip_compress c =
     bindE (ok_or LoggedError origin) (\<lambda>data.
     bindE (load_from_data data) (\<lambda>o'.
     Inr (backup_from xz_enc skip_compress c o')))"

section \<open>The merge\<close>

fun backups_of :: "backup_action list \<Rightarrow> cpio" where
  "backups_of [] = []"
| "backups_of (Backup n e # as) = (n, e) # backups_of as"
| "backups_of (_ # as) = backups_of as"

fun records_of :: "backup_action list \<Rightarrow> string list" where
  "records_of [] = []"
| "records_of (Record n # as) = n # records_of as"
| "records_of (_ # as) = records_of as"

text \<open>The entries of the origin that the archive lost or changed, and the names it added.\<close>

definition changed :: "cpio \<Rightarrow> cpio \<Rightarrow> cpio" where
  "changed o' c = filter (\<lambda>(n, e). map_option ce_data (bt_get c n) \<noteq> Some (ce_data e)) o'"

definition added :: "cpio \<Rightarrow> cpio \<Rightarrow> string list" where
  "added o' c = filter (\<lambda>n. bt_get o' n = None) (map fst c)"

lemma bt_get_Cons: "bt_get ((k, v) # m) n = (if n = k then Some v else bt_get m n)"
  by (simp add: bt_get_def)

lemma bt_get_less_None: "\<forall>q \<in> set m. k < fst q \<Longrightarrow> bt_get m k = None"
  by (auto simp: bt_get_def map_of_eq_None_iff)

lemma bt_get_less_None': "\<forall>x \<in> set m. k < fst x \<Longrightarrow> k' < k \<Longrightarrow> bt_get m k' = None"
  by (rule bt_get_less_None) (meson less_trans)

lemma changed_skip: "\<forall>p \<in> set o'. r < fst p \<Longrightarrow> changed o' ((r, re) # c) = changed o' c"
  unfolding changed_def by (rule filter_cong) (auto simp: bt_get_Cons split: if_splits)

lemma added_skip: "\<forall>p \<in> set c. l < fst p \<Longrightarrow> added ((l, le) # o') c = added o' c"
  unfolding added_def by (rule filter_cong) (auto simp: bt_get_Cons)

lemma merge_spec:
  "bt_inv o' \<Longrightarrow> bt_inv c \<Longrightarrow>
     backups_of (merge_actions o' c) = changed o' c \<and> records_of (merge_actions o' c) = added o' c"
proof (induction o' c rule: merge_actions.induct)
  case (1 l le left r re right)
  have inv: "bt_inv left" "bt_inv right" "\<forall>p \<in> set left. l < fst p" "\<forall>p \<in> set right. r < fst p"
    using "1.prems" by (auto simp: bt_inv_Cons)
  consider "l < r" | "r < l" | "l = r" by fastforce
  then show ?case
  proof cases
    case 1
    have n: "bt_get ((r, re) # right) l = None"
      using 1 inv(4) by (intro bt_get_less_None) auto
    have "added ((l, le) # left) ((r, re) # right) = added left ((r, re) # right)"
      using 1 inv(4) by (intro added_skip) auto
    moreover have "changed ((l, le) # left) ((r, re) # right) = (l, le) # changed left ((r, re) # right)"
      by (simp add: changed_def n)
    ultimately show ?thesis using "1.IH"(1)[OF 1 inv(1) "1.prems"(2)] 1 by simp
  next
    case 2
    have n: "bt_get ((l, le) # left) r = None"
      using 2 inv(3) by (intro bt_get_less_None) auto
    have "changed ((l, le) # left) ((r, re) # right) = changed ((l, le) # left) right"
      using 2 inv(3) by (intro changed_skip) auto
    moreover have "added ((l, le) # left) ((r, re) # right) = r # added ((l, le) # left) right"
      by (simp add: added_def n)
    moreover have "\<not> l < r" using 2 by simp
    ultimately show ?thesis using "1.IH"(2)[OF _ 2 "1.prems"(1) inv(2)] 2 by simp
  next
    case 3
    have "changed left ((r, re) # right) = changed left right" "added ((l, le) # left) right = added left right"
      using 3 inv(3,4) by (auto intro: changed_skip added_skip)
    then have "changed ((l, le) # left) ((r, re) # right) =
        (if ce_data re \<noteq> ce_data le then (l, le) # changed left right else changed left right)"
      "added ((l, le) # left) ((r, re) # right) = added left right"
      using 3 by (auto simp: changed_def added_def bt_get_Cons)
    then show ?thesis using "1.IH"(3) inv 3 by simp
  qed
qed (auto simp: changed_def added_def bt_get_def bt_inv_Cons)

section \<open>What a backup holds\<close>

lemma fold_backup_step:
  "fold (backup_step xz skip) as (b, r) =
     (bt_extend (map (\<lambda>(n, e). backup_entry xz skip n e) (backups_of as)) b,
      r @ concat (map (\<lambda>n. n @ [NUL]) (records_of as)))"
  by (induction as arbitrary: b r rule: backups_of.induct)
     (auto simp: bt_extend_def split: prod.splits)

text \<open>
  The names a restore can tell apart: the name of a backed up file does not end in \<open>.xz\<close> and is not
  one of the two reserved names.
\<close>

definition plain_name :: "string \<Rightarrow> bool" where
  "plain_name n \<longleftrightarrow> \<not> ends_with n ''.xz'' \<and> n \<noteq> ''.rmlist'' \<and> n \<noteq> ''.magisk''"

definition xz_codec :: "(bytes \<Rightarrow> bytes option) \<Rightarrow> (bytes \<Rightarrow> bytes option) \<Rightarrow> bool" where
  "xz_codec xz_enc xz_dec \<longleftrightarrow> (\<forall>d z. xz_enc d = Some z \<longrightarrow> xz_dec z = Some d)"

lemma ends_with_append [simp]: "ends_with (xs @ ys) ys"
  by (simp add: ends_with_def suffix_def)

lemma ends_with_backup:
  assumes "\<not> ends_with n ''.xz''"
  shows "\<not> ends_with (''.backup/'' @ n) ''.xz''"
proof
  assume "ends_with (''.backup/'' @ n) ''.xz''"
  then have s: "suffix ''.xz'' (''.backup/'' @ n)" by (simp add: ends_with_def)
  show False
  proof (cases "3 \<le> length n")
    case True
    then have "suffix ''.xz'' n"
      using suffix_length_suffix[OF s, of n] by (simp add: suffix_def)
    then show False using assms by (simp add: ends_with_def)
  next
    case False
    then consider "n = []" | a where "n = [a]" | a b where "n = [a, b]"
      by (cases n; cases "tl n"; cases "tl (tl n)") auto
    then show False using s by cases (auto simp: suffix_def append_eq_Cons_conv Cons_eq_append_conv)
  qed
qed

lemma restore_backup_name:
  assumes "plain_name n" "xz_codec enc dec"
  shows "restore_name dec (backup_entry enc skip n e) = (n, e)"
proof (cases "if \<not> skip then compress enc e else None")
  case None
  then show ?thesis
    using ends_with_backup[of n] assms(1) by (simp add: backup_entry_def restore_name_def plain_name_def)
next
  case (Some e')
  then have c: "compress enc e = Some e'" and sk: "\<not> skip" by (auto split: if_splits)
  then obtain z where z: "enc (ce_data e) = Some z" "e' = e\<lparr>ce_data := z\<rparr>"
      "ce_mode e AND S_IFMT = S_IFREG"
    by (auto simp: compress_def split: if_splits)
  moreover have "dec z = Some (ce_data e)" using z(1) assms(2) by (simp add: xz_codec_def)
  ultimately have "decompress dec e' = Some e" by (simp add: decompress_def)
  moreover have "ends_with (''.backup/'' @ n @ ''.xz'') ''.xz''"
    using ends_with_append[of "''.backup/'' @ n" "''.xz''"] by simp
  ultimately show ?thesis using sk c by (simp add: backup_entry_def restore_name_def)
qed

lemma backup_entry_key:
  "plain_name n \<Longrightarrow> prefix ''.backup/'' (fst (backup_entry enc skip n e))
     \<and> fst (backup_entry enc skip n e) \<noteq> ''.backup/.rmlist'' \<and> fst (backup_entry enc skip n e) \<noteq> ''.backup/.magisk''"
  by (auto simp: backup_entry_def plain_name_def split: option.splits dest!: arg_cong[of _ _ rev])

lemma backup_entry_key_inj:
  "fst (backup_entry enc skip n e) = fst (backup_entry enc skip m f) \<Longrightarrow> plain_name n \<Longrightarrow> plain_name m \<Longrightarrow> n = m"
  by (auto simp: backup_entry_def plain_name_def split: option.splits)

abbreviation encoded :: "(bytes \<Rightarrow> bytes option) \<Rightarrow> bool \<Rightarrow> cpio \<Rightarrow> cpio" where
  "encoded enc skip b \<equiv> map (\<lambda>(n, e). backup_entry enc skip n e) b"

lemma encoded_distinct:
  assumes "distinct (map fst b)" "\<forall>n \<in> fst ` set b. plain_name n"
  shows "distinct (map fst (encoded enc skip b))"
  using assms
proof (induction b)
  case (Cons x b)
  then show ?case
    using backup_entry_key_inj[of enc skip "fst x" "snd x"]
    by (cases x) (auto simp: image_iff, metis fst_conv)
qed simp

text \<open>The parts of a backup of archive \<open>c\<close> against the origin \<open>o'\<close>.\<close>

abbreviation stem :: "cpio \<Rightarrow> cpio" where
  "stem c \<equiv> rm c ''.backup'' True"

abbreviation rm_text :: "string list \<Rightarrow> string" where
  "rm_text ns \<equiv> concat (map (\<lambda>n. n @ [NUL]) ns)"

lemma norm_backup [simp]: "norm_path ''.backup'' = ''.backup''"
  by (simp add: norm_path_def)

lemma bt_inv_rm: "bt_inv c \<Longrightarrow> bt_inv (rm c p r)"
  by (auto simp: rm_def Let_def intro!: bt_invs)

lemma stem_get: "bt_inv c \<Longrightarrow> k = ''.backup'' \<or> prefix ''.backup/'' k \<Longrightarrow> bt_get (stem c) k = None"
  by (simp add: bt_get_rm)

lemma changed_distinct: "bt_inv o' \<Longrightarrow> distinct (map fst (changed o' c))"
  unfolding changed_def by (intro bt_inv_distinct bt_inv_filter)

lemma get_backup_from:
  assumes "bt_inv c" "bt_inv o'" "\<forall>n \<in> fst ` set (stem o'). plain_name n"
  defines "b \<equiv> changed (stem o') (stem c)" and "rl \<equiv> rm_text (added (stem o') (stem c))"
  shows "bt_inv (backup_from enc skip c o')"
    and "bt_get (backup_from enc skip c o') k =
      (if k = ''.backup/.rmlist'' \<and> rl \<noteq> [] then Some (plain_entry S_IFREG rl)
       else case map_of (encoded enc skip b) k of
         Some v \<Rightarrow> Some v
       | None \<Rightarrow> if k = ''.backup'' then Some (plain_entry S_IFDIR []) else bt_get (stem c) k)"
proof -
  define b0 where "b0 = bt_insert ''.backup'' (plain_entry S_IFDIR []) []"
  define b1 where "b1 = bt_extend (encoded enc skip b) b0"
  define b2 where "b2 = (if rl \<noteq> [] then bt_insert ''.backup/.rmlist'' (plain_entry S_IFREG rl) b1 else b1)"
  have inv: "bt_inv (stem c)" "bt_inv (stem o')" "bt_inv b0" using assms by (simp_all add: bt_inv_rm b0_def bt_inv_insert)
  have "fold (backup_step enc skip) (merge_actions (stem o') (stem c)) (b0, []) = (b1, rl)"
    using merge_spec[OF inv(2,1)] by (simp add: fold_backup_step b1_def b_def rl_def)
  then have r: "backup_from enc skip c o' = bt_extend b2 (stem c)"
    by (simp add: backup_from_def b0_def [symmetric] b2_def)
  have d: "distinct (map fst (encoded enc skip b))"
    using changed_distinct[OF inv(2), of "stem c"] assms(3)
    by (intro encoded_distinct) (auto simp: b_def changed_def)
  have inv1: "bt_inv b1" by (simp add: b1_def bt_inv_extend inv)
  have inv2: "bt_inv b2" using inv1 by (simp add: b2_def bt_inv_insert)
  show "bt_inv (backup_from enc skip c o')" using inv by (simp add: r bt_inv_extend)
  have "bt_get (backup_from enc skip c o') = bt_get (stem c) ++ bt_get b2"
    using inv inv2 by (simp add: r bt_get_extend bt_inv_distinct) (simp add: bt_get_def [abs_def])
  moreover have "bt_get b1 = bt_get b0 ++ map_of (encoded enc skip b)"
    unfolding b1_def using inv(3) d by (rule bt_get_extend)
  moreover have "bt_get b0 = [''.backup'' \<mapsto> plain_entry S_IFDIR []]"
    by (simp add: b0_def bt_get_insert) (simp add: bt_get_def [abs_def])
  ultimately show "bt_get (backup_from enc skip c o') k =
      (if k = ''.backup/.rmlist'' \<and> rl \<noteq> [] then Some (plain_entry S_IFREG rl)
       else case map_of (encoded enc skip b) k of
         Some v \<Rightarrow> Some v
       | None \<Rightarrow> if k = ''.backup'' then Some (plain_entry S_IFDIR []) else bt_get (stem c) k)"
    by (auto simp: b2_def bt_get_insert map_add_def split: option.splits)
qed

section \<open>Restoring it\<close>

abbreviation reserved :: "string \<Rightarrow> bool" where
  "reserved k \<equiv> k = ''.backup/.rmlist'' \<or> k = ''.backup/.magisk''"

lemma fold_restore_one:
  "fold (restore_one dec) ps (b, r) =
     (bt_extend (map (restore_name dec) (filter (\<lambda>p. \<not> reserved (fst p)) ps)) b,
      r @ concat (map (\<lambda>p. ce_data (snd p))
        (filter (\<lambda>p. fst p = ''.backup/.rmlist'' \<and> utf8_valid (ce_data (snd p))) ps)))"
  by (induction ps arbitrary: b r)
     (auto simp: restore_one_def bt_extend_def split: prod.splits)

lemma filter_key:
  "bt_inv m \<Longrightarrow> filter (\<lambda>p. fst p = k \<and> P p) m =
     (case bt_get m k of None \<Rightarrow> [] | Some v \<Rightarrow> if P (k, v) then [(k, v)] else [])"
proof (induction m)
  case (Cons x m)
  then have x: "\<forall>q \<in> set m. fst x < fst q" and IH: "filter (\<lambda>p. fst p = k \<and> P p) m =
     (case bt_get m k of None \<Rightarrow> [] | Some v \<Rightarrow> if P (k, v) then [(k, v)] else [])"
    by (auto simp: bt_inv_Cons)
  show ?case
  proof (cases "fst x = k")
    case True
    then have "bt_get m k = None" using x by (auto intro: bt_get_less_None)
    then show ?thesis using IH True by (cases x) (auto simp: bt_get_Cons)
  next
    case False
    then show ?thesis using IH by (cases x) (auto simp: bt_get_Cons)
  qed
qed (simp add: bt_get_def)

lemma bt_get_filter_key:
  "bt_inv m \<Longrightarrow> bt_get (filter (\<lambda>p. P (fst p)) m) k = (if P k then bt_get m k else None)"
  by (simp add: bt_get_def map_of_filter_key)

lemma in_bt_iff: "bt_inv m \<Longrightarrow> (k, v) \<in> set m \<longleftrightarrow> bt_get m k = Some v"
  by (auto intro: bt_get_SomeI dest: bt_get_SomeD)

text \<open>Decoding the encoded entries of \<open>b\<close>, in whatever order, gives the map of \<open>b\<close>.\<close>

lemma restored_map:
  assumes b: "distinct (map fst b)" "\<forall>n \<in> fst ` set b. plain_name n" and x: "xz_codec enc dec"
    and ps: "distinct ps" "set ps = set (encoded enc skip b)"
  shows "distinct (map fst (map (restore_name dec) ps))"
    and "map_of (map (restore_name dec) ps) = map_of b"
proof -
  have dec: "restore_name dec (backup_entry enc skip n e) = (n, e)" if "(n, e) \<in> set b" for n e
    by (rule restore_backup_name) (use that b(2) x in \<open>auto dest: bspec[of _ _ n] intro: rev_image_eqI\<close>)
  have "inj_on (\<lambda>p. fst (restore_name dec p)) (set ps)"
  proof (rule inj_onI)
    fix p q assume pq: "p \<in> set ps" "q \<in> set ps" "fst (restore_name dec p) = fst (restore_name dec q)"
    then obtain n e m f where "p = backup_entry enc skip n e" "(n, e) \<in> set b"
        "q = backup_entry enc skip m f" "(m, f) \<in> set b" using ps(2) by auto
    then show "p = q" using pq(3) dec b(1) by (metis eq_key_imp_eq_value fst_conv)
  qed
  then show d: "distinct (map fst (map (restore_name dec) ps))"
    using ps(1) by (simp add: distinct_map o_def)
  have "set (map (restore_name dec) ps)
      = (\<lambda>p. restore_name dec (backup_entry enc skip (fst p) (snd p))) ` set b"
    by (simp add: ps(2) image_image case_prod_unfold)
  also have "\<dots> = (\<lambda>p. p) ` set b"
    by (rule image_cong) (simp_all add: dec)
  finally have "set (map (restore_name dec) ps) = set b" by simp
  then show "map_of (map (restore_name dec) ps) = map_of b"
    using d b(1) by (simp add: map_of_inject_set)
qed

lemma split_rm_text: "\<forall>n \<in> set ns. NUL \<notin> set n \<Longrightarrow> split_on NUL (rm_text ns) = ns @ [[]]"
  by (induction ns) (simp_all add: split_on_append_sep)

lemma utf8_rm_text: "\<forall>n \<in> set ns. utf8_valid n \<Longrightarrow> utf8_valid (rm_text ns)"
  by (induction ns) (simp_all add: utf8_valid_append)

lemma fold_rm_names:
  assumes "\<forall>n \<in> set ns. n \<noteq> [] \<and> norm_path n = n"
  shows "fold (\<lambda>r c. if r \<noteq> [] then rm c r False else c) (ns @ [[]]) c = fold bt_remove ns c"
  using assms by (induction ns arbitrary: c) (simp_all add: rm_def Let_def)

text \<open>What is extracted from the archive that \<open>backup_from\<close> made.\<close>

lemma extracted_backup:
  fixes enc :: "bytes \<Rightarrow> bytes option" and skip :: bool
  assumes inv: "bt_inv c" "bt_inv o'" and pl: "\<forall>n \<in> fst ` set (stem o'). plain_name n"
  defines "b \<equiv> changed (stem o') (stem c)" and "rl \<equiv> rm_text (added (stem o') (stem c))"
    and "x \<equiv> filter (\<lambda>p. prefix ''.backup/'' (fst p)) (backup_from enc skip c o')"
  shows "bt_inv x"
    and "set (filter (\<lambda>p. \<not> reserved (fst p)) x) = set (encoded enc skip b)"
    and "bt_get x ''.backup/.rmlist'' = (if rl \<noteq> [] then Some (plain_entry S_IFREG rl) else None)"
proof -
  note g = get_backup_from[OF inv pl, of enc skip, folded b_def rl_def]
  show i: "bt_inv x" unfolding x_def by (rule bt_inv_filter) (rule g(1))
  have bpl: "\<forall>n \<in> fst ` set b. plain_name n" using pl by (auto simp: b_def changed_def)
  have d: "distinct (map fst (encoded enc skip b))"
    using changed_distinct[of "stem o'" "stem c"] bpl inv by (intro encoded_distinct) (simp_all add: b_def bt_inv_rm)
  have key: "prefix ''.backup/'' k \<and> \<not> reserved k" if "map_of (encoded enc skip b) k = Some v" for k v
  proof -
    from map_of_SomeD[OF that] obtain n e where n: "(n, e) \<in> set b" "backup_entry enc skip n e = (k, v)"
      by auto
    then have "plain_name n" using bpl by (auto dest: bspec intro: rev_image_eqI)
    then show ?thesis using backup_entry_key[of n enc skip e] n(2) by simp
  qed
  have sc: "bt_get (stem c) k = None" if "prefix ''.backup/'' k" for k
    using that inv by (simp add: stem_get)
  have x: "bt_get x k = (if k = ''.backup/.rmlist'' \<and> rl \<noteq> [] then Some (plain_entry S_IFREG rl)
      else map_of (encoded enc skip b) k)" for k
    using key[of k] sc[of k] unfolding x_def
    by (auto simp: bt_get_filter_key[OF g(1)] g(2) split: option.splits)
  show "bt_get x ''.backup/.rmlist'' = (if rl \<noteq> [] then Some (plain_entry S_IFREG rl) else None)"
    using key[of "''.backup/.rmlist''"] by (cases "map_of (encoded enc skip b) ''.backup/.rmlist''") (auto simp: x)
  have m: "(k, v) \<in> set (filter (\<lambda>p. \<not> reserved (fst p)) x) \<longleftrightarrow> (k, v) \<in> set (encoded enc skip b)" for k v
    using key[of k v] by (simp only: set_filter mem_Collect_eq in_bt_iff[OF i] x fst_conv map_of_eq_Some_iff[OF d, symmetric]) auto
  show "set (filter (\<lambda>p. \<not> reserved (fst p)) x) = set (encoded enc skip b)"
    by (rule set_eqI) (use m in \<open>simp only: split_paired_all\<close>)
qed

lemma restore_backup:
  assumes inv: "bt_inv c" "bt_inv o'" and pl: "\<forall>n \<in> fst ` set (stem o'). plain_name n"
    and nm: "\<forall>n \<in> fst ` set (stem c). n \<noteq> [] \<and> norm_path n = n \<and> NUL \<notin> set n \<and> utf8_valid n"
    and xz: "xz_codec enc dec"
    and diff: "changed (stem o') (stem c) \<noteq> [] \<or> added (stem o') (stem c) \<noteq> []"
  shows "bt_get (restore dec (backup_from enc skip c o')) =
    bt_get (fold bt_remove (added (stem o') (stem c)) (stem c)) ++ map_of (changed (stem o') (stem c))"
proof -
  define b ns where "b = changed (stem o') (stem c)" and "ns = added (stem o') (stem c)"
  define c1 where "c1 = backup_from enc skip c o'"
  define x where "x = filter (\<lambda>p. prefix ''.backup/'' (fst p)) c1"
  define c2 where "c2 = rm (filter (\<lambda>p. \<not> prefix ''.backup/'' (fst p)) c1) ''.backup'' False"
  define ps where "ps = filter (\<lambda>p. \<not> reserved (fst p)) x"
  define bs where "bs = bt_extend (map (restore_name dec) ps) []"
  note g = get_backup_from[OF inv pl, of enc skip, folded b_def ns_def c1_def]
  note e = extracted_backup[OF inv pl, of enc skip, folded b_def ns_def c1_def, folded x_def, folded ps_def]
  have ns: "\<forall>n \<in> set ns. n \<noteq> [] \<and> norm_path n = n \<and> NUL \<notin> set n \<and> utf8_valid n"
    using nm by (auto simp: ns_def added_def)
  have b: "distinct (map fst b)" "\<forall>n \<in> fst ` set b. plain_name n"
    using pl inv changed_distinct[of "stem o'"] by (auto simp: b_def bt_inv_rm changed_def)
  have "distinct ps" using bt_inv_distinct[OF e(1)] by (simp add: ps_def distinct_map distinct_filter)
  note rs = restored_map[OF b xz this e(2)]
  have bs: "bt_inv bs" "bt_get bs = map_of b"
    using bt_get_extend[of "[]" "map (restore_name dec) ps"] rs
    by (simp_all add: bs_def bt_inv_extend bt_get_def [abs_def])
  have u: "utf8_valid (rm_text ns)" using ns by (intro utf8_rm_text) auto
  have "concat (map (\<lambda>p. ce_data (snd p))
      (filter (\<lambda>p. fst p = ''.backup/.rmlist'' \<and> utf8_valid (ce_data (snd p))) x)) = rm_text ns"
    unfolding filter_key[OF e(1)] e(3) using u by (simp add: plain_entry_def)
  then have fr: "fold (restore_one dec) x ([], []) = (bs, rm_text ns)"
    by (simp add: fold_restore_one ps_def bs_def)
  have c2: "bt_inv c2" "bt_get c2 = bt_get (stem c)"
  proof -
    show "bt_inv c2" using g(1) by (simp add: c2_def bt_inv_rm bt_inv_filter)
    have "map_of (encoded enc skip b) k = None" if "\<not> prefix ''.backup/'' k" for k
      using that e(2) by (force simp: map_of_eq_None_iff ps_def x_def)
    then show "bt_get c2 = bt_get (stem c)"
      using g stem_get[OF inv(1)] bt_get_filter_key[OF g(1), of "\<lambda>k. \<not> prefix ''.backup/'' k"]
      by (intro ext) (auto simp: c2_def bt_get_rm bt_inv_filter)
  qed
  have "bs \<noteq> [] \<or> rm_text ns \<noteq> []"
  proof (cases "ns = []")
    case True
    then have "map_of b \<noteq> Map.empty" using diff by (simp add: b_def ns_def)
    then show ?thesis using bs(2) by (auto simp: bt_get_def [abs_def])
  qed simp
  then have r: "restore dec c1 = bt_extend bs (fold bt_remove ns c2)"
    using fold_rm_names[of ns c2] split_rm_text[of ns] ns
    by (auto simp: restore_def x_def [symmetric] c2_def [symmetric] fr)
  have "bt_get (fold bt_remove ns c2) = bt_get (fold bt_remove ns (stem c))"
    by (rule ext) (simp add: bt.get_del_all c2 inv(1) bt_inv_rm)
  moreover have "map_of bs = map_of b"
    using bs(2) by (simp add: bt_get_def [abs_def])
  moreover note bt_get_extend[OF bt.inv_del_all[OF c2(1), of ns] bt_inv_distinct[OF bs(1)]]
  ultimately show ?thesis
    unfolding b_def [symmetric] ns_def [symmetric] c1_def [symmetric] r by metis
qed

section \<open>Patching\<close>

lemma patch_data_verity: "patch_data patch_verity d = Some (stripped (match_patterns verity_patterns) d)"
  using list_emb_length[OF stripped_subseq[of "match_patterns verity_patterns" d]]
  by (simp add: patch_data_def patch_verity_eq Let_def zeros_def)

lemma patch_data_encryption:
  "patch_data patch_encryption d = Some (stripped (match_patterns encryption_patterns) d)"
  using list_emb_length[OF stripped_subseq[of "match_patterns encryption_patterns" d]]
  by (simp add: patch_data_def patch_encryption_eq Let_def zeros_def)

text \<open>The content of an fstab file after both removals that are asked for.\<close>

definition fstab_data :: "bool \<Rightarrow> bool \<Rightarrow> bytes \<Rightarrow> bytes" where
  "fstab_data kv kf d =
     (let d = (if kv then d else stripped (match_patterns verity_patterns) d)
      in if kf then d else stripped (match_patterns encryption_patterns) d)"

lemma patch_entry_eq:
  "patch_entry kv kf n e =
     (if \<not> kv \<and> n = ''verity_key'' then Some (e, False)
      else if is_fstab kv kf n e then Some (e\<lparr>ce_data := fstab_data kv kf (ce_data e)\<rparr>, True)
      else Some (e, True))"
proof -
  have "\<not> is_fstab kv kf ''verity_key'' e" for kv kf by (simp add: is_fstab_def)
  then show ?thesis
    by (simp add: patch_entry_def Let_def patch_data_verity patch_data_encryption fstab_data_def)
qed

lemma patch_entries_eq:
  "patch_entries kv kf c =
     Some (map (\<lambda>(n, e). (n, if is_fstab kv kf n e then e\<lparr>ce_data := fstab_data kv kf (ce_data e)\<rparr> else e))
       (filter (\<lambda>(n, e). kv \<or> n \<noteq> ''verity_key'') c))"
proof (induction c)
  case (Cons x c)
  then show ?case by (cases x; cases kv) (simp_all add: patch_entry_eq)
qed simp

section \<open>Properties\<close>



text \<open>
  Backing up an archive against an identical origin and restoring it yields the empty archive:
  \<open>restore\<close> takes a backup that records no difference for one of an archive made from nothing.
\<close>
theorem backup_restore_identical:
  assumes "bt_inv c"
  shows "restore dec (backup_from enc skip c c) = []"
proof -
  have inv: "bt_inv (stem c)" using assms by (simp add: bt_inv_rm)
  have none: "changed (stem c) (stem c) = []" "added (stem c) (stem c) = []"
    using bt_get_SomeI[OF inv] by (auto simp: changed_def added_def filter_empty_conv)
  have no: "\<not> prefix ''.backup/'' k" if "(k, v) \<in> set (stem c)" for k v
    using stem_get[OF assms, of k] bt_get_SomeI[OF inv that] by auto
  have "backup_from enc skip c c = bt_extend [(''.backup'', plain_entry S_IFDIR [])] (stem c)"
    using merge_spec[OF inv inv] none by (simp add: backup_from_def fold_backup_step bt_extend_def bt_insert_def)
  then have "filter (\<lambda>p. prefix ''.backup/'' (fst p)) (backup_from enc skip c c) = []"
    using no by (auto simp: bt_extend_def bt_insert_def filter_empty_conv)
  then show ?thesis by (simp add: restore_def)
qed

theorem backup_restore_identical_witness:
  "restore Some (backup_from Some False [(''init'', plain_entry S_IFREG ''ELF'')] [(''init'', plain_entry S_IFREG ''ELF'')]) = []"
  by (rule backup_restore_identical) (simp add: bt_inv_def)

text \<open>
  With compression switched off, a backed up file that is itself an XZ file comes back under
  another name and decompressed: \<open>restore\<close> cannot tell it from a file that \<open>backup\<close> compressed.
\<close>
theorem backup_restore_xz_file:
  assumes "dec z = Some d"
  shows "bt_get (restore dec (backup_from enc True [] [(''a.xz'', plain_entry S_IFREG z)])) ''a''
      = Some (plain_entry S_IFREG d)
    \<and> bt_get (restore dec (backup_from enc True [] [(''a.xz'', plain_entry S_IFREG z)])) ''a.xz'' = None"
  using assms
  by (simp add: backup_from_def rm_def bt_remove_def bt_retain_def backup_entry_def bt_insert_def
      bt_extend_def restore_def restore_one_def restore_name_def ends_with_def suffix_def decompress_def
      plain_entry_def S_IF_defs bt_get_def norm_path_def)

theorem backup_restore_xz_file_witness:
  "bt_get (restore (\<lambda>_. Some ''x'') (backup_from Some True [] [(''a.xz'', plain_entry S_IFREG ''z'')])) ''a.xz'' = None"
  using backup_restore_xz_file[of "\<lambda>_. Some ''x''" "''z''" "''x''" Some] by simp

text \<open>
  C21. \<open>patch\<close> always returns.  It drops \<open>verity_key\<close> unless verity is kept, replaces the content
  of the fstab files in the root directory by their content without the flags that are not kept, and
  leaves every other entry as it is.
\<close>
theorem patch_spec:
  "patch env c =
     (let kv = (env ''KEEPVERITY'' = Some ''true''); kf = (env ''KEEPFORCEENCRYPT'' = Some ''true'') in
      Some (map (\<lambda>(n, e). (n, if is_fstab kv kf n e then e\<lparr>ce_data := fstab_data kv kf (ce_data e)\<rparr> else e))
        (filter (\<lambda>(n, e). if kv then True else n \<noteq> ''verity_key'') c)))"
  by (cases "env ''KEEPVERITY'' = Some ''true''") (simp_all add: patch_def check_env_def patch_entries_eq Let_def)

end
