(* ===== verification/Files.thy ===== *)
theory Files
  imports CStr
begin

text \<open>
  base/files.rs: path helpers, \<open>mkdirs\<close>, the line and property readers, and the parser of
  \<open>/proc/<pid>/mountinfo\<close>.  Calls that change the file system are values of \<open>fs_op\<close>; an operation
  returns the calls it made, in order, and its result.  Which calls succeed is a parameter.
\<close>

section \<open>Calls to the file system\<close>

datatype fs_op =
    FsMkdir string u32
  | FsCreate string u32 bytes
  | FsSymlink string string
  | FsMknod string u32 u32 u32

type_synonym 'a fs = "fs_op list \<times> 'a res"

definition do_fs :: "(fs_op \<Rightarrow> bool) \<Rightarrow> fs_op \<Rightarrow> unit fs" where
  "do_fs os call = ([call], if os call then Inr () else Inl LoggedError)"

definition then_fs :: "'a fs \<Rightarrow> ('a \<Rightarrow> 'b fs) \<Rightarrow> 'b fs" where
  "then_fs m f =
     (case snd m of
        Inl e \<Rightarrow> (fst m, Inl e)
      | Inr x \<Rightarrow> (fst m @ fst (f x), snd (f x)))"

section \<open>Paths\<close>

text \<open>
  \<open>std::path::Path::parent\<close> and \<open>file_name\<close>: empty and \<open>.\<close> components are skipped, except a
  leading \<open>.\<close>.
\<close>

definition path_start :: "string \<Rightarrow> nat" where
  "path_start p = (if prefix ''/'' p \<or> p = ''.'' \<or> prefix ''./'' p then 1 else 0)"

definition trim_components :: "string list \<Rightarrow> string list" where
  "trim_components ps = rev (dropWhile (\<lambda>p. p = [] \<or> p = ''.'') (rev ps))"

definition body_components :: "string \<Rightarrow> string list" where
  "body_components p = trim_components (split_on (CHR ''/'') (drop (path_start p) p))"

definition parent_dir :: "string \<Rightarrow> string option" where
  "parent_dir p =
     (let ps = body_components p in
      if ps = [] then (if p = ''.'' \<or> prefix ''./'' p then Some [] else None)
      else Some (take (path_start p) p @ join_with ''/'' (trim_components (butlast ps))))"

definition file_name :: "string \<Rightarrow> string option" where
  "file_name p =
     (let ps = body_components p in
      if ps = [] \<or> last ps = ''..'' then None else Some (last ps))"

fun mkdirs_loop :: "(fs_op \<Rightarrow> bool) \<Rightarrow> fixed_buf \<Rightarrow> string list \<Rightarrow> u32 \<Rightarrow> unit fs" where
  "mkdirs_loop os path [] mode = ([], Inr ())"
| "mkdirs_loop os path (s # components) mode =
     (let path = append_path_impl fixed_ops path s
      in then_fs (do_fs os (FsMkdir (fixed_as_str path) mode)) (\<lambda>_. mkdirs_loop os path components mode))"

definition mkdirs :: "(fs_op \<Rightarrow> bool) \<Rightarrow> string \<Rightarrow> u32 \<Rightarrow> unit fs" where
  "mkdirs os p mode =
     (if p = [] then ([], Inr ())
      else
        let path = arr_new 4096;
            components = filter (\<lambda>s. s \<noteq> []) (split_on (CHR ''/'') p);
            path = (if prefix ''/'' p then append_path_impl fixed_ops path ''/'' else path)
        in mkdirs_loop os path components mode)"

section \<open>Lines and properties\<close>

definition read_lines :: "bytes \<Rightarrow> string list" where
  "read_lines bs =
     (let ps = split_on (CHR 0x0A) bs
      in map (\<lambda>p. p @ [CHR 0x0A]) (butlast ps) @ (if last ps = [] then [] else [last ps]))"

fun for_each_line :: "('s \<Rightarrow> string \<Rightarrow> 's \<times> bool) \<Rightarrow> 's \<Rightarrow> string list \<Rightarrow> 's" where
  "for_each_line f s [] = s"
| "for_each_line f s (l # ls) =
     (if utf8_valid l then
        (let (s, continue) = f s l in if continue then for_each_line f s ls else s)
      else s)"

definition prop_of_line :: "string \<Rightarrow> (string \<times> string) option" where
  "prop_of_line line =
     (let line = trim line in
      if prefix ''#'' line then None
      else map_option (\<lambda>(k, v). (trim k, trim v)) (split_once (CHR ''='') line))"

definition for_each_prop :: "('s \<Rightarrow> string \<Rightarrow> string \<Rightarrow> 's \<times> bool) \<Rightarrow> 's \<Rightarrow> bytes \<Rightarrow> 's" where
  "for_each_prop f s bs =
     for_each_line (\<lambda>s line. case prop_of_line line of Some (k, v) \<Rightarrow> f s k v | None \<Rightarrow> (s, True))
       s (read_lines bs)"

section \<open>Mount table\<close>

record mount_info =
  mi_id :: nat
  mi_parent :: nat
  mi_device :: u64
  mi_root :: string
  mi_target :: string
  mi_vfs_option :: string
  mi_shared :: nat
  mi_master :: nat
  mi_propagation_from :: nat
  mi_unbindable :: bool
  mi_fs_type :: string
  mi_source :: string
  mi_fs_option :: string

record mount_opts =
  mo_shared :: nat
  mo_master :: nat
  mo_propagation_from :: nat
  mo_unbindable :: bool

fun parse_optional :: "string list \<Rightarrow> mount_opts \<Rightarrow> (mount_opts \<times> string list) option" where
  "parse_optional [] st = None"
| "parse_optional (optional # rest) st =
     (if optional = ''-'' then Some (st, rest)
      else case strip_prefix ''master:'' optional of
        Some peer \<Rightarrow> (case parse_u32 peer of None \<Rightarrow> None | Some n \<Rightarrow> parse_optional rest (st\<lparr>mo_master := n\<rparr>))
      | None \<Rightarrow> (case strip_prefix ''shared:'' optional of
          Some peer \<Rightarrow> (case parse_u32 peer of None \<Rightarrow> None | Some n \<Rightarrow> parse_optional rest (st\<lparr>mo_shared := n\<rparr>))
        | None \<Rightarrow> (case strip_prefix ''propagate_from:'' optional of
            Some peer \<Rightarrow> (case parse_u32 peer of None \<Rightarrow> None
                          | Some n \<Rightarrow> parse_optional rest (st\<lparr>mo_propagation_from := n\<rparr>))
          | None \<Rightarrow> parse_optional rest (if optional = ''unbindable'' then st\<lparr>mo_unbindable := True\<rparr> else st))))"

text \<open>\<open>makedev\<close> is libc's.\<close>

definition parse_mount_info_line :: "(nat \<Rightarrow> nat \<Rightarrow> u64) \<Rightarrow> string \<Rightarrow> mount_info option" where
  "parse_mount_info_line makedev line =
     (case split_whitespace line of
        mid # parent # dev # root # target # vfs_option # rest \<Rightarrow>
          (case (parse_u32 mid, parse_u32 parent, split_once (CHR '':'') dev) of
             (Some mid, Some parent, Some (maj, mnr)) \<Rightarrow>
               (case (parse_u32 maj, parse_u32 mnr,
                      parse_optional rest \<lparr>mo_shared = 0, mo_master = 0, mo_propagation_from = 0, mo_unbindable = False\<rparr>) of
                  (Some maj, Some mnr, Some (st, fs_type # source # fs_option # _)) \<Rightarrow>
                    Some \<lparr>mi_id = mid, mi_parent = parent, mi_device = makedev maj mnr, mi_root = root,
                          mi_target = target, mi_vfs_option = vfs_option, mi_shared = mo_shared st,
                          mi_master = mo_master st, mi_propagation_from = mo_propagation_from st,
                          mi_unbindable = mo_unbindable st, mi_fs_type = fs_type, mi_source = source,
                          mi_fs_option = fs_option\<rparr>
                | _ \<Rightarrow> None)
           | _ \<Rightarrow> None)
      | _ \<Rightarrow> None)"

definition parse_mount_info :: "(nat \<Rightarrow> nat \<Rightarrow> u64) \<Rightarrow> bytes option \<Rightarrow> mount_info list" where
  "parse_mount_info makedev file =
     (case file of
        None \<Rightarrow> []
      | Some bs \<Rightarrow>
          for_each_line (\<lambda>res line.
            case parse_mount_info_line makedev line of
              Some info \<Rightarrow> (res @ [info], True)
            | None \<Rightarrow> (res, False)) [] (read_lines bs))"

section \<open>Lemmas\<close>

text \<open>A line of the mount table as the kernel prints it.\<close>

definition mount_options :: "mount_info \<Rightarrow> string list" where
  "mount_options mi =
     (if mi_shared mi \<noteq> 0 then [''shared:'' @ dec_digits (mi_shared mi)] else [])
     @ (if mi_master mi \<noteq> 0 then [''master:'' @ dec_digits (mi_master mi)] else [])
     @ (if mi_propagation_from mi \<noteq> 0 then [''propagate_from:'' @ dec_digits (mi_propagation_from mi)] else [])
     @ (if mi_unbindable mi then [''unbindable''] else [])"

definition mount_line :: "nat \<Rightarrow> nat \<Rightarrow> mount_info \<Rightarrow> string" where
  "mount_line maj mnr mi =
     join_with '' '' ([dec_digits (mi_id mi), dec_digits (mi_parent mi),
       dec_digits maj @ '':'' @ dec_digits mnr, mi_root mi, mi_target mi, mi_vfs_option mi]
       @ mount_options mi @ [''-'', mi_fs_type mi, mi_source mi, mi_fs_option mi])"

definition is_word :: "string \<Rightarrow> bool" where
  "is_word w \<longleftrightarrow> w \<noteq> [] \<and> list_all (\<lambda>c. \<not> is_space c) w"

definition mount_wf :: "mount_info \<Rightarrow> bool" where
  "mount_wf mi \<longleftrightarrow> list_all (\<lambda>n. n < 2 ^ 32) [mi_id mi, mi_parent mi, mi_shared mi, mi_master mi, mi_propagation_from mi]
     \<and> list_all is_word [mi_root mi, mi_target mi, mi_vfs_option mi, mi_fs_type mi, mi_source mi, mi_fs_option mi]"

lemma is_word_append: "is_word (a @ b) \<longleftrightarrow> a @ b \<noteq> [] \<and> list_all (\<lambda>c. \<not> is_space c) a \<and> list_all (\<lambda>c. \<not> is_space c) b"
  by (simp add: is_word_def)

lemma dec_digits_no_space: "list_all (\<lambda>c. \<not> is_space c) (dec_digits n)"
  using dec_digits_chars[of _ n] by (fastforce simp: list_all_iff is_space_def)

lemma is_word_dec_digits: "is_word (dec_digits n)"
  by (simp add: is_word_def dec_digits_no_space dec_digits_not_Nil)

lemma is_word_option: "list_all (\<lambda>c. \<not> is_space c) p \<Longrightarrow> is_word (p @ dec_digits n)"
  by (simp add: is_word_append dec_digits_no_space dec_digits_not_Nil)

lemma mount_options_words: "list_all is_word (mount_options mi)"
  using is_word_option[of "''shared:''" "mi_shared mi"] is_word_option[of "''master:''" "mi_master mi"]
    is_word_option[of "''propagate_from:''" "mi_propagation_from mi"]
  by (simp add: mount_options_def) (simp add: is_word_def is_space_def)

lemma strip_prefix_append [simp]: "strip_prefix p (p @ s) = Some s"
  by (simp add: strip_prefix_def)

lemma parse_options:
  assumes "mount_wf mi"
  shows "parse_optional (mount_options mi @ ''-'' # rest)
      \<lparr>mo_shared = 0, mo_master = 0, mo_propagation_from = 0, mo_unbindable = False\<rparr>
    = Some (\<lparr>mo_shared = mi_shared mi, mo_master = mi_master mi,
        mo_propagation_from = mi_propagation_from mi, mo_unbindable = mi_unbindable mi\<rparr>, rest)"
  using assms by (simp add: mount_options_def mount_wf_def strip_prefix_def parse_dec_digits)

lemma split_words: "list_all is_word ws \<Longrightarrow> split_whitespace (join_with '' '' ws) = ws"
  by (rule split_whitespace_join) (auto simp: list_all_iff is_word_def)

lemma mount_line_words:
  assumes "mount_wf mi"
  shows "split_whitespace (mount_line maj mnr mi) =
    [dec_digits (mi_id mi), dec_digits (mi_parent mi),
       dec_digits maj @ '':'' @ dec_digits mnr, mi_root mi, mi_target mi, mi_vfs_option mi]
       @ mount_options mi @ [''-'', mi_fs_type mi, mi_source mi, mi_fs_option mi]"
proof -
  have "is_word (dec_digits maj @ '':'' @ dec_digits mnr)"
    by (simp add: is_word_append dec_digits_no_space) (simp add: is_space_def)
  moreover have "is_word ''-''" by (simp add: is_word_def is_space_def)
  ultimately show ?thesis
    unfolding mount_line_def using assms mount_options_words[of mi]
    by (intro split_words) (simp add: mount_wf_def is_word_dec_digits)
qed

section \<open>Creating directories\<close>

fun ancestors :: "string \<Rightarrow> string list \<Rightarrow> string list" where
  "ancestors base [] = []"
| "ancestors base (s # components) = joined_path base s # ancestors (joined_path base s) components"

fun run_calls :: "(fs_op \<Rightarrow> bool) \<Rightarrow> fs_op list \<Rightarrow> unit fs" where
  "run_calls os [] = ([], Inr ())"
| "run_calls os (c # cs) = then_fs (do_fs os c) (\<lambda>_. run_calls os cs)"

fun path_length :: "string \<Rightarrow> string list \<Rightarrow> nat" where
  "path_length base [] = length base"
| "path_length base (s # components) = path_length (joined_path base s) components"

lemma path_length_ge:
  "\<forall>s \<in> set ss. \<not> prefix ''/'' s \<Longrightarrow> length base \<le> path_length base ss"
proof (induction ss arbitrary: base)
  case (Cons s ss)
  then have "length base \<le> length (joined_path base s)" by (simp add: joined_path_def)
  also have "\<dots> \<le> path_length (joined_path base s) ss" using Cons by simp
  finally show ?case by simp
qed simp

lemma not_ends_slash: "s \<noteq> [] \<Longrightarrow> CHR ''/'' \<notin> set s \<Longrightarrow> \<not> ends_with (p @ s) ''/''"
  by (auto simp: ends_with_def suffix_def append_eq_append_conv2 append_eq_Cons_conv Cons_eq_append_conv)

lemma path_length_tail:
  assumes "p \<noteq> []" "\<not> ends_with p ''/''" "\<forall>s \<in> set ss. s \<noteq> [] \<and> CHR ''/'' \<notin> set s"
  shows "path_length p ss = length p + (if ss = [] then 0 else 1) + length (join_with ''/'' ss)"
  using assms
proof (induction ss arbitrary: p rule: induct_list012)
  case (3 x y zs)
  have "\<not> ends_with (p @ ''/'' @ x) ''/''" using not_ends_slash[of x "p @ ''/''"] 3(5) by simp
  then show ?case using 3(2)[of "p @ ''/'' @ x"] 3(3-) by (auto simp: joined_path_def prefix_def)
qed (auto simp: joined_path_def prefix_def)

lemma path_length_join:
  assumes ss: "\<forall>s \<in> set ss. s \<noteq> [] \<and> CHR ''/'' \<notin> set s" and base: "base = [] \<or> base = ''/''"
  shows "path_length base ss = length base + length (join_with ''/'' ss)"
proof (cases ss)
  case (Cons x rest)
  have "joined_path base x = base @ x"
    using ss base Cons by (auto simp: joined_path_def prefix_def ends_with_def)
  moreover have "\<not> ends_with (base @ x) ''/''" using not_ends_slash[of x base] ss Cons by simp
  ultimately show ?thesis
    using path_length_tail[of "base @ x" rest] ss Cons by (cases rest) auto
qed simp

lemma join_filter_length:
  "length (join_with ''/'' (filter (\<lambda>s. s \<noteq> []) ps)) \<le> length (join_with ''/'' ps)"
proof (induction ps rule: induct_list012)
  case (3 x y zs)
  then show ?case by (cases "filter (\<lambda>s. s \<noteq> []) zs"; cases x; cases y) auto
qed auto

lemma mkdirs_loop_spec:
  assumes "fixed_inv b" "\<forall>s \<in> set ss. \<not> prefix ''/'' s" "path_length (fixed_as_str b) ss < fixed_capacity b"
  shows "mkdirs_loop os b ss mode = run_calls os (map (\<lambda>d. FsMkdir d mode) (ancestors (fixed_as_str b) ss))"
  using assms
proof (induction ss arbitrary: b)
  case (Cons s ss)
  define c where "c = append_path_impl fixed_ops b s"
  have "length (joined_path (fixed_as_str b) s) < fixed_capacity b"
    using path_length_ge[of ss "joined_path (fixed_as_str b) s"] Cons.prems by auto
  then have c: "fixed_as_str c = joined_path (fixed_as_str b) s" "fixed_inv c" "fixed_capacity c = fixed_capacity b"
    using fixed.append_fits[of b s] fixed.append_inv[of b s] fixed_append_capacity[of b s] Cons.prems(1)
    by (simp_all add: fixed_ops_def c_def)
  then show ?case using Cons.IH[of c] Cons.prems by (simp add: c_def [symmetric])
qed simp

section \<open>Properties\<close>

text \<open>
  \<open>mkdirs\<close> of a path shorter than its buffer makes one \<open>mkdir\<close> call per component, for every
  ancestor directory from the outermost to the path itself, and stops with an error at the first
  call that fails.
\<close>
theorem mkdirs_ancestors:
  assumes "p \<noteq> []" "length p < 4096"
  shows "mkdirs os p mode = run_calls os (map (\<lambda>d. FsMkdir d mode)
    (ancestors (if prefix ''/'' p then ''/'' else []) (filter (\<lambda>s. s \<noteq> []) (split_on (CHR ''/'') p))))"
proof -
  define ss where "ss = filter (\<lambda>s. s \<noteq> []) (split_on (CHR ''/'') p)"
  define base where "base = (if prefix ''/'' p then ''/'' else [] :: string)"
  define b where "b = (if prefix ''/'' p then append_path_impl fixed_ops (arr_new 4096) ''/'' else arr_new 4096)"
  have n: "fixed_inv (arr_new 4096)" "fixed_as_str (arr_new 4096) = []" "fixed_capacity (arr_new 4096) = 4096"
    by (simp_all add: fixed_inv_def arr_new_def fixed_as_str_def fixed_capacity_def)
  have b: "fixed_inv b" "fixed_as_str b = base" "fixed_capacity b = 4096"
    using n fixed.append_inv[OF n(1), of "''/''"] fixed.append_fits[OF n(1), of "''/''"]
      fixed_append_capacity[OF n(1), of "''/''"]
    by (auto simp: b_def base_def fixed_ops_def joined_path_def)
  have ss: "\<forall>s \<in> set ss. s \<noteq> [] \<and> CHR ''/'' \<notin> set s" by (auto simp: ss_def dest: split_on_pieces)
  have "length base + length (join_with ''/'' ss) \<le> length p"
  proof (cases "prefix ''/'' p")
    case True
    then obtain q where "p = CHR ''/'' # q" by (auto simp: prefix_def)
    then show ?thesis
      using join_filter_length[of "split_on (CHR ''/'') q"] by (simp add: ss_def base_def join_split_on)
  next
    case False
    then show ?thesis
      using join_filter_length[of "split_on (CHR ''/'') p"] by (simp add: ss_def base_def join_split_on)
  qed
  then have "path_length (fixed_as_str b) ss < fixed_capacity b"
    using assms(2) path_length_join[OF ss, of base] b by (auto simp: base_def)
  moreover have "\<forall>s \<in> set ss. \<not> prefix ''/'' s" using ss by (auto simp: prefix_def)
  ultimately have "mkdirs_loop os b ss mode = run_calls os (map (\<lambda>d. FsMkdir d mode) (ancestors base ss))"
    using mkdirs_loop_spec[OF b(1)] b(2) by simp
  then show ?thesis using assms(1) by (simp add: mkdirs_def b_def ss_def base_def Let_def)
qed

theorem mkdirs_ancestors_witness:
  "mkdirs (\<lambda>_. True) ''/data//adb'' 493 = ([FsMkdir ''/data'' 493, FsMkdir ''/data/adb'' 493], Inr ())"
  using mkdirs_ancestors[of "''/data//adb''" "\<lambda>_. True" 493]
  by (simp add: joined_path_def do_fs_def then_fs_def ends_with_def suffix_def)



end
