(* ===== verification/CpioTool.thy ===== *)
theory CpioTool
  imports Ramdisk Files
begin

text \<open>
  boot/cpio.rs, third part: extraction and the command loop of \<open>magiskboot cpio\<close>.  The argument
  parser, the XZ library and the file system are the fields of \<open>cpio_env\<close>; what a file holds may
  depend on the calls made so far.
\<close>

section \<open>Extraction\<close>

text \<open>A string copied into a default buffer of 4096 bytes.\<close>

definition in_default_buf :: "string \<Rightarrow> string" where
  "in_default_buf s = fixed_as_str (fst (fixed_push_str (arr_new 4096) s))"

definition extract_entry :: "(fs_op \<Rightarrow> bool) \<Rightarrow> cpio \<Rightarrow> string \<Rightarrow> string \<Rightarrow> unit fs" where
  "extract_entry os c path out =
     (case bt_get c path of
        None \<Rightarrow> ([], Inl LoggedError)
      | Some entry \<Rightarrow>
          then_fs (case parent_dir out of
                     Some dir \<Rightarrow> mkdirs os (in_default_buf dir) 493
                   | None \<Rightarrow> ([], Inr ())) (\<lambda>_.
          let mode = ce_mode entry AND 511;
              kind = ce_mode entry AND S_IFMT
          in if kind = S_IFDIR then do_fs os (FsMkdir out mode)
             else if kind = S_IFREG then do_fs os (FsCreate out mode (ce_data entry))
             else if kind = S_IFLNK then
               (if utf8_valid (ce_data entry)
                then do_fs os (FsSymlink out (in_default_buf (ce_data entry)))
                else ([], Inl LoggedError))
             else if kind = S_IFBLK \<or> kind = S_IFCHR then
               (if ce_rdevmajor entry < 2 ^ 32 \<and> ce_rdevminor entry < 2 ^ 32
                then ([FsMknod out (ce_mode entry) (ucast (ce_rdevmajor entry)) (ucast (ce_rdevminor entry))], Inr ())
                else ([], Inl LoggedError))
             else ([], Inl LoggedError)))"

fun extract_keys :: "(fs_op \<Rightarrow> bool) \<Rightarrow> cpio \<Rightarrow> string list \<Rightarrow> unit fs" where
  "extract_keys os c [] = ([], Inr ())"
| "extract_keys os c (path # paths) =
     (if path = ''.'' \<or> path = ''..'' then extract_keys os c paths
      else then_fs (extract_entry os c path path) (\<lambda>_. extract_keys os c paths))"

definition extract_cpio :: "(fs_op \<Rightarrow> bool) \<Rightarrow> cpio \<Rightarrow> string option \<Rightarrow> string option \<Rightarrow> unit fs" where
  "extract_cpio os c path out =
     (case (map_option norm_path path, out) of
        (Some path, Some out) \<Rightarrow> extract_entry os c path out
      | _ \<Rightarrow> extract_keys os c (map fst c))"

section \<open>Listing\<close>

text \<open>\<open>Display\<close> for an entry; the text of a size comes from the \<open>size\<close> crate.\<close>

definition mode_bit :: "u32 \<Rightarrow> u32 \<Rightarrow> string \<Rightarrow> string" where
  "mode_bit mode flag s = (if mode AND flag \<noteq> 0 then s else ''-'')"

definition fmt_entry :: "(nat \<Rightarrow> string) \<Rightarrow> cpio_entry \<Rightarrow> string" where
  "fmt_entry fmt_size e =
     (let mode = ce_mode e; kind = mode AND S_IFMT in
      (if kind = S_IFDIR then ''d'' else if kind = S_IFREG then ''-'' else if kind = S_IFLNK then ''l''
       else if kind = S_IFBLK then ''b'' else if kind = S_IFCHR then ''c'' else ''?'')
      @ mode_bit mode 256 ''r'' @ mode_bit mode 128 ''w'' @ mode_bit mode 64 ''x''
      @ mode_bit mode 32 ''r'' @ mode_bit mode 16 ''w'' @ mode_bit mode 8 ''x''
      @ mode_bit mode 4 ''r'' @ mode_bit mode 2 ''w'' @ mode_bit mode 1 ''x''
      @ [CHR 0x09] @ dec_digits (unat (ce_uid e)) @ [CHR 0x09] @ dec_digits (unat (ce_gid e))
      @ [CHR 0x09] @ fmt_size (length (ce_data e)) @ [CHR 0x09]
      @ dec_digits (unat (ce_rdevmajor e)) @ '':'' @ dec_digits (unat (ce_rdevminor e)))"

section \<open>Commands\<close>

datatype cpio_action =
    ActTest
  | ActRestore
  | ActPatch
  | ActExists string
  | ActBackup string bool
  | ActRemove string bool
  | ActMove string string
  | ActExtract "string list"
  | ActMakeDir u32 string
  | ActLink string string
  | ActAdd u32 string string
  | ActList bool string

record cpio_env =
  te_attr :: "fs_op list \<Rightarrow> string \<Rightarrow> file_attr option"
  te_read :: "fs_op list \<Rightarrow> string \<Rightarrow> bytes option"
  te_var :: "string \<Rightarrow> string option"
  te_xz_enc :: "bytes \<Rightarrow> bytes option"
  te_xz_dec :: "bytes \<Rightarrow> bytes option"
  te_os :: "fs_op \<Rightarrow> bool"
  te_args :: "string list \<Rightarrow> bool + cpio_action"

text \<open>What a run leaves behind: the calls made, the entries printed, the archive written, the result.\<close>

record cpio_out =
  out_calls :: "fs_op list"
  out_listed :: "(string \<times> cpio_entry) list"
  out_dump :: "bytes option"
  out_res :: "unit res"

datatype cpio_next = Next "fs_op list" cpio | Stop cpio_out | Diverge

definition stopped :: "fs_op list \<Rightarrow> unit res \<Rightarrow> cpio_out" where
  "stopped calls r = \<lparr>out_calls = calls, out_listed = [], out_dump = None, out_res = r\<rparr>"

definition next_of :: "fs_op list \<Rightarrow> cpio res \<Rightarrow> cpio_next" where
  "next_of calls r = (case r of Inl e \<Rightarrow> Stop (stopped calls (Inl e)) | Inr c \<Rightarrow> Next calls c)"

fun run_action :: "cpio_env \<Rightarrow> fs_op list \<Rightarrow> cpio \<Rightarrow> cpio_action \<Rightarrow> cpio_next" where
  "run_action env calls c ActTest = Stop (stopped calls (Inl (Exit (test c))))"
| "run_action env calls c ActRestore = Next calls (restore (te_xz_dec env) c)"
| "run_action env calls c ActPatch =
     (case patch (te_var env) c of None \<Rightarrow> Diverge | Some c \<Rightarrow> Next calls c)"
| "run_action env calls c (ActExists path) =
     Stop (stopped calls (if exists_entry c path then Inr () else Inl LoggedError))"
| "run_action env calls c (ActBackup origin skip_compress) =
     next_of calls (backup (te_xz_enc env) (te_read env calls origin) skip_compress c)"
| "run_action env calls c (ActRemove path recursive) = Next calls (rm c path recursive)"
| "run_action env calls c (ActMove a b) = next_of calls (mv c a b)"
| "run_action env calls c (ActMakeDir mode dir) = Next calls (mkdir c mode dir)"
| "run_action env calls c (ActLink src dst) = Next calls (ln c src dst)"
| "run_action env calls c (ActAdd mode path file) =
     next_of calls (add (te_attr env calls) (te_read env calls) c mode path file)"
| "run_action env calls c (ActExtract paths) =
     (if paths \<noteq> [] \<and> length paths \<noteq> 2 then Stop (stopped calls (Inl LoggedError))
      else
        let r = extract_cpio (te_os env) c
                  (case paths of a # _ \<Rightarrow> Some a | [] \<Rightarrow> None)
                  (case paths of _ # b # _ \<Rightarrow> Some b | _ \<Rightarrow> None)
        in next_of (calls @ fst r) (bindE (snd r) (\<lambda>_. Inr c)))"
| "run_action env calls c (ActList recursive path) =
     Stop \<lparr>out_calls = calls, out_listed = ls c path recursive, out_dump = None, out_res = Inr ()\<rparr>"

fun run_cmds :: "cpio_env \<Rightarrow> fs_op list \<Rightarrow> cpio \<Rightarrow> string list \<Rightarrow> cpio_out option" where
  "run_cmds env calls c [] =
     Some \<lparr>out_calls = calls, out_listed = [], out_dump = Some (dump c), out_res = Inr ()\<rparr>"
| "run_cmds env calls c (cmd # cmds) =
     (if prefix ''#'' cmd then run_cmds env calls c cmds
      else case te_args env (filter (\<lambda>x. x \<noteq> []) (split_on (CHR '' '') cmd)) of
        Inl is_help \<Rightarrow> Some (stopped calls (Inl (Exit (if is_help then 0 else 1))))
      | Inr action \<Rightarrow>
          (case run_action env calls c action of
             Next calls c \<Rightarrow> run_cmds env calls c cmds
           | Stop out \<Rightarrow> Some out
           | Diverge \<Rightarrow> None))"

definition open_cpio :: "cpio_env \<Rightarrow> string \<Rightarrow> cpio res" where
  "open_cpio env file =
     (if te_attr env [] file \<noteq> None
      then bindE (ok_or LoggedError (te_read env [] file)) load_from_data
      else Inr [])"

definition cpio_commands :: "cpio_env \<Rightarrow> string \<Rightarrow> string list \<Rightarrow> cpio_out option" where
  "cpio_commands env file cmds =
     (case open_cpio env file of
        Inl e \<Rightarrow> Some (stopped [] (Inl e))
      | Inr cpio \<Rightarrow> run_cmds env [] cpio cmds)"

section \<open>Lemmas\<close>

lemma bt_inv_patch_entries:
  assumes "bt_inv c" "patch_entries kv kf c = Some c'"
  shows "bt_inv c'"
proof -
  define xs where "xs = filter (\<lambda>(n, e). kv \<or> n \<noteq> ''verity_key'') c"
  have "map fst c' = map fst xs"
    using assms(2) by (auto simp: patch_entries_eq xs_def)
  moreover have "bt_inv xs" using assms(1) by (simp add: xs_def bt_inv_filter)
  ultimately show ?thesis by (simp only: bt_inv_def)
qed

lemma bt_inv_restore: "bt_inv c \<Longrightarrow> bt_inv (restore dec c)"
proof -
  assume c: "bt_inv c"
  have "bt_inv (fold (\<lambda>r c. if r \<noteq> [] then rm c r False else c) rs x)" if "bt_inv x" for rs x
    using that by (induction rs arbitrary: x) (simp_all add: bt_inv_rm)
  then show ?thesis
    using c by (simp add: restore_def Let_def case_prod_unfold bt_inv_extend bt_inv_rm bt_inv_filter)
qed

lemma bt_inv_edits:
  "bt_inv c \<Longrightarrow> bt_inv (mkdir c m p)" "bt_inv c \<Longrightarrow> bt_inv (ln c p q)"
  "bt_inv c \<Longrightarrow> mv c p q = Inr c' \<Longrightarrow> bt_inv c'"
  "bt_inv c \<Longrightarrow> add ga rf c m p q = Inr c' \<Longrightarrow> bt_inv c'"
  "bt_inv c \<Longrightarrow> backup enc x skip c = Inr c' \<Longrightarrow> bt_inv c'"
  by (auto simp: mkdir_def ln_def mv_def add_def backup_def backup_from_def Let_def bindE_eq_Inr_iff case_prod_unfold
      intro!: bt_invs bt_inv_rm split: if_splits)

lemma next_of_Next: "next_of calls r = Next calls' c' \<longleftrightarrow> r = Inr c' \<and> calls' = calls"
  by (auto simp: next_of_def split: sum.splits)

lemma run_action_inv:
  "bt_inv c \<Longrightarrow> run_action env calls c a = Next calls' c' \<Longrightarrow> bt_inv c'"
  by (cases a) (auto simp: next_of_Next bindE_eq_Inr_iff patch_def Let_def split: if_splits option.splits
      intro: bt_inv_restore bt_inv_patch_entries bt_inv_rm bt_inv_edits)

lemma run_action_no_dump: "run_action env calls c a = Stop out \<Longrightarrow> out_dump out = None"
  by (cases a) (auto simp: stopped_def next_of_def Let_def split: if_splits option.splits sum.splits)

lemma run_action_returns: "run_action env calls c a \<noteq> Diverge"
  by (cases a) (auto simp: next_of_def Let_def patch_def patch_entries_eq split: sum.splits)

lemma run_cmds_returns: "\<exists>out. run_cmds env calls c cmds = Some out"
proof (induction cmds arbitrary: calls c)
  case (Cons cmd cmds)
  then show ?case
    using run_action_returns[of env calls c] by (auto split: sum.splits cpio_next.splits)
qed simp

lemma run_cmds_dump:
  "bt_inv c \<Longrightarrow> run_cmds env calls c cmds = Some out \<Longrightarrow> out_dump out = Some bs \<Longrightarrow> \<exists>c'. bt_inv c' \<and> bs = dump c'"
proof (induction cmds arbitrary: calls c)
  case (Cons cmd cmds)
  then show ?case
    by (auto split: if_splits sum.splits cpio_next.splits dest: run_action_inv run_action_no_dump simp: stopped_def)
qed auto

text \<open>The commands that only look at the archive.\<close>

fun is_query :: "cpio_action \<Rightarrow> bool" where
  "is_query ActTest = True"
| "is_query (ActExists _) = True"
| "is_query (ActList _ _) = True"
| "is_query _ = False"

definition parsed :: "cpio_env \<Rightarrow> string \<Rightarrow> cpio_action option" where
  "parsed env cmd =
     (if prefix ''#'' cmd then None
      else case te_args env (filter (\<lambda>x. x \<noteq> []) (split_on (CHR '' '') cmd)) of Inl _ \<Rightarrow> None | Inr a \<Rightarrow> Some a)"

lemma run_query_stops: "is_query a \<Longrightarrow> \<exists>out. run_action env calls c a = Stop out"
  by (cases a) auto

lemma run_cmds_Cons:
  assumes "run_cmds env calls c (x # cmds) = Some out"
  shows "(\<exists>calls' c'. run_cmds env calls' c' cmds = Some out) \<or> out_dump out = None"
proof (cases "prefix ''#'' x")
  case True
  then show ?thesis using assms by auto
next
  case False
  note r = assms[unfolded run_cmds.simps if_not_P[OF False]]
  show ?thesis
  proof (cases "te_args env (filter (\<lambda>x. x \<noteq> []) (split_on (CHR '' '') x))")
    case (Inl h)
    then show ?thesis using r by (auto simp: stopped_def)
  next
    case (Inr a)
    then show ?thesis
      using r run_action_no_dump[of env calls c a] by (cases "run_action env calls c a") auto
  qed
qed

lemma run_cmds_query:
  "run_cmds env calls c cmds = Some out \<Longrightarrow> cmd \<in> set cmds \<Longrightarrow> parsed env cmd = Some a \<Longrightarrow> is_query a
     \<Longrightarrow> out_dump out = None"
proof (induction cmds arbitrary: calls c)
  case (Cons x cmds)
  show ?case
  proof (cases "x = cmd")
    case True
    then show ?thesis
      using Cons.prems run_query_stops[of a env calls c] run_action_no_dump[of env calls c a]
      by (auto simp: parsed_def split: if_splits sum.splits)
  next
    case False
    then have "cmd \<in> set cmds" using Cons.prems(2) by simp
    note IH = Cons.IH[OF _ this Cons.prems(3,4)]
    from run_cmds_Cons[OF Cons.prems(1)] show ?thesis by (elim disjE exE) (rule IH)
  qed
qed (simp only: list.set(1) empty_iff)

section \<open>Properties\<close>


text \<open>
  A run that contains \<open>test\<close>, \<open>exists\<close> or \<open>ls\<close> never writes the archive: edits made by the
  commands before it are lost.
\<close>
theorem cpio_query_discards_edits:
  assumes "cpio_commands env file cmds = Some out" "cmd \<in> set cmds" "parsed env cmd = Some a" "is_query a"
  shows "out_dump out = None"
proof -
  show ?thesis
    using assms(1) run_cmds_query[OF _ assms(2-4)]
    by (cases "open_cpio env file") (auto simp: cpio_commands_def stopped_def)
qed

theorem cpio_query_discards_edits_witness:
  "\<exists>out. cpio_commands \<lparr>te_attr = (\<lambda>_ _. None), te_read = (\<lambda>_ _. None), te_var = (\<lambda>_. None),
      te_xz_enc = Some, te_xz_dec = Some, te_os = (\<lambda>_. True),
      te_args = (\<lambda>ws. if ws = [''ls''] then Inr (ActList False ''/'') else Inr (ActMakeDir 0 ''d''))\<rparr>
      ''new.cpio'' [''mkdir 0 d'', ''ls''] = Some out \<and> out_dump out = None"
proof -
  let ?env = "\<lparr>te_attr = (\<lambda>_ _. None), te_read = (\<lambda>_ _. None), te_var = (\<lambda>_. None),
      te_xz_enc = Some, te_xz_dec = Some, te_os = (\<lambda>_. True),
      te_args = (\<lambda>ws. if ws = [''ls''] then Inr (ActList False ''/'') else Inr (ActMakeDir 0 ''d''))\<rparr>"
  obtain out where o: "cpio_commands ?env ''new.cpio'' [''mkdir 0 d'', ''ls''] = Some out"
    by (simp add: cpio_commands_def open_cpio_def)
  moreover have "parsed ?env ''ls'' = Some (ActList False ''/'')" by (simp add: parsed_def)
  ultimately show ?thesis
    using cpio_query_discards_edits[OF o, of "''ls''" "ActList False ''/''"] by auto
qed

end
