(* ===== verification/Chunks.thy ===== *)
theory Chunks
  imports Prelude
begin

text \<open>
  base/misc.rs: the \<open>Chunker\<close>, which cuts a stream of writes into blocks of a fixed size.  Memory
  that the code leaves uninitialised is a parameter.  A chunker stands for the bytes it holds back
  (\<open>pending\<close>); feeding it a buffer refines cutting \<open>pending @ buf\<close> into blocks.
\<close>

record chunker =
  ch_chunk :: bytes
  ch_chunk_size :: nat
  ch_pos :: nat

definition chunker_new :: "bytes \<Rightarrow> chunker" where
  "chunker_new mem = \<lparr>ch_chunk = mem, ch_chunk_size = length mem, ch_pos = 0\<rparr>"

definition set_chunk_size :: "bytes \<Rightarrow> nat \<Rightarrow> chunker \<Rightarrow> chunker" where
  "set_chunk_size mem chunk_size c =
     (let c = c\<lparr>ch_chunk_size := chunk_size, ch_pos := 0\<rparr>
      in if length (ch_chunk c) < chunk_size then c\<lparr>ch_chunk := mem\<rparr> else c)"

definition copy_into :: "bytes \<Rightarrow> nat \<Rightarrow> bytes \<Rightarrow> bytes" where
  "copy_into chunk pos src = take pos chunk @ src @ drop (pos + length src) chunk"

definition add_data :: "chunker \<Rightarrow> bytes \<Rightarrow> chunker \<times> bytes \<times> bytes option" where
  "add_data c buf =
     (if ch_pos c > 0 then
        (let len = min (ch_chunk_size c - ch_pos c) (length buf);
             c = c\<lparr>ch_chunk := copy_into (ch_chunk c) (ch_pos c) (take len buf), ch_pos := ch_pos c + len\<rparr>
         in if ch_pos c = ch_chunk_size c
            then (c\<lparr>ch_pos := 0\<rparr>, drop len buf, Some (take (ch_chunk_size c) (ch_chunk c)))
            else (c, drop len buf, None))
      else if length buf \<ge> ch_chunk_size c then
        (c, drop (ch_chunk_size c) buf, Some (take (ch_chunk_size c) buf))
      else
        (c\<lparr>ch_chunk := copy_into (ch_chunk c) (ch_pos c) buf, ch_pos := ch_pos c + length buf\<rparr>, [], None))"

definition get_available :: "chunker \<Rightarrow> chunker \<times> bytes" where
  "get_available c = (c\<lparr>ch_pos := 0\<rparr>, take (ch_pos c) (ch_chunk c))"

definition chunker_inv :: "chunker \<Rightarrow> bool" where
  "chunker_inv c \<longleftrightarrow> ch_pos c < ch_chunk_size c \<and> ch_chunk_size c \<le> length (ch_chunk c)"

definition pending :: "chunker \<Rightarrow> bytes" where
  "pending c = take (ch_pos c) (ch_chunk c)"

section \<open>One step\<close>

lemma pending_copy_into:
  assumes "ch_pos c + length s \<le> length (ch_chunk c)"
  shows "take (ch_pos c + length s) (copy_into (ch_chunk c) (ch_pos c) s) = pending c @ s"
  using assms by (simp add: copy_into_def pending_def)

lemma add_data_spec:
  assumes i: "chunker_inv c" and b: "buf \<noteq> []" and r: "add_data c buf = (c', rest, ch)"
  shows "chunker_inv c'" "ch_chunk_size c' = ch_chunk_size c" "length rest < length buf"
    and "pending c @ buf = (case ch of None \<Rightarrow> [] | Some x \<Rightarrow> x) @ pending c' @ rest"
    and "ch = Some x \<Longrightarrow> length x = ch_chunk_size c \<and> pending c' = []"
    and "ch = None \<Longrightarrow> rest = []"
proof -
  define len where "len = min (ch_chunk_size c - ch_pos c) (length buf)"
  have len: "0 < len" "len \<le> length buf" "ch_pos c + len \<le> ch_chunk_size c"
    using i b by (auto simp: len_def chunker_inv_def)
  have cap: "ch_chunk_size c \<le> length (ch_chunk c)" using i by (simp add: chunker_inv_def)
  let ?k = "copy_into (ch_chunk c) (ch_pos c) (take len buf)"
  have l: "length (take len buf) = len" using len by simp
  have k: "take (ch_pos c + len) ?k = pending c @ take len buf"
    using pending_copy_into[of c "take len buf", unfolded l] len cap by simp
  have k2: "length ?k = length (ch_chunk c)" using len cap by (simp add: copy_into_def)
  consider (full) "ch_pos c > 0" "ch_pos c + len = ch_chunk_size c"
    | (part) "ch_pos c > 0" "ch_pos c + len \<noteq> ch_chunk_size c"
    | (direct) "ch_pos c = 0" "ch_chunk_size c \<le> length buf"
    | (copy) "ch_pos c = 0" "length buf < ch_chunk_size c" by linarith
  note cases = this
  have "chunker_inv c' \<and> ch_chunk_size c' = ch_chunk_size c \<and> length rest < length buf
    \<and> pending c @ buf = (case ch of None \<Rightarrow> [] | Some x \<Rightarrow> x) @ pending c' @ rest
    \<and> (ch = Some x \<longrightarrow> length x = ch_chunk_size c \<and> pending c' = []) \<and> (ch = None \<longrightarrow> rest = [])"
    using cases
  proof cases
    case full
    then have "c' = c\<lparr>ch_chunk := ?k, ch_pos := 0\<rparr>" "rest = drop len buf" "ch = Some (take (ch_pos c + len) ?k)"
      using r by (auto simp: add_data_def len_def [symmetric] Let_def)
    then show ?thesis using full len cap k k2 i b by (auto simp: chunker_inv_def pending_def)
  next
    case part
    then have e: "c' = c\<lparr>ch_chunk := ?k, ch_pos := ch_pos c + len\<rparr>" "rest = drop len buf" "ch = None"
      using r by (auto simp: add_data_def len_def [symmetric] Let_def)
    have "len = length buf" using part len by (simp add: len_def min_def split: if_splits)
    moreover have "pending c' = pending c @ take len buf" using k by (simp add: e pending_def)
    ultimately show ?thesis using part len cap k2 b by (auto simp: e chunker_inv_def)
  next
    case direct
    then have e: "c' = c" "rest = drop (ch_chunk_size c) buf" "ch = Some (take (ch_chunk_size c) buf)"
      using r by (auto simp: add_data_def)
    then show ?thesis using direct i b by (auto simp: chunker_inv_def pending_def)
  next
    case copy
    then have e: "c' = c\<lparr>ch_chunk := copy_into (ch_chunk c) (ch_pos c) buf, ch_pos := ch_pos c + length buf\<rparr>"
        "rest = []" "ch = None"
      using r by (auto simp: add_data_def)
    then show ?thesis
      using copy cap b pending_copy_into[of c buf] by (auto simp: chunker_inv_def pending_def copy_into_def)
  qed
  then show "chunker_inv c'" "ch_chunk_size c' = ch_chunk_size c" "length rest < length buf"
    "pending c @ buf = (case ch of None \<Rightarrow> [] | Some x \<Rightarrow> x) @ pending c' @ rest"
    "ch = Some x \<Longrightarrow> length x = ch_chunk_size c \<and> pending c' = []" "ch = None \<Longrightarrow> rest = []"
    by auto
qed

section \<open>Feeding a buffer\<close>

text \<open>
  The loop of the users of a chunker: hand over the buffer until it is used up, collecting the
  blocks.  With a block size of zero it would not end.
\<close>

partial_function (option) feed :: "chunker \<Rightarrow> bytes \<Rightarrow> (chunker \<times> bytes list) option" where
  "feed c buf =
     (if buf = [] then Some (c, [])
      else case add_data c buf of (c', rest, ch) \<Rightarrow>
        Option.bind (feed c' rest) (\<lambda>(c'', chs).
          Some (c'', (case ch of None \<Rightarrow> chs | Some x \<Rightarrow> x # chs))))"

lemma feed_spec:
  assumes "chunker_inv c"
  shows "\<exists>c' chs. feed c buf = Some (c', chs) \<and> chunker_inv c' \<and> ch_chunk_size c' = ch_chunk_size c
    \<and> concat chs @ pending c' = pending c @ buf \<and> list_all (\<lambda>x. length x = ch_chunk_size c) chs"
  using assms
proof (induction "length buf" arbitrary: c buf rule: less_induct)
  case less
  show ?case
  proof (cases "buf = []")
    case True
    then show ?thesis using less.prems by (subst feed.simps) auto
  next
    case False
    obtain c1 rest ch where a: "add_data c buf = (c1, rest, ch)" by (metis prod_cases3)
    note s = add_data_spec[OF less.prems False a]
    obtain c2 chs where f: "feed c1 rest = Some (c2, chs)" "chunker_inv c2" "ch_chunk_size c2 = ch_chunk_size c"
        "concat chs @ pending c2 = pending c1 @ rest" "list_all (\<lambda>x. length x = ch_chunk_size c) chs"
      using less.hyps[OF s(3,1)] s(2) by auto
    have "feed c buf = Some (c2, case ch of None \<Rightarrow> chs | Some x \<Rightarrow> x # chs)"
      using False by (subst feed.simps) (simp add: a f(1))
    then show ?thesis using f s(4) s(5) by (cases ch) auto
  qed
qed

section \<open>Properties\<close>

text \<open>
  The chunker neither loses nor reorders bytes: feeding it any buffer ends, yields blocks of
  exactly the block size, and the blocks followed by the bytes still held back are the bytes held back
  before followed by the buffer.
\<close>
theorem chunker_feed:
  assumes "chunker_inv c"
  shows "\<exists>c' chs. feed c buf = Some (c', chs) \<and> chunker_inv c'
    \<and> concat chs @ pending c' = pending c @ buf \<and> list_all (\<lambda>x. length x = ch_chunk_size c) chs"
  using feed_spec[OF assms, of buf] by blast

theorem chunker_feed_witness:
  "\<exists>c' chs. feed (chunker_new ''????'') ''abcdefghi'' = Some (c', chs)
    \<and> concat chs @ pending c' = ''abcdefghi''"
  using chunker_feed[of "chunker_new ''????''" "''abcdefghi''"]
  by (auto simp: chunker_inv_def chunker_new_def pending_def)

end
