(* ===== verification/Compress.thy ===== *)
theory Compress
  imports Chunks
begin

text \<open>
  boot/format.rs and boot/compress.rs: the names of the file formats, and the legacy LZ4 block
  archive, which the repository encodes and decodes itself on top of a block codec.  The block codec
  (\<open>blk_enc\<close>, \<open>blk_dec\<close>) and its output bound are those of the lz4 library; the sink and the source of
  the streams are byte lists.
\<close>

section \<open>Formats\<close>

datatype file_format =
    UNKNOWN | CHROMEOS | AOSP | AOSP_VENDOR | DHTB | BLOB | GZIP | ZOPFLI | XZ | LZMA | BZIP2 | LZ4
  | LZ4_LEGACY | LZ4_LG | LZOP | MTK | DTB | ZIMAGE

definition format_from_str :: "string \<Rightarrow> file_format option" where
  "format_from_str s =
     (if s = ''gzip'' then Some GZIP
      else if s = ''zopfli'' then Some ZOPFLI
      else if s = ''xz'' then Some XZ
      else if s = ''lzma'' then Some LZMA
      else if s = ''bzip2'' then Some BZIP2
      else if s = ''lz4'' then Some LZ4
      else if s = ''lz4_legacy'' then Some LZ4_LEGACY
      else if s = ''lz4_lg'' then Some LZ4_LG
      else None)"

fun format_as_cstr :: "file_format \<Rightarrow> string" where
  "format_as_cstr GZIP = ''gzip''"
| "format_as_cstr ZOPFLI = ''zopfli''"
| "format_as_cstr LZOP = ''lzop''"
| "format_as_cstr XZ = ''xz''"
| "format_as_cstr LZMA = ''lzma''"
| "format_as_cstr BZIP2 = ''bzip2''"
| "format_as_cstr LZ4 = ''lz4''"
| "format_as_cstr LZ4_LEGACY = ''lz4_legacy''"
| "format_as_cstr LZ4_LG = ''lz4_lg''"
| "format_as_cstr DTB = ''dtb''"
| "format_as_cstr ZIMAGE = ''zimage''"
| "format_as_cstr _ = ''raw''"

fun format_ext :: "file_format \<Rightarrow> string" where
  "format_ext GZIP = ''gz''"
| "format_ext ZOPFLI = ''gz''"
| "format_ext LZOP = ''lzo''"
| "format_ext XZ = ''xz''"
| "format_ext LZMA = ''lzma''"
| "format_ext BZIP2 = ''bz2''"
| "format_ext LZ4 = ''lz4''"
| "format_ext LZ4_LEGACY = ''lz4''"
| "format_ext LZ4_LG = ''lz4''"
| "format_ext _ = []"

definition is_compressed :: "file_format \<Rightarrow> bool" where
  "is_compressed f \<longleftrightarrow> f \<in> {GZIP, ZOPFLI, XZ, LZMA, BZIP2, LZ4, LZ4_LEGACY, LZ4_LG}"

definition fmt_compressed_any :: "file_format \<Rightarrow> bool" where
  "fmt_compressed_any f \<longleftrightarrow> is_compressed f \<or> f = LZOP"

section \<open>LZ4 block encoder\<close>

definition LZ4_BLOCK_SIZE :: nat where "LZ4_BLOCK_SIZE = 0x800000"
definition LZ4_MAGIC :: nat where "LZ4_MAGIC = 0x184c2102"

record lz4_enc =
  le_write :: bytes
  le_chunker :: chunker
  le_total :: u32
  le_is_lg :: bool

definition lz4_enc_new :: "bytes \<Rightarrow> bool \<Rightarrow> lz4_enc" where
  "lz4_enc_new mem is_lg = \<lparr>le_write = [], le_chunker = chunker_new mem, le_total = 0, le_is_lg = is_lg\<rparr>"

definition encode_block :: "(bytes \<Rightarrow> bytes option) \<Rightarrow> bytes \<Rightarrow> bytes \<Rightarrow> bytes option" where
  "encode_block blk_enc out chunk =
     (case blk_enc chunk of
        None \<Rightarrow> None
      | Some z \<Rightarrow> Some (out @ le_bytes 4 (length z) @ z))"

partial_function (option) enc_loop ::
    "(bytes \<Rightarrow> bytes option) \<Rightarrow> bytes \<Rightarrow> chunker \<Rightarrow> bytes \<Rightarrow> (bytes \<times> chunker \<times> bool) option" where
  "enc_loop blk_enc out c buf =
     (if buf = [] then Some (out, c, True)
      else case add_data c buf of (c', rest, ch) \<Rightarrow>
        (case ch of
           None \<Rightarrow> enc_loop blk_enc out c' rest
         | Some x \<Rightarrow>
             (case encode_block blk_enc out x of
                None \<Rightarrow> Some (out, c', False)
              | Some out' \<Rightarrow> enc_loop blk_enc out' c' rest)))"

definition lz4_write_all :: "(bytes \<Rightarrow> bytes option) \<Rightarrow> lz4_enc \<Rightarrow> bytes \<Rightarrow> (lz4_enc \<times> bool) option" where
  "lz4_write_all blk_enc e buf =
     (let out = (if le_total e = 0 then le_write e @ le_bytes 4 LZ4_MAGIC else le_write e);
          e = e\<lparr>le_total := le_total e + of_nat (length buf)\<rparr>
      in case enc_loop blk_enc out (le_chunker e) buf of
           None \<Rightarrow> None
         | Some (out, c, ok) \<Rightarrow> Some (e\<lparr>le_write := out, le_chunker := c\<rparr>, ok))"

definition lz4_finish :: "(bytes \<Rightarrow> bytes option) \<Rightarrow> lz4_enc \<Rightarrow> bytes option" where
  "lz4_finish blk_enc e =
     (let (c, chunk) = get_available (le_chunker e);
          out = (if chunk \<noteq> [] then encode_block blk_enc (le_write e) chunk else Some (le_write e))
      in case out of
           None \<Rightarrow> None
         | Some out \<Rightarrow> Some (if le_is_lg e then out @ le_bytes 4 (unat (le_total e)) else out))"

text \<open>\<open>std::io::copy\<close> into the encoder, one \<open>write_all\<close> per buffer read, then \<open>finish\<close>.\<close>

fun lz4_compress :: "(bytes \<Rightarrow> bytes option) \<Rightarrow> lz4_enc \<Rightarrow> bytes list \<Rightarrow> bytes option option" where
  "lz4_compress blk_enc e [] = Some (lz4_finish blk_enc e)"
| "lz4_compress blk_enc e (w # ws) =
     (case lz4_write_all blk_enc e w of
        None \<Rightarrow> None
      | Some (e, ok) \<Rightarrow> if ok then lz4_compress blk_enc e ws else Some None)"

section \<open>LZ4 block decoder\<close>

text \<open>The unread input, and the part \<open>out_buf[out_pos..out_len]\<close> of the last block not yet handed out.\<close>

record lz4_dec =
  ld_in :: bytes
  ld_out :: bytes

definition read_block :: "(bytes \<Rightarrow> bytes option) \<Rightarrow> nat \<Rightarrow> nat \<Rightarrow> bytes \<Rightarrow> lz4_dec option res" where
  "read_block blk_dec in_len block_size inp =
     (if block_size > in_len then Inr None
      else
        let block = take block_size inp in
        if block = [] then Inr None
        else if length block \<noteq> block_size then Inl LoggedError
        else case blk_dec block of
          None \<Rightarrow> Inl LoggedError
        | Some d \<Rightarrow> Inr (Some \<lparr>ld_in = drop block_size inp, ld_out = d\<rparr>))"

definition lz4_fill :: "(bytes \<Rightarrow> bytes option) \<Rightarrow> nat \<Rightarrow> bytes \<Rightarrow> lz4_dec option res" where
  "lz4_fill blk_dec in_len inp =
     (if length inp < 4 then Inr None
      else
        let block_size = of_le (take 4 inp); inp = drop 4 inp in
        if block_size = LZ4_MAGIC then
          (if length inp < 4 then Inl LoggedError
           else read_block blk_dec in_len (of_le (take 4 inp)) (drop 4 inp))
        else read_block blk_dec in_len block_size inp)"

definition lz4_read :: "(bytes \<Rightarrow> bytes option) \<Rightarrow> nat \<Rightarrow> lz4_dec \<Rightarrow> nat \<Rightarrow> (bytes \<times> lz4_dec) res" where
  "lz4_read blk_dec in_len d n =
     bindE (if ld_out d = [] then lz4_fill blk_dec in_len (ld_in d) else Inr (Some d)) (\<lambda>r.
     case r of
       None \<Rightarrow> Inr ([], d)
     | Some d \<Rightarrow>
         let copy_len = min n (length (ld_out d))
         in Inr (take copy_len (ld_out d), d\<lparr>ld_out := drop copy_len (ld_out d)\<rparr>))"

lemma read_block_shrinks: "read_block blk_dec in_len k inp = Inr (Some d) \<Longrightarrow> length (ld_in d) \<le> length inp"
  by (auto simp: read_block_def Let_def split: if_splits option.splits)

lemma lz4_fill_shrinks: "lz4_fill blk_dec in_len inp = Inr (Some d) \<Longrightarrow> length (ld_in d) < length inp"
  by (auto simp: lz4_fill_def Let_def split: if_splits dest!: read_block_shrinks)

lemma lz4_read_shrinks:
  assumes "lz4_read blk_dec in_len d n = Inr (bs, d')" "bs \<noteq> []"
  shows "length (ld_in d') < length (ld_in d) \<or> ld_in d' = ld_in d \<and> length (ld_out d') < length (ld_out d)"
proof (cases "ld_out d = []")
  case True
  then obtain r where "lz4_fill blk_dec in_len (ld_in d) = Inr (Some r)" "ld_in d' = ld_in r"
    using assms by (auto simp: lz4_read_def bindE_eq_Inr_iff Let_def split: option.splits)
  then show ?thesis using lz4_fill_shrinks by metis
next
  case False
  then show ?thesis using assms by (auto simp: lz4_read_def Let_def)
qed

function copy_all :: "(bytes \<Rightarrow> bytes option) \<Rightarrow> nat \<Rightarrow> nat \<Rightarrow> lz4_dec \<Rightarrow> bytes \<Rightarrow> bytes res" where
  "copy_all blk_dec in_len n d acc =
     (case lz4_read blk_dec in_len d n of
        Inl e \<Rightarrow> Inl e
      | Inr (bs, d') \<Rightarrow> if bs = [] then Inr acc else copy_all blk_dec in_len n d' (acc @ bs))"
  by pat_completeness auto
termination
  by (relation "measures [\<lambda>(_, _, _, d, _). length (ld_in d), \<lambda>(_, _, _, d, _). length (ld_out d)]")
     (auto dest: lz4_read_shrinks)

declare copy_all.simps [simp del]

definition lz4_decompress :: "(bytes \<Rightarrow> bytes option) \<Rightarrow> nat \<Rightarrow> nat \<Rightarrow> bytes \<Rightarrow> bytes res" where
  "lz4_decompress blk_dec in_len n inp = copy_all blk_dec in_len n \<lparr>ld_in = inp, ld_out = []\<rparr> []"

section \<open>The encoder writes an archive\<close>

text \<open>What the lz4 library promises of its block codec, for blocks of at most \<open>LZ4_BLOCK_SIZE\<close> bytes.\<close>

definition block_codec :: "(bytes \<Rightarrow> bytes option) \<Rightarrow> (bytes \<Rightarrow> bytes option) \<Rightarrow> nat \<Rightarrow> bool" where
  "block_codec enc dec bound \<longleftrightarrow>
     (\<forall>b. b \<noteq> [] \<and> length b \<le> LZ4_BLOCK_SIZE \<longrightarrow>
        (\<exists>z. enc b = Some z \<and> dec z = Some b \<and> 0 < length z \<and> length z \<le> bound))"

definition block_ok :: "bytes \<Rightarrow> bool" where
  "block_ok b \<longleftrightarrow> b \<noteq> [] \<and> length b \<le> LZ4_BLOCK_SIZE"

definition blocks :: "(bytes \<Rightarrow> bytes option) \<Rightarrow> bytes list \<Rightarrow> bytes" where
  "blocks enc bs = concat (map (\<lambda>b. le_bytes 4 (length (the (enc b))) @ the (enc b)) bs)"

lemma blocks_simps [simp]: "blocks enc [] = []" "blocks enc (bs @ cs) = blocks enc bs @ blocks enc cs"
  "blocks enc (b # bs) = le_bytes 4 (length (the (enc b))) @ the (enc b) @ blocks enc bs"
  by (simp_all add: blocks_def)

lemma encode_block_ok:
  "block_codec enc dec bound \<Longrightarrow> block_ok b \<Longrightarrow> encode_block enc out b = Some (out @ blocks enc [b])"
  by (auto simp: block_codec_def block_ok_def encode_block_def)

lemma enc_loop_spec:
  assumes "block_codec enc dec bound" "chunker_inv c" "ch_chunk_size c = LZ4_BLOCK_SIZE"
  shows "\<exists>c' bs. enc_loop enc out c buf = Some (out @ blocks enc bs, c', True)
    \<and> chunker_inv c' \<and> ch_chunk_size c' = LZ4_BLOCK_SIZE \<and> list_all block_ok bs
    \<and> concat bs @ pending c' = pending c @ buf"
  using assms(2,3)
proof (induction "length buf" arbitrary: c buf out rule: less_induct)
  case less
  show ?case
  proof (cases "buf = []")
    case True
    then show ?thesis using less.prems by (subst enc_loop.simps) (auto intro!: exI[of _ "[]"])
  next
    case False
    obtain c1 rest ch where a: "add_data c buf = (c1, rest, ch)" by (metis prod_cases3)
    note s = add_data_spec[OF less.prems(1) False a]
    define b1 where "b1 = (case ch of None \<Rightarrow> [] | Some x \<Rightarrow> [x])"
    have ok: "list_all block_ok b1"
      using s(5) less.prems by (cases ch) (auto simp: b1_def block_ok_def chunker_inv_def)
    obtain c2 bs where f: "enc_loop enc (out @ blocks enc b1) c1 rest = Some ((out @ blocks enc b1) @ blocks enc bs, c2, True)"
        "chunker_inv c2" "ch_chunk_size c2 = LZ4_BLOCK_SIZE" "list_all block_ok bs"
        "concat bs @ pending c2 = pending c1 @ rest"
      using less.hyps[OF s(3,1), of "out @ blocks enc b1"] s(2) less.prems(2) by auto
    have "enc_loop enc out c buf = enc_loop enc (out @ blocks enc b1) c1 rest"
      using False ok encode_block_ok[OF assms(1), of _ out]
      by (subst enc_loop.simps) (cases ch; simp add: a b1_def)
    then have "enc_loop enc out c buf = Some (out @ blocks enc (b1 @ bs), c2, True)" using f(1) by simp
    moreover have "concat (b1 @ bs) @ pending c2 = pending c @ buf"
      using s(4) f(5) by (cases ch) (simp_all add: b1_def)
    ultimately show ?thesis using f(2-4) ok by (intro exI[of _ c2] exI[of _ "b1 @ bs"]) simp
  qed
qed

definition lz4_archive :: "(bytes \<Rightarrow> bytes option) \<Rightarrow> bool \<Rightarrow> bytes list \<Rightarrow> bytes" where
  "lz4_archive enc lg bs =
     (if concat bs = [] then [] else le_bytes 4 LZ4_MAGIC) @ blocks enc bs
     @ (if lg then le_bytes 4 (length (concat bs)) else [])"

definition enc_inv :: "(bytes \<Rightarrow> bytes option) \<Rightarrow> lz4_enc \<Rightarrow> bytes \<Rightarrow> bool" where
  "enc_inv enc e data \<longleftrightarrow> chunker_inv (le_chunker e) \<and> ch_chunk_size (le_chunker e) = LZ4_BLOCK_SIZE
     \<and> le_total e = of_nat (length data)
     \<and> (\<exists>bs. list_all block_ok bs \<and> concat bs @ pending (le_chunker e) = data
          \<and> le_write e = (if data = [] then [] else le_bytes 4 LZ4_MAGIC) @ blocks enc bs)"

lemma unat_of_nat_u32: "n < 2 ^ 32 \<Longrightarrow> unat (of_nat n :: u32) = n"
  by (simp add: unsigned_of_nat take_bit_nat_eq_self)

lemma u32_of_nat_eq_0: "n < 2 ^ 32 \<Longrightarrow> (of_nat n :: u32) = 0 \<longleftrightarrow> n = 0"
proof
  assume n: "n < 2 ^ 32" and "(of_nat n :: u32) = 0"
  then have "unat (of_nat n :: u32) = 0" by simp
  then show "n = 0" using unat_of_nat_u32[OF n] by simp
qed simp

lemma lz4_write_all_inv:
  assumes "block_codec enc dec bound" "enc_inv enc e data" "w \<noteq> []" "length data + length w < 2 ^ 32"
  shows "\<exists>e'. lz4_write_all enc e w = Some (e', True) \<and> enc_inv enc e' (data @ w) \<and> le_is_lg e' = le_is_lg e"
proof -
  obtain bs where bs: "list_all block_ok bs" "concat bs @ pending (le_chunker e) = data"
      "le_write e = (if data = [] then [] else le_bytes 4 LZ4_MAGIC) @ blocks enc bs"
    using assms(2) by (auto simp: enc_inv_def)
  have t: "le_total e = 0 \<longleftrightarrow> data = []"
    using assms(2,4) u32_of_nat_eq_0[of "length data"] by (simp add: enc_inv_def)
  have "bs = []" if "data = []" using bs(1,2) that by (cases bs) (auto simp: block_ok_def)
  then have out: "(if le_total e = 0 then le_write e @ le_bytes 4 LZ4_MAGIC else le_write e)
      = le_bytes 4 LZ4_MAGIC @ blocks enc bs"
    using t bs(3) by auto
  obtain c' cs where l: "enc_loop enc (le_bytes 4 LZ4_MAGIC @ blocks enc bs) (le_chunker e) w
        = Some ((le_bytes 4 LZ4_MAGIC @ blocks enc bs) @ blocks enc cs, c', True)"
      "chunker_inv c'" "ch_chunk_size c' = LZ4_BLOCK_SIZE" "list_all block_ok cs"
      "concat cs @ pending c' = pending (le_chunker e) @ w"
    using enc_loop_spec[OF assms(1), of "le_chunker e" "le_bytes 4 LZ4_MAGIC @ blocks enc bs" w] assms(2)
    by (auto simp: enc_inv_def)
  have "concat (bs @ cs) @ pending c' = data @ w" using bs(2) l(5) by (simp flip: append_assoc) (simp flip: bs(2))
  then show ?thesis
    using l bs(1) assms(2,3) unfolding lz4_write_all_def Let_def out
    by (auto simp: enc_inv_def intro!: exI[of _ "bs @ cs"])
qed

lemma lz4_compress_archive:
  assumes "block_codec enc dec bound" "enc_inv enc e data" "list_all (\<lambda>w. w \<noteq> []) ws"
    and "length data + length (concat ws) < 2 ^ 32"
  shows "\<exists>bs. lz4_compress enc e ws = Some (Some (lz4_archive enc (le_is_lg e) bs))
    \<and> list_all block_ok bs \<and> concat bs = data @ concat ws"
  using assms(2-)
proof (induction ws arbitrary: e data)
  case Nil
  obtain bs where bs: "list_all block_ok bs" "concat bs @ pending (le_chunker e) = data"
      "le_write e = (if data = [] then [] else le_bytes 4 LZ4_MAGIC) @ blocks enc bs"
    using Nil by (auto simp: enc_inv_def)
  define l where "l = (if pending (le_chunker e) = [] then [] else [pending (le_chunker e)])"
  have t: "unat (le_total e) = length data"
    using Nil by (simp add: enc_inv_def unat_of_nat_u32)
  have l: "list_all block_ok l"
    using Nil(1) by (auto simp: l_def block_ok_def enc_inv_def chunker_inv_def pending_def)
  have c: "concat (bs @ l) = data" using bs(2) by (auto simp: l_def)
  have "lz4_finish enc e = Some (lz4_archive enc (le_is_lg e) (bs @ l))"
    using encode_block_ok[OF assms(1), of "pending (le_chunker e)"] l c bs(3) t
    unfolding lz4_archive_def c
    by (simp add: lz4_finish_def get_available_def pending_def [symmetric] l_def split: if_splits)
  then show ?case using bs(1) l c by (intro exI[of _ "bs @ l"]) simp
next
  case (Cons w ws)
  obtain e' where e': "lz4_write_all enc e w = Some (e', True)" "enc_inv enc e' (data @ w)" "le_is_lg e' = le_is_lg e"
    using lz4_write_all_inv[OF assms(1) Cons.prems(1), of w] Cons.prems(2,3) by auto
  show ?case using Cons.IH[OF e'(2)] Cons.prems(2,3) e'(1,3) by simp
qed

section \<open>The decoder reads it back\<close>

lemma read_block_ok:
  assumes "block_codec enc dec bound" "block_ok b"
  shows "read_block dec bound (length (the (enc b))) (the (enc b) @ rest) = Inr (Some \<lparr>ld_in = rest, ld_out = b\<rparr>)"
  using assms by (auto simp: read_block_def Let_def block_codec_def block_ok_def)

lemma enc_block_length:
  assumes "block_codec enc dec bound" "block_ok b" "bound < LZ4_MAGIC"
  shows "length (the (enc b)) \<noteq> LZ4_MAGIC" "length (the (enc b)) < 256 ^ 4"
  using assms by (auto simp: block_codec_def block_ok_def LZ4_MAGIC_def)

lemma lz4_fill_block:
  assumes "block_codec enc dec bound" "block_ok b" "bound < LZ4_MAGIC"
  shows "lz4_fill dec bound (blocks enc (b # bs) @ rest) = Inr (Some \<lparr>ld_in = blocks enc bs @ rest, ld_out = b\<rparr>)"
    and "lz4_fill dec bound (le_bytes 4 LZ4_MAGIC @ blocks enc (b # bs) @ rest)
      = Inr (Some \<lparr>ld_in = blocks enc bs @ rest, ld_out = b\<rparr>)"
  using read_block_ok[OF assms(1,2)] enc_block_length[OF assms]
  by (simp_all add: lz4_fill_def Let_def, simp add: LZ4_MAGIC_def)

lemma copy_drain:
  assumes "0 < n" "b \<noteq> []"
  shows "copy_all dec k n \<lparr>ld_in = inp, ld_out = b\<rparr> acc = copy_all dec k n \<lparr>ld_in = inp, ld_out = []\<rparr> (acc @ b)"
  using assms(2)
proof (induction "length b" arbitrary: b acc rule: less_induct)
  case less
  have s: "copy_all dec k n \<lparr>ld_in = inp, ld_out = b\<rparr> acc
      = copy_all dec k n \<lparr>ld_in = inp, ld_out = drop (min n (length b)) b\<rparr> (acc @ take (min n (length b)) b)"
    using less.prems assms(1) by (subst copy_all.simps) (auto simp: lz4_read_def Let_def min_def)
  show ?case
  proof (cases "length b \<le> n")
    case True
    then show ?thesis using s by simp
  next
    case False
    then show ?thesis
      using s less.hyps[of "drop n b" "acc @ take n b"] assms(1) by simp
  qed
qed

lemma copy_fill:
  assumes "0 < n" "b \<noteq> []" "lz4_fill dec k inp = Inr (Some \<lparr>ld_in = inp', ld_out = b\<rparr>)"
  shows "copy_all dec k n \<lparr>ld_in = inp, ld_out = []\<rparr> acc = copy_all dec k n \<lparr>ld_in = inp', ld_out = []\<rparr> (acc @ b)"
proof -
  have "copy_all dec k n \<lparr>ld_in = inp, ld_out = []\<rparr> acc = copy_all dec k n \<lparr>ld_in = inp', ld_out = b\<rparr> acc"
    by (subst (1 2) copy_all.simps) (simp add: lz4_read_def assms(2,3))
  then show ?thesis using copy_drain[OF assms(1,2)] by simp
qed

lemma copy_blocks:
  assumes "block_codec enc dec bound" "bound < LZ4_MAGIC" "0 < n" "list_all block_ok bs"
  shows "copy_all dec bound n \<lparr>ld_in = blocks enc bs @ tail, ld_out = []\<rparr> acc
    = copy_all dec bound n \<lparr>ld_in = tail, ld_out = []\<rparr> (acc @ concat bs)"
  using assms(4)
proof (induction bs arbitrary: acc)
  case (Cons b bs)
  then have b: "block_ok b" "b \<noteq> []" by (auto simp: block_ok_def)
  show ?case
    using copy_fill[OF assms(3) b(2) lz4_fill_block(1)[OF assms(1) b(1) assms(2)]] Cons by simp
qed simp

lemma decompress_archive:
  assumes "block_codec enc dec bound" "bound < LZ4_MAGIC" "0 < n" "list_all block_ok bs"
  shows "lz4_decompress dec bound n (lz4_archive enc lg bs)
    = copy_all dec bound n \<lparr>ld_in = if lg then le_bytes 4 (length (concat bs)) else [], ld_out = []\<rparr> (concat bs)"
proof (cases bs)
  case Nil
  then show ?thesis by (simp add: lz4_decompress_def lz4_archive_def)
next
  case (Cons b rest)
  define tail where "tail = (if lg then le_bytes 4 (length (concat bs)) else [])"
  have b: "block_ok b" "b \<noteq> []" "list_all block_ok rest" using assms(4) Cons by (auto simp: block_ok_def)
  have a: "lz4_archive enc lg bs = le_bytes 4 LZ4_MAGIC @ blocks enc (b # rest) @ tail"
    using b(2) Cons by (simp add: lz4_archive_def tail_def)
  show ?thesis
    unfolding lz4_decompress_def a copy_fill[OF assms(3) b(2) lz4_fill_block(2)[OF assms(1) b(1) assms(2)]]
    using copy_blocks[OF assms(1-3) b(3), of tail b] Cons by (simp add: tail_def)
qed

lemma trailer_fill:
  assumes "lg \<Longrightarrow> t < 2 ^ 32 \<and> t \<noteq> LZ4_MAGIC"
  shows "lz4_fill dec bound (if lg then le_bytes 4 t else []) = Inr None"
  using assms by (auto simp: lz4_fill_def read_block_def Let_def)

section \<open>Properties\<close>

text \<open>
  C10. The LZ4 block archive round trip, for both variants of the format: whatever non-empty buffers
  are written to the encoder, of less than 4 GiB in all, the encoder returns an archive, and copying
  from the decoder (with any read size) returns the concatenation of the buffers.  For the LG variant
  the total must not be the number that is also the magic of the format.
\<close>
theorem lz4_roundtrip:
  assumes "block_codec enc dec bound" "bound < LZ4_MAGIC" "length mem = LZ4_BLOCK_SIZE" "0 < n"
    and "list_all (\<lambda>w. w \<noteq> []) ws" "length (concat ws) < 2 ^ 32"
    and "lg \<Longrightarrow> length (concat ws) \<noteq> LZ4_MAGIC"
  shows "\<exists>z. lz4_compress enc (lz4_enc_new mem lg) ws = Some (Some z)
    \<and> lz4_decompress dec bound n z = Inr (concat ws)"
proof -
  have "enc_inv enc (lz4_enc_new mem lg) []"
    using assms(3) by (simp add: enc_inv_def lz4_enc_new_def chunker_new_def chunker_inv_def pending_def
        LZ4_BLOCK_SIZE_def exI[of _ "[]"])
  from lz4_compress_archive[OF assms(1) this assms(5)] assms(6) obtain bs where
    z: "lz4_compress enc (lz4_enc_new mem lg) ws = Some (Some (lz4_archive enc lg bs))"
    and bs: "list_all block_ok bs" "concat bs = concat ws"
    by (auto simp: lz4_enc_new_def)
  have tail: "lz4_fill dec bound (if lg then le_bytes 4 (length (concat bs)) else []) = Inr None"
    by (rule trailer_fill) (use assms(6,7) bs(2) in auto)
  have "copy_all dec bound n \<lparr>ld_in = if lg then le_bytes 4 (length (concat bs)) else [], ld_out = []\<rparr> (concat bs)
      = Inr (concat bs)"
    by (subst copy_all.simps) (simp add: lz4_read_def tail del: length_concat)
  then show ?thesis using z bs decompress_archive[OF assms(1,2,4) bs(1), of lg] by simp
qed

theorem lz4_roundtrip_witness:
  "\<exists>z. lz4_compress Some (lz4_enc_new (replicate LZ4_BLOCK_SIZE NUL) True) [''boot'', ''img''] = Some (Some z)
    \<and> lz4_decompress Some LZ4_BLOCK_SIZE 8192 z = Inr ''bootimg''"
  using lz4_roundtrip[of Some Some LZ4_BLOCK_SIZE "replicate LZ4_BLOCK_SIZE NUL" 8192 "[''boot'', ''img'']" True]
  by (simp add: block_codec_def LZ4_MAGIC_def LZ4_BLOCK_SIZE_def)

text \<open>
  An LG archive of exactly 0x184c2102 bytes cannot be read back: the decoder takes the total at
  its end for the magic and reports an error.
\<close>
theorem lz4_lg_magic_total_fails:
  assumes "block_codec enc dec bound" "bound < LZ4_MAGIC" "0 < n" "list_all block_ok bs"
    and "length (concat bs) = LZ4_MAGIC"
  shows "lz4_decompress dec bound n (lz4_archive enc True bs) = Inl LoggedError"
proof -
  have "lz4_fill dec bound (le_bytes 4 LZ4_MAGIC) = Inl LoggedError"
    by (simp add: lz4_fill_def Let_def LZ4_MAGIC_def)
  then show ?thesis
    unfolding decompress_archive[OF assms(1-4)] assms(5) if_True
    by (subst copy_all.simps) (simp add: lz4_read_def)
qed

theorem lz4_lg_magic_total_fails_witness:
  "lz4_decompress Some LZ4_BLOCK_SIZE 8192 (lz4_archive Some True
     (replicate 48 (replicate LZ4_BLOCK_SIZE NUL) @ [replicate 4989186 NUL])) = Inl LoggedError"
  by (rule lz4_lg_magic_total_fails)
     (simp_all add: block_codec_def LZ4_MAGIC_def LZ4_BLOCK_SIZE_def block_ok_def length_concat sum_list_replicate list_all_iff)

text \<open>
  A name printed for a format that can be compressed to is read back as that format, and the
  names of all other formats are rejected.
\<close>
theorem format_name_roundtrip:
  "format_from_str (format_as_cstr f) = (if is_compressed f then Some f else None)"
  by (cases f) (simp_all add: format_from_str_def is_compressed_def)

end
