(* ===== verification/Dir.thy ===== *)
theory Dir
  imports Files
begin

text \<open>
  Directory trees (base/dir.rs).  A directory is the list of its entries in the order \<open>readdir\<close> gives
  them; \<open>'a\<close> is what \<open>stat\<close> tells of a file.  A walk threads the state \<open>'s\<close> of its callback and
  passes it the directory and the entry; which directories can be opened is a parameter.
\<close>

section \<open>Trees and walks\<close>

datatype 'a node =
    NDir 'a "(string \<times> 'a node) list"
  | NFile 'a bytes
  | NLink 'a string
  | NOther 'a

type_synonym 'a entries = "(string \<times> 'a node) list"

datatype walk_result = Continue | Abort | Skip

fun is_dir :: "'a node \<Rightarrow> bool" where
  "is_dir (NDir a es) \<longleftrightarrow> True"
| "is_dir _ \<longleftrightarrow> False"

text \<open>\<open>Directory::read\<close> passes over entries whose name is not UTF-8, \<open>.\<close> and \<open>..\<close>.\<close>

definition readable :: "string \<Rightarrow> bool" where
  "readable name \<longleftrightarrow> utf8_valid name \<and> name \<noteq> ''.'' \<and> name \<noteq> ''..''"

type_synonym ('a, 's) visitor = "'s \<Rightarrow> string list \<Rightarrow> string \<times> 'a node \<Rightarrow> 's \<times> walk_result res"

fun post_order_walk_impl :: "(string list \<Rightarrow> bool) \<Rightarrow> ('a, 's) visitor \<Rightarrow> 's \<Rightarrow> string list \<Rightarrow> 'a entries \<Rightarrow> 's \<times> walk_result res" where
  "post_order_walk_impl opens f s p [] = (s, Inr Continue)"
| "post_order_walk_impl opens f s p ((n, x) # es) =
     (if \<not> readable n then post_order_walk_impl opens f s p es
      else
        case (case x of
                NDir a sub \<Rightarrow>
                  if opens (p @ [n]) then post_order_walk_impl opens f s (p @ [n]) sub
                  else (s, Inl LoggedError)
              | _ \<Rightarrow> (s, Inr Continue)) of
          (s, Inl e) \<Rightarrow> (s, Inl e)
        | (s, Inr Abort) \<Rightarrow> (s, Inr Abort)
        | (s, Inr _) \<Rightarrow>
            (case f s p (n, x) of
               (s, Inl e) \<Rightarrow> (s, Inl e)
             | (s, Inr Abort) \<Rightarrow> (s, Inr Abort)
             | (s, Inr Skip) \<Rightarrow> (s, Inr Continue)
             | (s, Inr Continue) \<Rightarrow> post_order_walk_impl opens f s p es))"

fun pre_order_walk_impl :: "(string list \<Rightarrow> bool) \<Rightarrow> ('a, 's) visitor \<Rightarrow> 's \<Rightarrow> string list \<Rightarrow> 'a entries \<Rightarrow> 's \<times> walk_result res" where
  "pre_order_walk_impl opens f s p [] = (s, Inr Continue)"
| "pre_order_walk_impl opens f s p ((n, x) # es) =
     (if \<not> readable n then pre_order_walk_impl opens f s p es
      else
        case f s p (n, x) of
          (s, Inl e) \<Rightarrow> (s, Inl e)
        | (s, Inr Abort) \<Rightarrow> (s, Inr Abort)
        | (s, Inr Skip) \<Rightarrow> pre_order_walk_impl opens f s p es
        | (s, Inr Continue) \<Rightarrow>
            (case (case x of
                     NDir a sub \<Rightarrow>
                       if opens (p @ [n]) then pre_order_walk_impl opens f s (p @ [n]) sub
                       else (s, Inl LoggedError)
                   | _ \<Rightarrow> (s, Inr Continue)) of
               (s, Inl e) \<Rightarrow> (s, Inl e)
             | (s, Inr Abort) \<Rightarrow> (s, Inr Abort)
             | (s, Inr _) \<Rightarrow> pre_order_walk_impl opens f s p es))"

section \<open>Removing a tree\<close>

text \<open>
  The state of a removal are the paths that are left.  A directory can be unlinked when nothing is
  left below it.
\<close>

definition unlink :: "string list list \<Rightarrow> string list \<Rightarrow> 'a node \<Rightarrow> string list list \<times> unit res" where
  "unlink left path x =
     (if path \<notin> set left then (left, Inl LoggedError)
      else if is_dir x \<and> list_ex (\<lambda>q. strict_prefix path q) left then (left, Inl LoggedError)
      else (filter (\<lambda>q. q \<noteq> path) left, Inr ()))"

definition remove_visit :: "('a, string list list) visitor" where
  "remove_visit left p = (\<lambda>(n, x).
     let (left, r) = unlink left (p @ [n]) x in (left, bindE r (\<lambda>_. Inr Continue)))"

definition remove_all_in :: "(string list \<Rightarrow> bool) \<Rightarrow> string list list \<Rightarrow> 'a entries \<Rightarrow> string list list \<times> unit res" where
  "remove_all_in opens left es =
     (let (left, r) = post_order_walk_impl opens remove_visit left [] es
      in (left, bindE r (\<lambda>_. Inr ())))"

section \<open>Paths of a tree\<close>

fun tree_paths :: "string list \<Rightarrow> 'a entries \<Rightarrow> string list list" where
  "tree_paths p [] = []"
| "tree_paths p ((n, x) # es) =
     (p @ [n]) # (case x of NDir a sub \<Rightarrow> tree_paths (p @ [n]) sub | _ \<Rightarrow> []) @ tree_paths p es"

fun tree_ok :: "'a entries \<Rightarrow> bool" where
  "tree_ok [] \<longleftrightarrow> True"
| "tree_ok ((n, x) # es) \<longleftrightarrow>
     n \<notin> fst ` set es \<and> readable n \<and> (case x of NDir a sub \<Rightarrow> tree_ok sub | _ \<Rightarrow> True) \<and> tree_ok es"

lemma tree_paths_below: "q \<in> set (tree_paths p es) \<Longrightarrow> \<exists>n \<in> fst ` set es. prefix (p @ [n]) q"
proof (induction p es rule: tree_paths.induct)
  case (2 p n x es)
  have *: "x = NDir a sub \<Longrightarrow> q \<in> set (tree_paths (p @ [n]) sub) \<Longrightarrow> prefix (p @ [n]) q" for a sub
    using 2(1)[of a sub] append_prefixD[of "p @ [n]" _ q] by blast
  show ?case using 2(2,3) * by (cases x) auto
qed simp

lemma prefix_name: "prefix (p @ [n]) q \<Longrightarrow> prefix (p @ [m]) q \<Longrightarrow> n = m"
  by (auto simp: prefix_def)

text \<open>What is left below the entries of a directory: exactly their paths.\<close>

definition covers :: "string list list \<Rightarrow> string list \<Rightarrow> 'a entries \<Rightarrow> bool" where
  "covers left p es \<longleftrightarrow>
     {q \<in> set left. \<exists>n \<in> fst ` set es. prefix (p @ [n]) q} = set (tree_paths p es)"

lemma covers_sub:
  assumes "covers left p ((n, NDir a sub) # es)" "n \<notin> fst ` set es"
  shows "covers left (p @ [n]) sub"
proof -
  have "q \<in> set left \<and> (\<exists>m \<in> fst ` set sub. prefix ((p @ [n]) @ [m]) q) \<longleftrightarrow> q \<in> set (tree_paths (p @ [n]) sub)" for q
  proof
    assume q: "q \<in> set left \<and> (\<exists>m \<in> fst ` set sub. prefix ((p @ [n]) @ [m]) q)"
    then obtain m where "prefix ((p @ [n]) @ [m]) q" by blast
    then have pn: "prefix (p @ [n]) q" "q \<noteq> p @ [n]" using append_prefixD[of "p @ [n]" "[m]" q] by auto
    then have "q \<in> set (tree_paths p ((n, NDir a sub) # es))"
      using assms(1) q unfolding covers_def by auto
    moreover have "q \<notin> set (tree_paths p es)"
      using tree_paths_below[of q p es] prefix_name[OF pn(1)] assms(2) by auto
    ultimately show "q \<in> set (tree_paths (p @ [n]) sub)" using pn(2) by simp
  next
    assume q: "q \<in> set (tree_paths (p @ [n]) sub)"
    then have "q \<in> set (tree_paths p ((n, NDir a sub) # es))" by simp
    then have "q \<in> set left" using assms(1) unfolding covers_def by blast
    then show "q \<in> set left \<and> (\<exists>m \<in> fst ` set sub. prefix ((p @ [n]) @ [m]) q)"
      using tree_paths_below[OF q] by simp
  qed
  then show ?thesis unfolding covers_def by blast
qed

lemma covers_rest:
  assumes "covers left p ((n, x) # es)" "n \<notin> fst ` set es"
  shows "covers (filter (\<lambda>q. \<not> prefix (p @ [n]) q) left) p es"
proof -
  have "q \<in> set left \<and> \<not> prefix (p @ [n]) q \<and> (\<exists>m \<in> fst ` set es. prefix (p @ [m]) q) \<longleftrightarrow> q \<in> set (tree_paths p es)" for q
  proof
    assume q: "q \<in> set left \<and> \<not> prefix (p @ [n]) q \<and> (\<exists>m \<in> fst ` set es. prefix (p @ [m]) q)"
    then have "q \<in> set (tree_paths p ((n, x) # es))" using assms(1) unfolding covers_def by auto
    moreover have "q \<notin> set (tree_paths (p @ [n]) es')" for es' :: "'a entries"
      using q tree_paths_below[of q "p @ [n]" es'] append_prefixD[of "p @ [n]" _ q] by blast
    ultimately show "q \<in> set (tree_paths p es)" using q by (cases x) auto
  next
    assume q: "q \<in> set (tree_paths p es)"
    then have l: "q \<in> set left" using assms(1) unfolding covers_def by auto
    from tree_paths_below[OF q] obtain m where m: "m \<in> fst ` set es" "prefix (p @ [m]) q" by blast
    have "\<not> prefix (p @ [n]) q" using prefix_name[OF m(2), of n] m(1) assms(2) by blast
    then show "q \<in> set left \<and> \<not> prefix (p @ [n]) q \<and> (\<exists>m \<in> fst ` set es. prefix (p @ [m]) q)"
      using l m by blast
  qed
  then show ?thesis unfolding covers_def set_filter by blast
qed

abbreviation sub_paths :: "string list \<Rightarrow> string \<Rightarrow> 'a node \<Rightarrow> string list list" where
  "sub_paths p n x \<equiv> (case x of NDir a sub \<Rightarrow> tree_paths (p @ [n]) sub | _ \<Rightarrow> [])"

lemma sub_paths_below:
  assumes "q \<in> set (sub_paths p n x)"
  shows "prefix (p @ [n]) q \<and> q \<noteq> p @ [n]"
proof -
  obtain a sub where "x = NDir a sub" "q \<in> set (tree_paths (p @ [n]) sub)" using assms by (cases x) auto
  from tree_paths_below[OF this(2)] obtain m where "prefix ((p @ [n]) @ [m]) q" by blast
  then show ?thesis using append_prefixD[of "p @ [n]" "[m]" q] by auto
qed

lemma covers_first:
  assumes "covers left p ((n, x) # es)" "n \<notin> fst ` set es" "q \<in> set left"
  shows "prefix (p @ [n]) q \<longleftrightarrow> q = p @ [n] \<or> q \<in> set (sub_paths p n x)"
proof
  assume q: "prefix (p @ [n]) q"
  then have "q \<in> set (tree_paths p ((n, x) # es))" using assms(1,3) unfolding covers_def by auto
  moreover have "q \<notin> set (tree_paths p es)"
    using tree_paths_below[of q p es] prefix_name[OF q] assms(2) by blast
  ultimately show "q = p @ [n] \<or> q \<in> set (sub_paths p n x)" by simp
next
  show "q = p @ [n] \<or> q \<in> set (sub_paths p n x) \<Longrightarrow> prefix (p @ [n]) q"
    using sub_paths_below[of q p n x] by blast
qed

lemma unlink_after_children:
  assumes c: "covers left p ((n, x) # es)" "n \<notin> fst ` set es"
  shows "remove_visit (filter (\<lambda>q. q \<notin> set (sub_paths p n x)) left) p (n, x)
    = (filter (\<lambda>q. \<not> prefix (p @ [n]) q) left, Inr Continue)"
proof -
  let ?l = "filter (\<lambda>q. q \<notin> set (sub_paths p n x)) left"
  have "p @ [n] \<in> set left" using c(1) unfolding covers_def by auto
  then have i: "p @ [n] \<in> set ?l" using sub_paths_below[of "p @ [n]" p n x] by auto
  have "\<not> strict_prefix (p @ [n]) q" if "q \<in> set ?l" for q
    using that covers_first[OF c, of q] by (auto simp: strict_prefix_def)
  then have "\<not> list_ex (\<lambda>q. strict_prefix (p @ [n]) q) ?l" by (simp add: list_ex_iff)
  moreover have "filter (\<lambda>q. q \<noteq> p @ [n]) ?l = filter (\<lambda>q. \<not> prefix (p @ [n]) q) left"
    unfolding filter_filter by (rule filter_cong[OF refl]) (use covers_first[OF c] in blast)
  ultimately show ?thesis using i by (simp add: remove_visit_def unlink_def)
qed

lemma walk_removes:
  assumes "tree_ok es" "covers left p es"
  shows "post_order_walk_impl (\<lambda>_. True) remove_visit left p es
    = (filter (\<lambda>q. q \<notin> set (tree_paths p es)) left, Inr Continue)"
  using assms
proof (induction es arbitrary: left p rule: tree_ok.induct)
  case (2 n x es)
  have n: "n \<notin> fst ` set es" "readable n" "tree_ok es" using 2(3) by auto
  have a: "(case x of NDir a sub \<Rightarrow> post_order_walk_impl (\<lambda>_. True) remove_visit left (p @ [n]) sub | _ \<Rightarrow> (left, Inr Continue))
    = (filter (\<lambda>q. q \<notin> set (sub_paths p n x)) left, Inr Continue)"
  proof (cases x)
    case (NDir a sub)
    then show ?thesis using 2(1)[of a sub left "p @ [n]"] 2(3) covers_sub[of left p n a sub es] 2(4) by simp
  qed simp_all
  have b: "covers (filter (\<lambda>q. \<not> prefix (p @ [n]) q) left) p es"
    by (rule covers_rest[OF 2(4) n(1)])
  have c: "filter (\<lambda>q. q \<notin> set (tree_paths p es)) (filter (\<lambda>q. \<not> prefix (p @ [n]) q) left)
      = filter (\<lambda>q. q \<notin> set (tree_paths p ((n, x) # es))) left"
    unfolding filter_filter tree_paths.simps list.set set_append
    by (rule filter_cong[OF refl]) (use covers_first[OF 2(4) n(1)] in blast)
  show ?case
    by (simp only: post_order_walk_impl.simps n(2) not_True_eq_False if_False if_True a
        unlink_after_children[OF 2(4) n(1)] 2(2)[OF n(3) b] c prod.case sum.case walk_result.case)
qed simp

section \<open>Properties\<close>

text \<open>
  Removing a directory whose entries have valid names removes everything below it: every entry is
  unlinked after what it contains, no unlink fails, and nothing else is touched.
\<close>
theorem remove_all_empties:
  assumes "tree_ok es" "{q \<in> set left. \<exists>n \<in> fst ` set es. prefix [n] q} = set (tree_paths [] es)"
  shows "remove_all_in (\<lambda>_. True) left es = (filter (\<lambda>q. q \<notin> set (tree_paths [] es)) left, Inr ())"
  using walk_removes[of es left "[]"] assms by (simp add: remove_all_in_def covers_def)

theorem remove_all_empties_witness:
  "remove_all_in (\<lambda>_. True) [[''a''], [''a'', ''b''], [''c'']] [(''a'', NDir () [(''b'', NFile () ''x'')])]
     = ([[''c'']], Inr ())"
proof -
  have "{q \<in> set [[''a''], [''a'', ''b''], [''c'']]. \<exists>n \<in> fst ` set [(''a'', NDir () [(''b'', NFile () ''x'')])]. prefix [n] q}
    = set (tree_paths [] [(''a'', NDir () [(''b'', NFile () ''x'')])])" by auto
  from remove_all_empties[OF _ this] show ?thesis by (simp add: readable_def utf8_valid_ascii)
qed

text \<open>
  An entry whose name is not UTF-8 is passed over, so a directory that contains one cannot be
  removed: the removal fails and leaves it in place.
\<close>
theorem remove_all_fails_on_invalid_name:
  assumes "readable d" "\<not> readable bad"
  shows "remove_all_in (\<lambda>_. True) [[d], [d, bad]] [(d, NDir a [(bad, x)])] = ([[d], [d, bad]], Inl LoggedError)"
  using assms by (simp add: remove_all_in_def remove_visit_def unlink_def)

theorem remove_all_fails_on_invalid_name_witness:
  "remove_all_in (\<lambda>_. True) [[''d''], [''d'', [CHR 0xff]]] [(''d'', NDir () [([CHR 0xff], NFile () [])])]
     = ([[''d''], [''d'', [CHR 0xff]]], Inl LoggedError)"
  by (rule remove_all_fails_on_invalid_name) (simp_all add: readable_def utf8_valid_ascii)

end
