(* ===== verification/ModuleTree.thy ===== *)
theory ModuleTree
  imports BTreeMap Dir
begin

text \<open>
  The virtual file tree of the modules (core/module.rs): collecting the trees of the modules, adding the
  tools of Magisk, and turning the result into mounts.  A path is the list of its components (the string
  buffers the code keeps them in are those of \<open>CStr\<close>).  What the code asks of the file system is a
  parameter, and the calls that change it are values of \<open>mod_op\<close>, returned in order with whether the
  operation succeeded; which calls succeed is a parameter too.
\<close>

section \<open>Calls and their environment\<close>

type_synonym path = "string list"

datatype mod_op =
    Bind path path bool
  | RemountRo path
  | Mkdirs path
  | Mkdir path
  | Create path
  | CloneAttr path path
  | ReadLink path
  | MkLink path string

text \<open>
  \<open>me_lstat\<close> is what a path names, \<open>me_at\<close> what it names when a link at its end is followed, and
  \<open>me_opens\<close> which directories can be opened.  The last two tell what \<open>stat\<close> says of a special file
  and of the execute permission of others.
\<close>

record 'a mod_env =
  me_lstat :: "path \<Rightarrow> 'a node option"
  me_at :: "path \<Rightarrow> 'a node option"
  me_opens :: "path \<Rightarrow> bool"
  me_ok :: "mod_op \<Rightarrow> bool"
  me_char_device :: "'a \<Rightarrow> bool"
  me_rdev :: "'a \<Rightarrow> u64"
  me_other_exec :: "'a node \<Rightarrow> bool"

type_synonym eff = "mod_op list \<times> bool"

definition nop :: eff where
  "nop = ([], True)"

definition may :: "mod_op \<Rightarrow> eff" where
  "may c = ([c], True)"

definition must :: "'a mod_env \<Rightarrow> mod_op \<Rightarrow> eff" where
  "must E c = ([c], me_ok E c)"

definition seq :: "eff \<Rightarrow> eff \<Rightarrow> eff" where
  "seq a b = (if snd a then (fst a @ fst b, snd b) else a)"

definition path_exists :: "'a mod_env \<Rightarrow> path \<Rightarrow> bool" where
  "path_exists E p \<longleftrightarrow> me_lstat E p \<noteq> None"

definition open_dir :: "'a mod_env \<Rightarrow> path \<Rightarrow> 'a entries option" where
  "open_dir E p =
     (if me_opens E p then (case me_at E p of Some (NDir a es) \<Rightarrow> Some es | _ \<Rightarrow> None) else None)"

text \<open>\<open>Utf8CStr::read_link\<close> into a buffer of 4096 bytes: a cut or invalid target is dropped.\<close>

definition link_target :: "string \<Rightarrow> string" where
  "link_target t = (if utf8_valid (take 4095 t) then take 4095 t else [])"

definition bind_mount :: "path \<Rightarrow> path \<Rightarrow> bool \<Rightarrow> eff" where
  "bind_mount src dest rec = seq (may (Bind src dest rec)) (may (RemountRo dest))"

definition mount_dummy :: "'a mod_env \<Rightarrow> path \<Rightarrow> path \<Rightarrow> bool \<Rightarrow> eff" where
  "mount_dummy E src dest isdir =
     seq (must E (if isdir then Mkdir dest else Create dest)) (bind_mount src dest False)"

section \<open>Paths\<close>

record module_paths =
  mp_real :: path
  mp_module :: path
  mp_module_mnt :: path

definition path_of :: "string \<Rightarrow> path" where
  "path_of s = filter (\<lambda>c. c \<noteq> [] \<and> c \<noteq> ''.'') (split_on (CHR ''/'') s)"

definition MODULE_ROOT :: path where "MODULE_ROOT = [''data'', ''adb'', ''modules'']"
definition MODULEMNT :: path where "MODULEMNT = [''.magisk'', ''modules'']"
definition WORKERDIR :: path where "WORKERDIR = [''.magisk'', ''worker'']"

definition module_paths_new :: "path \<Rightarrow> module_paths" where
  "module_paths_new tmp = \<lparr>mp_real = [], mp_module = MODULE_ROOT, mp_module_mnt = tmp @ MODULEMNT\<rparr>"

definition set_module :: "string \<Rightarrow> module_paths \<Rightarrow> module_paths" where
  "set_module m p = p\<lparr>mp_module := mp_module p @ [m], mp_module_mnt := mp_module_mnt p @ [m]\<rparr>"

definition module_append :: "string \<Rightarrow> module_paths \<Rightarrow> module_paths" where
  "module_append n p = \<lparr>mp_real = mp_real p @ [n], mp_module = mp_module p @ [n], mp_module_mnt = mp_module_mnt p @ [n]\<rparr>"

record mount_paths =
  mnt_real :: path
  mnt_worker :: path

definition mount_paths_new :: "path \<Rightarrow> mount_paths" where
  "mount_paths_new tmp = \<lparr>mnt_real = [], mnt_worker = tmp @ WORKERDIR\<rparr>"

definition mount_append :: "string \<Rightarrow> mount_paths \<Rightarrow> mount_paths" where
  "mount_append n p = \<lparr>mnt_real = mnt_real p @ [n], mnt_worker = mnt_worker p @ [n]\<rparr>"

section \<open>Nodes\<close>

datatype fs_node =
    Directory "(string \<times> fs_node) list"
  | File path
  | Symlink string
  | MagiskLink
  | Whiteout

type_synonym fs_map = "(string \<times> fs_node) list"

definition or_insert :: "string \<Rightarrow> fs_node \<Rightarrow> fs_map \<Rightarrow> fs_map" where
  "or_insert n x ch = (if bt_contains ch n then ch else bt_insert n x ch)"

definition is_whiteout :: "'a mod_env \<Rightarrow> 'a \<Rightarrow> bool" where
  "is_whiteout E a \<longleftrightarrow> me_char_device E a \<and> me_rdev E a = 0"

text \<open>The part of \<open>collect\<close> for an entry that is neither a directory nor a link.\<close>

definition collect_file :: "'a mod_env \<Rightarrow> module_paths \<Rightarrow> string \<Rightarrow> 'a node \<Rightarrow> fs_map \<Rightarrow> fs_map \<times> eff" where
  "collect_file E p n x ch =
     (let file = (let e = (if path_exists E (mp_real p) then must E (CloneAttr (mp_real p) (mp_module p)) else nop)
                  in (if snd e then or_insert n (File (mp_module_mnt p)) ch else ch, e))
      in case x of
           NOther a \<Rightarrow>
             if me_char_device E a then
               (if \<not> path_exists E (mp_module p) then (ch, ([], False))
                else if is_whiteout E a then (or_insert n Whiteout ch, nop)
                else file)
             else file
         | _ \<Rightarrow> file)"

fun collect :: "'a mod_env \<Rightarrow> module_paths \<Rightarrow> fs_map \<Rightarrow> 'a entries \<Rightarrow> fs_map \<times> eff" where
  "collect E p ch [] = (ch, nop)"
| "collect E p ch ((n, x) # es) =
     (if \<not> readable n then collect E p ch es
      else
        let q = module_append n p;
            (ch, e) =
              (case x of
                 NDir a sub \<Rightarrow>
                   let ch = or_insert n (Directory []) ch
                   in (case bt_get ch n of
                         Some (Directory c) \<Rightarrow>
                           if me_opens E (mp_module q) then
                             let (c, e) = collect E q c sub in (bt_insert n (Directory c) ch, e)
                           else (ch, ([], False))
                       | _ \<Rightarrow> (ch, nop))
               | NLink a t \<Rightarrow>
                   let e = must E (ReadLink (mp_module q))
                   in (if snd e then or_insert n (Symlink (link_target t)) ch else ch, e)
               | _ \<Rightarrow> collect_file E q n x ch)
        in if snd e then let (ch, e') = collect E p ch es in (ch, seq e e') else (ch, e))"

definition collect_dir :: "'a mod_env \<Rightarrow> module_paths \<Rightarrow> fs_node \<Rightarrow> fs_node \<times> eff" where
  "collect_dir E p node =
     (case node of
        Directory ch \<Rightarrow>
          (case open_dir E (mp_module p) of
             Some es \<Rightarrow> let (ch, e) = collect E p ch es in (Directory ch, e)
           | None \<Rightarrow> (node, ([], False)))
      | _ \<Rightarrow> (node, nop))"

section \<open>Mounting\<close>

definition is_link :: "'a node \<Rightarrow> bool" where
  "is_link x = (case x of NLink a t \<Rightarrow> True | _ \<Rightarrow> False)"

fun parent_should_be_tmpfs :: "'a mod_env \<Rightarrow> fs_node \<Rightarrow> path \<Rightarrow> bool" where
  "parent_should_be_tmpfs E (Directory ch) target = (case me_lstat E target of Some x \<Rightarrow> is_link x | None \<Rightarrow> True)"
| "parent_should_be_tmpfs E (File src) target = (case me_lstat E target of Some x \<Rightarrow> is_link x | None \<Rightarrow> True)"
| "parent_should_be_tmpfs E _ target = True"

definition commit_link :: "'a mod_env \<Rightarrow> mount_paths \<Rightarrow> string \<Rightarrow> eff" where
  "commit_link E p t =
     seq (must E (MkLink (mnt_worker p) t))
       (if path_exists E (mnt_real p) then must E (CloneAttr (mnt_real p) (mnt_worker p)) else nop)"

definition applet_target :: "path \<Rightarrow> string" where
  "applet_target p = (if p \<noteq> [] \<and> last p = ''supolicy'' then ''./magiskpolicy'' else ''./magisk'')"

text \<open>\<open>commit_tmpfs\<close> on a node that is not a directory.\<close>

fun commit_leaf :: "'a mod_env \<Rightarrow> mount_paths \<Rightarrow> fs_node \<Rightarrow> eff" where
  "commit_leaf E p (File src) = mount_dummy E src (mnt_worker p) False"
| "commit_leaf E p (Symlink t) = commit_link E p t"
| "commit_leaf E p MagiskLink = must E (MkLink (mnt_worker p) (applet_target (mnt_real p)))"
| "commit_leaf E p _ = nop"

text \<open>The worker directory of a directory node.\<close>

definition worker_dir :: "'a mod_env \<Rightarrow> mount_paths \<Rightarrow> eff" where
  "worker_dir E p =
     seq (must E (Mkdirs (mnt_worker p)))
       (if path_exists E (mnt_real p) then must E (CloneAttr (mnt_real p) (mnt_worker p))
        else if mnt_worker p \<noteq> [] then must E (CloneAttr (butlast (mnt_worker p)) (mnt_worker p))
        else nop)"

text \<open>The source of a file named \<open>.replace\<close> and the children without it.\<close>

definition replace_dir :: "fs_map \<Rightarrow> path option" where
  "replace_dir ch =
     (case bt_get ch ''.replace'' of Some (File src) \<Rightarrow> if src \<noteq> [] then Some (butlast src) else None | _ \<Rightarrow> None)"

abbreviation unreplace :: "fs_map \<Rightarrow> fs_map" where
  "unreplace ch \<equiv> bt_remove ''.replace'' ch"

fun replace_children :: "'a mod_env \<Rightarrow> path \<Rightarrow> mount_paths \<Rightarrow> fs_map \<Rightarrow> eff" where
  "replace_children E dir p [] = nop"
| "replace_children E dir p ((n, c) # ch) =
     seq (case c of
            Directory sub \<Rightarrow> mount_dummy E (dir @ [n]) (mnt_worker (mount_append n p)) True
          | _ \<Rightarrow> commit_leaf E (mount_append n p) c)
       (replace_children E dir p ch)"

text \<open>
  The last argument is what \<open>Directory::open\<close> gives for the real path; for an entry of a directory that
  is mirrored it is the content of the entry.
\<close>

function commit_tmpfs :: "'a mod_env \<Rightarrow> mount_paths \<Rightarrow> fs_node \<Rightarrow> 'a entries option \<Rightarrow> eff"
  and mirror :: "'a mod_env \<Rightarrow> mount_paths \<Rightarrow> fs_map \<Rightarrow> 'a entries \<Rightarrow> eff"
  and tmpfs_children :: "'a mod_env \<Rightarrow> mount_paths \<Rightarrow> fs_map \<Rightarrow> eff"
where
  "commit_tmpfs E p node r =
     (case node of
        Directory ch \<Rightarrow>
          seq (worker_dir E p)
            (case replace_dir ch of
               Some dir \<Rightarrow> replace_children E dir p (unreplace ch)
             | None \<Rightarrow>
                 seq (case r of Some es \<Rightarrow> mirror E p (unreplace ch) es | None \<Rightarrow> nop)
                   (tmpfs_children E p (unreplace ch)))
      | _ \<Rightarrow> commit_leaf E p node)"
| "mirror E p ch [] = nop"
| "mirror E p ch ((n, x) # es) =
     seq (if \<not> readable n \<or> bt_contains ch n then nop
          else
            let q = mount_append n p
            in case x of
                 NDir a sub \<Rightarrow> commit_tmpfs E q (Directory []) (if me_opens E (mnt_real q) then Some sub else None)
               | NLink a t \<Rightarrow> commit_link E q (if me_ok E (ReadLink (mnt_real q)) then link_target t else [])
               | _ \<Rightarrow> mount_dummy E (mnt_real q) (mnt_worker q) False)
       (mirror E p ch es)"
| "tmpfs_children E p [] = nop"
| "tmpfs_children E p ((n, c) # ch) =
     seq (commit_tmpfs E (mount_append n p) c (open_dir E (mnt_real p @ [n]))) (tmpfs_children E p ch)"
  by pat_completeness auto

fun map_weight :: "fs_map \<Rightarrow> nat" where
  "map_weight [] = 0"
| "map_weight ((n, Directory c) # ch) = 2 + map_weight c + map_weight ch"
| "map_weight ((n, _) # ch) = 1 + map_weight ch"

definition node_weight :: "fs_node \<Rightarrow> nat" where
  "node_weight x = (case x of Directory c \<Rightarrow> 1 + map_weight c | _ \<Rightarrow> 0)"

fun entries_weight :: "'a entries \<Rightarrow> nat" where
  "entries_weight [] = 0"
| "entries_weight ((n, NDir a sub) # es) = 2 + entries_weight sub + entries_weight es"
| "entries_weight ((n, _) # es) = 1 + entries_weight es"

lemma map_weight_Cons: "map_weight ((n, c) # ch) = 1 + node_weight c + map_weight ch"
  by (cases c) (simp_all add: node_weight_def)

lemma map_weight_filter: "map_weight (filter P ch) \<le> map_weight ch"
proof (induction ch)
  case (Cons x ch)
  then show ?case by (cases x) (simp add: map_weight_Cons)
qed simp

lemma entries_weight_Cons: "entries_weight es < entries_weight ((n, x) # es)"
  by (cases x) simp_all

termination commit_tmpfs
proof (relation "measures
    [case_sum (\<lambda>(E, p, node, r). node_weight node) (case_sum (\<lambda>(E, p, ch, es). 1) (\<lambda>(E, p, ch). map_weight ch)),
     case_sum (\<lambda>(E, p, node, r). case r of None \<Rightarrow> 0 | Some es \<Rightarrow> entries_weight es + 1)
       (case_sum (\<lambda>(E, p, ch, es). entries_weight es) (\<lambda>(E, p, ch). 0))]")
qed (auto simp: node_weight_def map_weight_Cons bt_remove_def entries_weight_Cons le_imp_less_Suc [OF map_weight_filter] split: option.splits)

declare commit_tmpfs.simps [simp del]

definition tmpfs_child :: "'a mod_env \<Rightarrow> mount_paths \<Rightarrow> string \<times> fs_node \<Rightarrow> bool" where
  "tmpfs_child E p = (\<lambda>(n, c). n = ''.replace'' \<or> parent_should_be_tmpfs E c (mnt_real (mount_append n p)))"

fun commit :: "'a mod_env \<Rightarrow> mount_paths \<Rightarrow> fs_node \<Rightarrow> bool \<Rightarrow> eff"
  and commit_children :: "'a mod_env \<Rightarrow> mount_paths \<Rightarrow> fs_map \<Rightarrow> bool \<Rightarrow> eff"
where
  "commit E p (Directory ch) is_root =
     (if \<not> is_root \<and> list_ex (tmpfs_child E p) ch then
        seq (commit_tmpfs E p (Directory ch) (open_dir E (mnt_real p)))
          (bind_mount (mnt_worker p) (mnt_real p) True)
      else commit_children E p ch is_root)"
| "commit E p (File src) is_root = bind_mount src (mnt_real p) False"
| "commit E p _ is_root = nop"
| "commit_children E p [] is_root = nop"
| "commit_children E p ((n, c) # ch) is_root =
     seq (if is_root \<and> tmpfs_child E p (n, c) then nop else commit E (mount_append n p) c False)
       (commit_children E p ch is_root)"

section \<open>Files of Magisk\<close>

definition MAGISK_BIN_INJECT_PARTITIONS :: "string list" where
  "MAGISK_BIN_INJECT_PARTITIONS = [''/system/'', ''/vendor/'', ''/product/'', ''/system_ext/'']"

definition inject :: "path \<Rightarrow> fs_map \<Rightarrow> fs_map" where
  "inject tmp ch =
     bt_insert ''supolicy'' MagiskLink
       (bt_insert ''resetprop'' MagiskLink
         (bt_insert ''su'' MagiskLink
           (bt_insert ''magiskpolicy'' (File (tmp @ [''magiskpolicy'']))
             (bt_insert ''magisk'' (File (tmp @ [''magisk''])) ch))))"

definition strip_system_prefix :: "string \<Rightarrow> string" where
  "strip_system_prefix item = (case strip_prefix ''/system/'' item of Some rest \<Rightarrow> ''/'' @ rest | None \<Rightarrow> item)"

definition count_files :: "'a mod_env \<Rightarrow> path \<Rightarrow> 'a entries \<Rightarrow> int option" where
  "count_files E p es =
     (case pre_order_walk_impl (me_opens E)
             (\<lambda>k q (n, x). (case x of NFile a bs \<Rightarrow> k + 1 | _ \<Rightarrow> k, Inr Continue)) 0 p es of
        (k, Inr r) \<Rightarrow> Some k
      | (k, Inl e) \<Rightarrow> None)"

definition suitable :: "bool \<Rightarrow> string \<Rightarrow> bool" where
  "suitable is_emulator item \<longleftrightarrow>
     list_ex (\<lambda>p. prefix p item) MAGISK_BIN_INJECT_PARTITIONS \<and>
     \<not> prefix ''/system/apex/'' item \<and> \<not> (is_emulator \<and> prefix ''/system/xbin'' item)"

fun bin_candidates :: "'a mod_env \<Rightarrow> bool \<Rightarrow> string list \<Rightarrow> (string \<times> int) list" where
  "bin_candidates E is_emulator [] = []"
| "bin_candidates E is_emulator (item # items) =
     (if \<not> suitable is_emulator item then bin_candidates E is_emulator items
      else if path_exists E (path_of (item @ ''/su'')) then [(strip_system_prefix item, 0)]
      else
        case me_lstat E (path_of item) of
          Some x \<Rightarrow>
            (case (if me_other_exec E x then Option.bind (open_dir E (path_of item)) (count_files E (path_of item)) else None) of
               Some k \<Rightarrow> (strip_system_prefix item, k) # bin_candidates E is_emulator items
             | None \<Rightarrow> bin_candidates E is_emulator items)
        | None \<Rightarrow> bin_candidates E is_emulator items)"

text \<open>The walk from the system node down to the directory of a candidate.\<close>

fun inject_at :: "(fs_map \<Rightarrow> fs_map) \<Rightarrow> path \<Rightarrow> fs_map \<Rightarrow> fs_map \<times> bool" where
  "inject_at f [] ch = (f ch, True)"
| "inject_at f (d # ds) ch =
     (let ch = or_insert d (Directory []) ch
      in case bt_get ch d of
           Some (Directory c) \<Rightarrow> let (c, done) = inject_at f ds c in (bt_insert d (Directory c) ch, done)
         | _ \<Rightarrow> (ch, False))"

fun inject_first :: "(fs_map \<Rightarrow> fs_map) \<Rightarrow> string list \<Rightarrow> fs_map \<Rightarrow> fs_map \<times> bool" where
  "inject_first f [] ch = (ch, False)"
| "inject_first f (item # items) ch =
     (let (ch, done) = inject_at f (filter (\<lambda>c. c \<noteq> ''..'') (path_of item)) ch
      in if done then (ch, True) else inject_first f items ch)"

definition inject_magisk_bins :: "'a mod_env \<Rightarrow> path \<Rightarrow> string \<Rightarrow> bool \<Rightarrow> fs_map \<Rightarrow> fs_map" where
  "inject_magisk_bins E tmp path_env is_emulator ch =
     (let candidates = sort_key snd (bin_candidates E is_emulator (split_on (CHR '':'') path_env));
          (ch, done) = inject_first (inject tmp) (map fst candidates) ch
      in if done then ch else fst (inject_at (inject tmp) [''bin''] ch))"

definition inject_zygisk_bins :: "'a mod_env \<Rightarrow> path \<Rightarrow> bool \<Rightarrow> string \<Rightarrow> fs_map \<Rightarrow> fs_map" where
  "inject_zygisk_bins E tmp is64 name ch =
     (let bin32 = tmp @ [if is64 then ''magisk32'' else ''magisk''];
          ch = (if is64 \<longrightarrow> path_exists E [''system'', ''bin'', ''linker''] then
                  fst (inject_at (\<lambda>lib. if path_exists E bin32 then bt_insert name (File bin32) lib else lib) [''lib''] ch)
                else ch)
      in if is64 \<and> path_exists E [''system'', ''bin'', ''linker64''] then
           fst (inject_at (bt_insert name (File (tmp @ [''magisk'']))) [''lib64''] ch)
         else ch)"

section \<open>The partitions\<close>

definition SECONDARY_READ_ONLY_PARTITIONS :: "string list" where
  "SECONDARY_READ_ONLY_PARTITIONS = [''vendor'', ''product'', ''system_ext'']"

definition extract_root :: "'a mod_env \<Rightarrow> string \<Rightarrow> (string \<times> fs_node) list \<times> fs_map \<Rightarrow> (string \<times> fs_node) list \<times> fs_map" where
  "extract_root E dir = (\<lambda>(roots, ch).
     case me_lstat E [dir] of
       Some (NDir a es) \<Rightarrow>
         (case bt_get ch dir of Some root \<Rightarrow> (bt_insert dir root roots, bt_remove dir ch) | None \<Rightarrow> (roots, ch))
     | _ \<Rightarrow> (roots, ch))"

definition mount_roots :: "'a mod_env \<Rightarrow> fs_map \<Rightarrow> (string \<times> fs_node) list" where
  "mount_roots E ch =
     (let (roots, ch) = fold (extract_root E) SECONDARY_READ_ONLY_PARTITIONS ([], ch)
      in bt_insert ''system'' (Directory ch) roots)"

text \<open>Every root is committed, whatever became of those before it.\<close>

fun commit_roots :: "'a mod_env \<Rightarrow> mount_paths \<Rightarrow> (string \<times> fs_node) list \<Rightarrow> mod_op list" where
  "commit_roots E p [] = []"
| "commit_roots E p ((dir, root) # roots) = fst (commit E (mount_append dir p) root True) @ commit_roots E p roots"

end
