(* ===== verification/ModuleMount.thy ===== *)
theory ModuleMount
  imports ModuleTree
begin

text \<open>
  What the mounts of \<open>ModuleTree\<close> make of the file system.  A view tells what every path shows; the calls
  act on views, a bind mount showing the tree of its source at its target.  The specification
  \<open>overlay\<close> is the tree of the modules laid over the real one, read off path by path; the mounts made by
  \<open>commit\<close> are shown to produce it.
\<close>

section \<open>Views\<close>

datatype 'f content = CDir | CFile 'f | CEmpty | CLink string

type_synonym 'f view = "path \<Rightarrow> 'f content option"

fun apply_op :: "mod_op \<Rightarrow> 'f view \<Rightarrow> 'f view" where
  "apply_op (Bind src dest rec) V = (\<lambda>p. if prefix dest p then V (src @ drop (length dest) p) else V p)"
| "apply_op (Mkdirs d) V = (\<lambda>p. if prefix p d \<and> V p = None then Some CDir else V p)"
| "apply_op (Mkdir d) V = (\<lambda>p. if p = d \<and> V p = None then Some CDir else V p)"
| "apply_op (Create d) V = (\<lambda>p. if p = d \<and> V p = None then Some CEmpty else V p)"
| "apply_op (MkLink d t) V = (\<lambda>p. if p = d then Some (CLink t) else V p)"
| "apply_op _ V = V"

definition effect :: "eff \<Rightarrow> 'f view \<Rightarrow> 'f view" where
  "effect e V = fold apply_op (fst e) V"

lemma seq_ok [simp]: "snd (seq a b) \<longleftrightarrow> snd a \<and> snd b"
  by (simp add: seq_def)

lemma effect_seq [simp]: "snd a \<Longrightarrow> effect (seq a b) V = effect b (effect a V)"
  by (simp add: effect_def seq_def)

lemma effect_basic [simp]:
  "effect nop V = V" "effect (may c) V = apply_op c V" "effect (must E c) V = apply_op c V"
  "snd nop" "snd (may c)"
  by (simp_all add: effect_def nop_def may_def must_def)

lemma bind_mount_ok [simp]: "snd (bind_mount src dest rec)"
  by (simp add: bind_mount_def)

lemma effect_bind [simp]: "effect (bind_mount src dest rec) V = apply_op (Bind src dest rec) V"
  by (simp add: bind_mount_def)

section \<open>The specification\<close>

fun node_view :: "'f view \<Rightarrow> path \<Rightarrow> 'a node \<Rightarrow> path \<Rightarrow> 'f content option" where
  "node_view V p (NDir a es) [] = Some CDir"
| "node_view V p (NDir a es) (n # q) = (case map_of es n of Some x \<Rightarrow> node_view V (p @ [n]) x q | None \<Rightarrow> None)"
| "node_view V p (NLink a t) q = (if q = [] then Some (CLink (link_target t)) else None)"
| "node_view V p x q = V (p @ q)"

definition real_view :: "'f view \<Rightarrow> path \<Rightarrow> 'a entries option \<Rightarrow> string \<Rightarrow> path \<Rightarrow> 'f content option" where
  "real_view V p t n q =
     (case t of
        Some es \<Rightarrow> (case map_of es n of Some x \<Rightarrow> node_view V (p @ [n]) x q | None \<Rightarrow> None)
      | None \<Rightarrow> None)"

fun leaf_view :: "'f view \<Rightarrow> path \<Rightarrow> fs_node \<Rightarrow> path \<Rightarrow> 'f content option" where
  "leaf_view V p (File src) q = V (src @ q)"
| "leaf_view V p (Symlink t) q = (if q = [] then Some (CLink t) else None)"
| "leaf_view V p MagiskLink q = (if q = [] then Some (CLink (applet_target p)) else None)"
| "leaf_view V p _ q = None"

text \<open>
  A child of a directory hides what the real directory has under its name; a directory with a
  \<open>.replace\<close> file shows none of the real entries and its subdirectories as they are in that module.
\<close>

fun overlay :: "'a mod_env \<Rightarrow> 'f view \<Rightarrow> path \<Rightarrow> fs_node \<Rightarrow> 'a entries option \<Rightarrow> path \<Rightarrow> 'f content option" where
  "overlay E V p (Directory ch) t [] = Some CDir"
| "overlay E V p (Directory ch) t (n # q) =
     (case (replace_dir ch, bt_get (unreplace ch) n) of
        (Some dir, Some (Directory c)) \<Rightarrow> V (dir @ n # q)
      | (Some dir, Some c) \<Rightarrow> leaf_view V (p @ [n]) c q
      | (Some dir, None) \<Rightarrow> None
      | (None, Some c) \<Rightarrow> overlay E V (p @ [n]) c (open_dir E (p @ [n])) q
      | (None, None) \<Rightarrow> real_view V p t n q)"
| "overlay E V p x t q = leaf_view V p x q"

section \<open>Frames\<close>

definition apart :: "path \<Rightarrow> path \<Rightarrow> bool" where
  "apart a b \<longleftrightarrow> \<not> prefix a b \<and> \<not> prefix b a"

definition fresh :: "'f view \<Rightarrow> path \<Rightarrow> bool" where
  "fresh V w \<longleftrightarrow> (\<forall>q. V (w @ q) = None)"

text \<open>Only what is below \<open>w\<close> changes, but for missing directories above it.\<close>

definition only :: "path \<Rightarrow> 'f view \<Rightarrow> 'f view \<Rightarrow> bool" where
  "only w V V' \<longleftrightarrow> (\<forall>p. \<not> prefix w p \<longrightarrow> V' p = V p \<or> (prefix p w \<and> V p = None \<and> V' p = Some CDir))"

text \<open>The sources of the mounts are not among what is mounted.\<close>

fun srcs_ok :: "path \<Rightarrow> fs_map \<Rightarrow> bool" where
  "srcs_ok w [] \<longleftrightarrow> True"
| "srcs_ok w ((n, Directory c) # ch) \<longleftrightarrow> srcs_ok w c \<and> srcs_ok w ch"
| "srcs_ok w ((n, File src) # ch) \<longleftrightarrow> apart w (if n = ''.replace'' then butlast src else src) \<and> srcs_ok w ch"
| "srcs_ok w ((n, _) # ch) \<longleftrightarrow> srcs_ok w ch"

fun map_ok :: "fs_map \<Rightarrow> bool" where
  "map_ok [] \<longleftrightarrow> True"
| "map_ok ((n, c) # ch) \<longleftrightarrow> (\<forall>p \<in> set ch. n < fst p) \<and> (case c of Directory d \<Rightarrow> map_ok d | _ \<Rightarrow> True) \<and> map_ok ch"

lemma apart_append: "apart w p \<Longrightarrow> apart w (p @ q)"
  unfolding apart_def by (metis prefix_order.trans prefixI prefix_same_cases)

lemma apart_sym: "apart a b \<Longrightarrow> apart b a"
  by (simp add: apart_def)

lemma apart_names: "m \<noteq> n \<Longrightarrow> apart (w @ m # p) (w @ n # q)"
  by (simp add: apart_def)

lemma only_refl [simp]: "only w V V"
  by (simp add: only_def)

lemma only_trans: "only w V V' \<Longrightarrow> only w V' V'' \<Longrightarrow> only w V V''"
  unfolding only_def by metis

lemma only_above: "only (w @ q) V V' \<Longrightarrow> only w V V'"
  unfolding only_def by (metis prefix_def prefix_order.trans prefix_same_cases)

lemma only_apart: "only w V V' \<Longrightarrow> apart w p \<Longrightarrow> V' p = V p"
  by (auto simp: only_def apart_def)

lemma only_some: "only w V V' \<Longrightarrow> \<not> prefix w p \<Longrightarrow> V p \<noteq> None \<Longrightarrow> V' p = V p"
  by (auto simp: only_def)

lemma fresh_sub: "fresh V w \<Longrightarrow> fresh V (w @ q)"
  by (simp add: fresh_def)

lemma fresh_only: "fresh V v \<Longrightarrow> only w V V' \<Longrightarrow> apart w v \<Longrightarrow> fresh V' v"
  by (simp add: fresh_def only_apart apart_append)

section \<open>Laying out a worker directory\<close>

definition agrees :: "path \<Rightarrow> 'f view \<Rightarrow> 'f view \<Rightarrow> bool" where
  "agrees w V0 V \<longleftrightarrow> (\<forall>p. apart w p \<longrightarrow> V p = V0 p)"

text \<open>From a view that agrees with \<open>V0\<close>, the calls \<open>e\<close> produce \<open>f\<close> at \<open>w\<close>.\<close>

definition lays :: "path \<Rightarrow> 'f view \<Rightarrow> path \<Rightarrow> eff \<Rightarrow> (path \<Rightarrow> 'f content option) \<Rightarrow> bool" where
  "lays w0 V0 w e f \<longleftrightarrow>
     (\<forall>V. agrees w0 V0 V \<longrightarrow> fresh V w \<longrightarrow> (\<forall>q. effect e V (w @ q) = f q) \<and> only w V (effect e V))"

text \<open>In the directory \<open>w\<close> they produce \<open>g n\<close> under each of the names \<open>N\<close> and change nothing else.\<close>

definition lays_dir :: "path \<Rightarrow> 'f view \<Rightarrow> path \<Rightarrow> eff \<Rightarrow> (string \<Rightarrow> path \<Rightarrow> 'f content option) \<Rightarrow> string set \<Rightarrow> bool" where
  "lays_dir w0 V0 w e g N \<longleftrightarrow>
     (\<forall>V. agrees w0 V0 V \<longrightarrow> V w = Some CDir \<longrightarrow> (\<forall>n \<in> N. fresh V (w @ [n])) \<longrightarrow>
        (\<forall>n \<in> N. \<forall>q. effect e V (w @ n # q) = g n q) \<and>
        (\<forall>p. (\<forall>n \<in> N. \<not> prefix (w @ [n]) p) \<longrightarrow> effect e V p = V p \<or> (strict_prefix p w \<and> V p = None \<and> effect e V p = Some CDir)))"

lemma agrees_only: "agrees w0 V0 V \<Longrightarrow> only w V V' \<Longrightarrow> prefix w0 w \<Longrightarrow> agrees w0 V0 V'"
  unfolding agrees_def by (metis only_above only_apart prefix_def)

lemma not_above [simp]: "\<not> strict_prefix (w @ q) w"
  by (auto simp: strict_prefix_def prefix_def)

lemma apart_below: "apart w0 p \<Longrightarrow> prefix w0 w \<Longrightarrow> \<not> prefix w p \<and> \<not> prefix p w"
  unfolding apart_def by (metis prefix_order.trans prefix_same_cases)

lemma lays_dir_nop: "lays_dir w0 V0 w nop g {}"
  by (simp add: lays_dir_def)

lemma lays_dir_single:
  assumes "lays w0 V0 (w @ [n]) e (g n)"
  shows "lays_dir w0 V0 w e g {n}"
  unfolding lays_dir_def
proof (intro allI impI)
  fix V :: "'a view"
  assume V: "agrees w0 V0 V" "V w = Some CDir" "\<forall>m \<in> {n}. fresh V (w @ [m])"
  then have *: "effect e V (w @ n # q) = g n q" "only (w @ [n]) V (effect e V)" for q
    using assms by (auto simp: lays_def)
  have "effect e V p = V p \<or> strict_prefix p w \<and> V p = None \<and> effect e V p = Some CDir" if "\<not> prefix (w @ [n]) p" for p
    using *(2) that V(2) by (auto simp: only_def strict_prefix_def)
  then show "(\<forall>m \<in> {n}. \<forall>q. effect e V (w @ m # q) = g m q) \<and>
      (\<forall>p. (\<forall>m \<in> {n}. \<not> prefix (w @ [m]) p) \<longrightarrow> effect e V p = V p \<or> (strict_prefix p w \<and> V p = None \<and> effect e V p = Some CDir))"
    using * by simp
qed

lemma lays_dir_seq:
  assumes "lays_dir w0 V0 w e g N" "lays_dir w0 V0 w e' g N'" "N \<inter> N' = {}" "snd e" "prefix w0 w"
  shows "lays_dir w0 V0 w (seq e e') g (N \<union> N')"
  unfolding lays_dir_def
proof (intro allI impI)
  fix V :: "'a view"
  let ?V = "effect e V"
  assume V: "agrees w0 V0 V" "V w = Some CDir" "\<forall>n \<in> N \<union> N'. fresh V (w @ [n])"
  then have 1: "\<forall>n \<in> N. \<forall>q. ?V (w @ n # q) = g n q"
    "\<And>p. (\<forall>n \<in> N. \<not> prefix (w @ [n]) p) \<Longrightarrow> ?V p = V p \<or> (strict_prefix p w \<and> V p = None \<and> ?V p = Some CDir)"
    using assms(1) unfolding lays_dir_def by blast+
  have other: "?V (w @ n # q) = V (w @ n # q)" if "n \<in> N'" for n q
    using 1(2) [of "w @ n # q"] that assms(3) by auto
  have "agrees w0 V0 ?V"
    unfolding agrees_def
  proof (intro allI impI)
    fix p assume p: "apart w0 p"
    then have "\<not> prefix w p" "\<not> prefix p w" using apart_below assms(5) by blast+
    then have "\<not> prefix (w @ [n]) p" "\<not> strict_prefix p w" for n
      by (auto simp: strict_prefix_def dest: append_prefixD)
    then show "?V p = V0 p" using 1(2) [of p] V(1) p by (auto simp: agrees_def)
  qed
  moreover have "?V w = Some CDir" using 1(2) [of w] V(2) by auto
  moreover have "\<forall>n \<in> N'. fresh ?V (w @ [n])" using V(3) other by (auto simp: fresh_def)
  ultimately have 2: "\<forall>n \<in> N'. \<forall>q. effect e' ?V (w @ n # q) = g n q"
    "\<And>p. (\<forall>n \<in> N'. \<not> prefix (w @ [n]) p) \<Longrightarrow> effect e' ?V p = ?V p \<or> (strict_prefix p w \<and> ?V p = None \<and> effect e' ?V p = Some CDir)"
    using assms(2) unfolding lays_dir_def by blast+
  have "effect e' ?V (w @ n # q) = g n q" if "n \<in> N" for n q
    using 2(2) [of "w @ n # q"] 1(1) that assms(3) by auto
  moreover have "effect e' ?V p = V p \<or> (strict_prefix p w \<and> V p = None \<and> effect e' ?V p = Some CDir)"
    if "\<forall>n \<in> N \<union> N'. \<not> prefix (w @ [n]) p" for p
    using 1(2) [of p] 2(2) [of p] that by auto
  ultimately show "(\<forall>n \<in> N \<union> N'. \<forall>q. effect (seq e e') V (w @ n # q) = g n q) \<and>
      (\<forall>p. (\<forall>n \<in> N \<union> N'. \<not> prefix (w @ [n]) p) \<longrightarrow>
        effect (seq e e') V p = V p \<or> (strict_prefix p w \<and> V p = None \<and> effect (seq e e') V p = Some CDir))"
    using 2(1) assms(4) by auto
qed

lemma lays_dir_cong:
  "lays_dir w0 V0 w e g N \<Longrightarrow> (\<And>n q. n \<in> N \<Longrightarrow> g n q = g' n q) \<Longrightarrow> lays_dir w0 V0 w e g' N"
  by (simp add: lays_dir_def)

lemma lays_cong: "lays w0 V0 w e f \<Longrightarrow> (\<And>q. f q = f' q) \<Longrightarrow> lays w0 V0 w e f'"
  by (simp add: lays_def)

lemma lays_dummy:
  fixes V0 :: "'f view"
  assumes "apart w0 src" "prefix w0 w" "snd (mount_dummy E src w d)"
  shows "lays w0 V0 w (mount_dummy E src w d) (\<lambda>q. V0 (src @ q))"
proof -
  let ?c = "if d then Mkdir w else Create w"
  have "effect (mount_dummy E src w d) V = apply_op (Bind src w False) (apply_op ?c V)" for V :: "'f view"
    using assms(3) by (simp add: mount_dummy_def del: apply_op.simps)
  moreover have "apply_op ?c V p = V p" if "p \<noteq> w" for p and V :: "'f view"
    using that by simp
  moreover have "src @ q \<noteq> w" "apart w0 (src @ q)" for q
    using assms(1,2) apart_append [of w0 src q] by (auto simp: apart_def)
  ultimately show ?thesis by (auto simp: lays_def agrees_def only_def)
qed

lemma lays_link:
  assumes "snd (must E (MkLink w t))"
  shows "lays w0 V0 w (must E (MkLink w t)) (\<lambda>q. if q = [] then Some (CLink t) else None)"
  by (auto simp: lays_def fresh_def only_def)

lemma effect_clone: "snd e \<Longrightarrow> effect (seq e (if b then must E (CloneAttr x y) else nop)) V = effect e V"
  by simp

lemma lays_commit_link:
  assumes "snd (commit_link E p t)"
  shows "lays w0 V0 (mnt_worker p) (commit_link E p t) (\<lambda>q. if q = [] then Some (CLink t) else None)"
proof -
  have ok: "snd (must E (MkLink (mnt_worker p) t))" using assms by (simp add: commit_link_def)
  show ?thesis
    using lays_link [OF ok, of w0 V0] unfolding lays_def commit_link_def effect_clone [OF ok] .
qed

lemma lays_leaf:
  assumes "snd (commit_leaf E p c)" "prefix w0 (mnt_worker p)" "\<forall>src. c = File src \<longrightarrow> apart w0 src" "\<forall>d. c \<noteq> Directory d"
  shows "lays w0 V0 (mnt_worker p) (commit_leaf E p c) (leaf_view V0 (mnt_real p) c)"
  using assms lays_dummy [of w0 _ "mnt_worker p" E False V0] lays_commit_link [of E p _ w0 V0] lays_link [of E "mnt_worker p" _ w0 V0]
  by (cases c) (auto simp: lays_def fresh_def)

lemma lays_directory:
  fixes V0 :: "'f view"
  assumes "lays_dir w0 V0 (mnt_worker p) e g N" "snd (worker_dir E p)" "prefix w0 (mnt_worker p)"
  shows "lays w0 V0 (mnt_worker p) (seq (worker_dir E p) e)
    (\<lambda>q. case q of [] \<Rightarrow> Some CDir | n # q \<Rightarrow> if n \<in> N then g n q else None)"
  unfolding lays_def
proof (intro allI impI)
  fix V :: "'f view"
  let ?w = "mnt_worker p"
  let ?V = "apply_op (Mkdirs ?w) V"
  assume V: "agrees w0 V0 V" "fresh V ?w"
  have eff: "effect (seq (worker_dir E p) e) V = effect e ?V"
    using assms(2) by (auto simp: worker_dir_def simp del: apply_op.simps(1-5))
  have only: "only ?w V ?V" by (auto simp: only_def)
  have "V ?w = None" using V(2) by (metis append_Nil2 fresh_def)
  then have V': "agrees w0 V0 ?V" "?V ?w = Some CDir" "\<forall>n \<in> N. fresh ?V (?w @ [n])"
    using agrees_only [OF V(1) only assms(3)] V(2) by (auto simp: fresh_def prefix_def)
  then have 1: "\<forall>n \<in> N. \<forall>q. effect e ?V (?w @ n # q) = g n q"
    "\<And>p. (\<forall>n \<in> N. \<not> prefix (?w @ [n]) p) \<Longrightarrow> effect e ?V p = ?V p \<or> (strict_prefix p ?w \<and> ?V p = None \<and> effect e ?V p = Some CDir)"
    using assms(1) unfolding lays_dir_def by blast+
  have "effect e ?V (?w @ n # q) = None" if "n \<notin> N" for n q
    using 1(2) [of "?w @ n # q"] that V(2) by (auto simp: fresh_def)
  moreover have "effect e ?V ?w = Some CDir" using 1(2) [of ?w] V'(2) by auto
  ultimately have "\<forall>q. effect e ?V (?w @ q) = (case q of [] \<Rightarrow> Some CDir | n # q \<Rightarrow> if n \<in> N then g n q else None)"
    using 1(1) by (auto split: list.split)
  moreover have "only ?w ?V (effect e ?V)"
    unfolding only_def
  proof (intro allI impI)
    fix x assume "\<not> prefix ?w x"
    then have "\<forall>n \<in> N. \<not> prefix (?w @ [n]) x" using append_prefixD by blast
    from 1(2) [OF this] show "effect e ?V x = ?V x \<or> prefix x ?w \<and> ?V x = None \<and> effect e ?V x = Some CDir"
      by (auto simp: strict_prefix_def simp del: apply_op.simps)
  qed
  ultimately show "(\<forall>q. effect (seq (worker_dir E p) e) V (?w @ q) = (case q of [] \<Rightarrow> Some CDir | n # q \<Rightarrow> if n \<in> N then g n q else None)) \<and>
      only ?w V (effect (seq (worker_dir E p) e) V)"
    unfolding eff using only_trans [OF only] by blast
qed

section \<open>The worker directory shows the overlay\<close>

text \<open>The real directories below \<open>r\<close> can be read and have distinct names that are UTF-8.\<close>

definition env_ok :: "'a mod_env \<Rightarrow> path \<Rightarrow> bool" where
  "env_ok E r \<longleftrightarrow>
     (\<forall>q. me_opens E (r @ q) \<and> me_ok E (ReadLink (r @ q)) \<and> (\<forall>es. open_dir E (r @ q) = Some es \<longrightarrow> tree_ok es))"

definition node_ok :: "path \<Rightarrow> fs_node \<Rightarrow> bool" where
  "node_ok w x = (case x of Directory ch \<Rightarrow> map_ok ch \<and> srcs_ok w ch | File src \<Rightarrow> apart w src | _ \<Rightarrow> True)"

lemma env_ok_sub: "env_ok E r \<Longrightarrow> env_ok E (r @ q)"
  by (simp add: env_ok_def)

lemma map_ok_inv: "map_ok ch \<Longrightarrow> bt_inv ch"
  by (induction ch rule: map_ok.induct) (auto simp: bt_inv_Cons)

lemma children_ok: "map_ok ch \<Longrightarrow> srcs_ok w ch \<Longrightarrow> (n, c) \<in> set ch \<Longrightarrow> n \<noteq> ''.replace'' \<Longrightarrow> node_ok w c"
  by (induction w ch rule: srcs_ok.induct) (auto simp: node_ok_def split: fs_node.splits)

lemma replace_apart:
  assumes "srcs_ok w ch" "replace_dir ch = Some dir"
  shows "apart w dir"
proof -
  obtain src where "(''.replace'', File src) \<in> set ch" "dir = butlast src"
    using assms(2) by (auto simp: replace_dir_def bt_get_def dest!: map_of_SomeD split: option.splits fs_node.splits if_splits)
  with assms(1) show ?thesis by (induction w ch rule: srcs_ok.induct) auto
qed

lemma map_ok_filter: "map_ok ch \<Longrightarrow> map_ok (filter P ch)"
  by (induction ch rule: map_ok.induct) auto

lemma srcs_ok_filter: "srcs_ok w ch \<Longrightarrow> srcs_ok w (filter P ch)"
  by (induction w ch rule: srcs_ok.induct) auto

lemma tree_ok_dest:
  "tree_ok es \<Longrightarrow> distinct (map fst es)"
  "tree_ok es \<Longrightarrow> (n, x) \<in> set es \<Longrightarrow> readable n"
  "tree_ok es \<Longrightarrow> (n, NDir a sub) \<in> set es \<Longrightarrow> tree_ok sub"
  by (induction es rule: tree_ok.induct) (auto split: node.splits)

definition replaced_view :: "'f view \<Rightarrow> path \<Rightarrow> path \<Rightarrow> fs_map \<Rightarrow> string \<Rightarrow> path \<Rightarrow> 'f content option" where
  "replaced_view V dir r ch n q =
     (case map_of ch n of
        Some (Directory c) \<Rightarrow> V (dir @ n # q)
      | Some c \<Rightarrow> leaf_view V (r @ [n]) c q
      | None \<Rightarrow> None)"

lemma mount_append_simps [simp]:
  "mnt_real (mount_append n p) = mnt_real p @ [n]" "mnt_worker (mount_append n p) = mnt_worker p @ [n]"
  by (simp_all add: mount_append_def)

lemma lays_replace:
  assumes "apart w0 dir" "prefix w0 (mnt_worker p)" "distinct (map fst ch)" "\<forall>(n, c) \<in> set ch. node_ok w0 c"
    "snd (replace_children E dir p ch)"
  shows "lays_dir w0 V0 (mnt_worker p) (replace_children E dir p ch) (replaced_view V0 dir (mnt_real p) ch) (fst ` set ch)"
  using assms(3-5)
proof (induction ch)
  case (Cons x ch)
  obtain n c where x: "x = (n, c)" by (cases x)
  let ?e = "case c of Directory sub \<Rightarrow> mount_dummy E (dir @ [n]) (mnt_worker (mount_append n p)) True | _ \<Rightarrow> commit_leaf E (mount_append n p) c"
  let ?g = "replaced_view V0 dir (mnt_real p) (x # ch)"
  have pre: "prefix w0 (mnt_worker p @ [n])" using assms(2) by simp
  have ok: "snd ?e" "snd (replace_children E dir p ch)" using Cons.prems(3) by (simp_all add: x)
  have "lays w0 V0 (mnt_worker p @ [n]) ?e (?g n)"
  proof (cases "\<exists>d. c = Directory d")
    case True
    then obtain d where c: "c = Directory d" by blast
    have "lays w0 V0 (mnt_worker p @ [n]) ?e (\<lambda>q. V0 ((dir @ [n]) @ q))"
      using lays_dummy [OF apart_append [OF assms(1)] pre, of E "[n]" True V0] ok(1) by (simp add: c)
    then show ?thesis by (rule lays_cong) (simp add: c x replaced_view_def)
  next
    case False
    then have e: "?e = commit_leaf E (mount_append n p) c" by (auto split: fs_node.split)
    have "\<forall>src. c = File src \<longrightarrow> apart w0 src" using Cons.prems(2) by (auto simp: x node_ok_def)
    then have "lays w0 V0 (mnt_worker p @ [n]) ?e (leaf_view V0 (mnt_real p @ [n]) c)"
      using lays_leaf [of E "mount_append n p" c w0 V0] ok(1) pre False unfolding e by simp
    then show ?thesis
      by (rule lays_cong) (use False in \<open>auto simp: x replaced_view_def split: fs_node.split\<close>)
  qed
  then have 1: "lays_dir w0 V0 (mnt_worker p) ?e ?g {n}" by (rule lays_dir_single)
  have "lays_dir w0 V0 (mnt_worker p) (replace_children E dir p ch) (replaced_view V0 dir (mnt_real p) ch) (fst ` set ch)"
    using Cons by (simp add: x)
  then have 2: "lays_dir w0 V0 (mnt_worker p) (replace_children E dir p ch) ?g (fst ` set ch)"
    by (rule lays_dir_cong) (use Cons.prems(1) in \<open>auto simp: x replaced_view_def\<close>)
  show ?case
    using lays_dir_seq [OF 1 2 _ ok(1) assms(2)] Cons.prems(1) by (simp add: x)
qed (simp add: lays_dir_nop)

definition children_view :: "'a mod_env \<Rightarrow> 'f view \<Rightarrow> path \<Rightarrow> fs_map \<Rightarrow> string \<Rightarrow> path \<Rightarrow> 'f content option" where
  "children_view E V r ch n q =
     (case map_of ch n of Some c \<Rightarrow> overlay E V (r @ [n]) c (open_dir E (r @ [n])) q | None \<Rightarrow> None)"

lemma overlay_leaf: "\<forall>d. c \<noteq> Directory d \<Longrightarrow> overlay E V r c t q = leaf_view V r c q"
  by (cases c) simp_all

lemma overlay_mirror: "overlay E V r (Directory []) (Some es) q = node_view V r (NDir a es) q"
  by (cases q) (simp_all add: replace_dir_def bt_get_def bt_remove_def real_view_def)

lemma overlay_replace:
  assumes "replace_dir ch = Some dir"
  shows "overlay E V r (Directory ch) t q =
    (case q of [] \<Rightarrow> Some CDir | n # q \<Rightarrow> if n \<in> fst ` set (unreplace ch) then replaced_view V dir r (unreplace ch) n q else None)"
proof (cases q)
  case (Cons n q')
  have "map_of (unreplace ch) n = None \<longleftrightarrow> n \<notin> fst ` set (unreplace ch)" by (rule map_of_eq_None_iff)
  then show ?thesis using assms Cons by (auto simp: replaced_view_def bt_get_def split: option.splits fs_node.splits)
qed simp

lemma overlay_merge:
  assumes "replace_dir ch = None"
  shows "overlay E V r (Directory ch) t q =
    (case q of [] \<Rightarrow> Some CDir
     | n # q \<Rightarrow> if n \<in> fst ` set (unreplace ch) then children_view E V r (unreplace ch) n q else real_view V r t n q)"
proof (cases q)
  case (Cons n q')
  have "map_of (unreplace ch) n = None \<longleftrightarrow> n \<notin> fst ` set (unreplace ch)" by (rule map_of_eq_None_iff)
  then show ?thesis using assms Cons by (auto simp: children_view_def bt_get_def split: option.splits)
qed simp

lemma commit_tmpfs_leaf: "\<forall>d. node \<noteq> Directory d \<Longrightarrow> commit_tmpfs E p node r = commit_leaf E p node"
  by (subst commit_tmpfs.simps) (simp split: fs_node.split)

lemma commit_tmpfs_dir:
  "commit_tmpfs E p (Directory ch) r =
     seq (worker_dir E p)
       (case replace_dir ch of
          Some dir \<Rightarrow> replace_children E dir p (unreplace ch)
        | None \<Rightarrow> seq (case r of Some es \<Rightarrow> mirror E p (unreplace ch) es | None \<Rightarrow> nop) (tmpfs_children E p (unreplace ch)))"
  by (subst commit_tmpfs.simps) simp

lemma unreplace_ok:
  assumes "node_ok w (Directory ch)"
  shows "distinct (map fst (unreplace ch))" "\<forall>(n, c) \<in> set (unreplace ch). node_ok w c"
proof -
  have ok: "map_ok ch" "srcs_ok w ch" using assms by (simp_all add: node_ok_def)
  show "distinct (map fst (unreplace ch))"
    using map_ok_inv [OF ok(1)] by (simp add: bt_remove_def bt_inv_distinct bt_inv_filter)
  show "\<forall>(n, c) \<in> set (unreplace ch). node_ok w c"
    using children_ok [OF ok] by (auto simp: bt_remove_def)
qed

lemma in_unreplace: "bt_contains (unreplace ch) n \<longleftrightarrow> n \<in> fst ` set (unreplace ch)"
  by (simp add: bt_contains_def bt_get_def map_of_eq_None_iff)

lemma real_view_None: "n \<notin> fst ` set es \<Longrightarrow> real_view V p (Some es) n q = None"
  using map_of_eq_None_iff [of es n] by (simp add: real_view_def)

lemma lays_replaced_dir:
  assumes "replace_dir ch = Some dir" "node_ok w0 (Directory ch)" "prefix w0 (mnt_worker p)"
    "snd (commit_tmpfs E p (Directory ch) t)"
  shows "lays w0 V0 (mnt_worker p) (commit_tmpfs E p (Directory ch) t) (overlay E V0 (mnt_real p) (Directory ch) t)"
proof -
  let ?ch = "unreplace ch" and ?w = "mnt_worker p" and ?r = "mnt_real p"
  have e: "commit_tmpfs E p (Directory ch) t = seq (worker_dir E p) (replace_children E dir p ?ch)"
    by (simp add: commit_tmpfs_dir assms(1))
  have ok: "snd (worker_dir E p)" "snd (replace_children E dir p ?ch)" using assms(4) by (simp_all add: e)
  have "apart w0 dir" using replace_apart [OF _ assms(1)] assms(2) by (simp add: node_ok_def)
  then have "lays_dir w0 V0 ?w (replace_children E dir p ?ch) (replaced_view V0 dir ?r ?ch) (fst ` set ?ch)"
    using lays_replace [OF _ assms(3) unreplace_ok [OF assms(2)]] ok(2) by blast
  from lays_directory [OF this ok(1) assms(3)] show ?thesis
    unfolding e by (rule lays_cong) (simp only: overlay_replace [OF assms(1)])
qed

lemma lays_merged_dir:
  assumes "replace_dir ch = None" "snd (worker_dir E p)" "snd m" "prefix w0 (mnt_worker p)"
    and m: "lays_dir w0 V0 (mnt_worker p) m (real_view V0 (mnt_real p) t)
      (case t of Some es \<Rightarrow> {n \<in> fst ` set es. \<not> bt_contains (unreplace ch) n} | None \<Rightarrow> {})"
    and c: "lays_dir w0 V0 (mnt_worker p) c (children_view E V0 (mnt_real p) (unreplace ch)) (fst ` set (unreplace ch))"
  shows "lays w0 V0 (mnt_worker p) (seq (worker_dir E p) (seq m c)) (overlay E V0 (mnt_real p) (Directory ch) t)"
proof -
  let ?ch = "unreplace ch" and ?w = "mnt_worker p" and ?r = "mnt_real p"
  let ?N = "case t of Some es \<Rightarrow> {n \<in> fst ` set es. \<not> bt_contains ?ch n} | None \<Rightarrow> {}"
  let ?g = "\<lambda>n q. if n \<in> fst ` set ?ch then children_view E V0 ?r ?ch n q else real_view V0 ?r t n q"
  have m': "lays_dir w0 V0 ?w m ?g ?N"
    by (rule lays_dir_cong [OF m]) (auto simp: in_unreplace split: option.splits)
  have c': "lays_dir w0 V0 ?w c ?g (fst ` set ?ch)" by (rule lays_dir_cong [OF c]) simp
  have "lays_dir w0 V0 ?w (seq m c) ?g (?N \<union> fst ` set ?ch)"
    by (rule lays_dir_seq [OF m' c' _ assms(3,4)]) (auto simp: in_unreplace split: option.splits)
  from lays_directory [OF this assms(2,4)] show ?thesis
  proof (rule lays_cong)
    fix q
    have "real_view V0 ?r t n q' = None" if "n \<notin> ?N \<union> fst ` set ?ch" for n q'
      using that by (cases t) (auto simp: in_unreplace real_view_None, simp add: real_view_def)
    then show "(case q of [] \<Rightarrow> Some CDir | n # q \<Rightarrow> if n \<in> ?N \<union> fst ` set ?ch then ?g n q else None) =
        overlay E V0 ?r (Directory ch) t q"
      unfolding overlay_merge [OF assms(1)] by (auto split: list.split)
  qed
qed

text \<open>One entry of a mirrored directory.\<close>

definition mirror_entry :: "'a mod_env \<Rightarrow> mount_paths \<Rightarrow> 'a node \<Rightarrow> eff" where
  "mirror_entry E q x =
     (case x of
        NDir a sub \<Rightarrow> commit_tmpfs E q (Directory []) (if me_opens E (mnt_real q) then Some sub else None)
      | NLink a t \<Rightarrow> commit_link E q (if me_ok E (ReadLink (mnt_real q)) then link_target t else [])
      | _ \<Rightarrow> mount_dummy E (mnt_real q) (mnt_worker q) False)"

lemma lays_mirror_entry:
  assumes "\<And>a sub. x = NDir a sub \<Longrightarrow>
      lays w0 V0 (mnt_worker q) (commit_tmpfs E q (Directory []) (Some sub)) (overlay E V0 (mnt_real q) (Directory []) (Some sub))"
    "snd (mirror_entry E q x)" "prefix w0 (mnt_worker q)" "apart w0 (mnt_real q)" "env_ok E (mnt_real q)"
  shows "lays w0 V0 (mnt_worker q) (mirror_entry E q x) (node_view V0 (mnt_real q) x)"
proof -
  have env: "me_opens E (mnt_real q)" "me_ok E (ReadLink (mnt_real q))"
    using assms(5) unfolding env_ok_def by (metis append_Nil2)+
  show ?thesis
  proof (cases x)
    case (NDir a sub)
    then show ?thesis using assms(1) env(1) by (simp add: mirror_entry_def overlay_mirror [of E V0 _ sub _ a] lays_def)
  next
    case (NLink a t)
    then show ?thesis
      using lays_commit_link [of E q "link_target t" w0 V0] assms(2) env(2) by (simp add: mirror_entry_def lays_def)
  qed (use lays_dummy [OF assms(4,3), of E False V0] assms(2) in \<open>simp_all add: mirror_entry_def lays_def\<close>)
qed

lemma mirror_Cons:
  "readable n \<Longrightarrow> mirror E p ch ((n, x) # es) =
     (if bt_contains ch n then mirror E p ch es else seq (mirror_entry E (mount_append n p) x) (mirror E p ch es))"
  by (simp add: mirror_entry_def Let_def seq_def nop_def)

lemma commit_tmpfs_lays:
  "snd (commit_tmpfs E p node r) \<Longrightarrow> prefix w0 (mnt_worker p) \<Longrightarrow> node_ok w0 node \<Longrightarrow> (\<forall>es. r = Some es \<longrightarrow> tree_ok es) \<Longrightarrow>
     apart w0 (mnt_real p) \<Longrightarrow> env_ok E (mnt_real p) \<Longrightarrow>
     lays w0 V0 (mnt_worker p) (commit_tmpfs E p node r) (overlay E V0 (mnt_real p) node r)"
  "snd (mirror E p ch es) \<Longrightarrow> prefix w0 (mnt_worker p) \<Longrightarrow> tree_ok es \<Longrightarrow> apart w0 (mnt_real p) \<Longrightarrow> env_ok E (mnt_real p) \<Longrightarrow>
     lays_dir w0 V0 (mnt_worker p) (mirror E p ch es) (real_view V0 (mnt_real p) (Some es)) {n \<in> fst ` set es. \<not> bt_contains ch n}"
  "snd (tmpfs_children E p ch) \<Longrightarrow> prefix w0 (mnt_worker p) \<Longrightarrow> distinct (map fst ch) \<Longrightarrow> \<forall>(n, c) \<in> set ch. node_ok w0 c \<Longrightarrow>
     apart w0 (mnt_real p) \<Longrightarrow> env_ok E (mnt_real p) \<Longrightarrow>
     lays_dir w0 V0 (mnt_worker p) (tmpfs_children E p ch) (children_view E V0 (mnt_real p) ch) (fst ` set ch)"
proof (induction E p node r and E p ch es and E p ch rule: commit_tmpfs_mirror_tmpfs_children.induct)
  case (1 E p node r)
  show ?case
  proof (cases "\<exists>ch. node = Directory ch")
    case False
    then have leaf: "\<forall>d. node \<noteq> Directory d" by blast
    have "\<forall>src. node = File src \<longrightarrow> apart w0 src" using "1.prems"(3) by (auto simp: node_ok_def)
    then show ?thesis
      using lays_leaf [of E p node w0 V0] "1.prems"(1,2) leaf
      by (simp add: commit_tmpfs_leaf overlay_leaf lays_def)
  next
    case True
    then obtain ch where node: "node = Directory ch" by blast
    have ok: "node_ok w0 (Directory ch)" using "1.prems"(3) node by simp
    show ?thesis
    proof (cases "replace_dir ch")
      case (Some dir)
      then show ?thesis using lays_replaced_dir [OF Some ok "1.prems"(2), of E r V0] "1.prems"(1) by (simp add: node)
    next
      case None
      let ?ch = "unreplace ch"
      let ?m = "case r of Some es \<Rightarrow> mirror E p ?ch es | None \<Rightarrow> nop"
      have e: "commit_tmpfs E p node r = seq (worker_dir E p) (seq ?m (tmpfs_children E p ?ch))"
        by (simp add: node commit_tmpfs_dir None)
      have snds: "snd (worker_dir E p)" "snd ?m" "snd (tmpfs_children E p ?ch)" using "1.prems"(1) by (simp_all add: e)
      have m: "lays_dir w0 V0 (mnt_worker p) ?m (real_view V0 (mnt_real p) r)
          (case r of Some es \<Rightarrow> {n \<in> fst ` set es. \<not> bt_contains ?ch n} | None \<Rightarrow> {})"
        using "1.IH"(1) [OF node None] "1.prems" snds(2) by (cases r) (simp_all add: lays_dir_nop)
      have c: "lays_dir w0 V0 (mnt_worker p) (tmpfs_children E p ?ch) (children_view E V0 (mnt_real p) ?ch) (fst ` set ?ch)"
        using "1.IH"(2) [OF node None snds(3) "1.prems"(2) unreplace_ok [OF ok] "1.prems"(5,6)] .
      show ?thesis unfolding e unfolding node by (rule lays_merged_dir [OF None snds(1,2) "1.prems"(2) m c])
    qed
  qed
next
  case (2 E p ch)
  then show ?case by (simp add: lays_dir_nop)
next
  case (3 E p ch n x es)
  let ?q = "mount_append n p" and ?w = "mnt_worker p"
  let ?g = "real_view V0 (mnt_real p) (Some ((n, x) # es))" and ?N = "{n \<in> fst ` set es. \<not> bt_contains ch n}"
  have n: "readable n" "n \<notin> fst ` set es" "tree_ok es" "\<And>a sub. x = NDir a sub \<Longrightarrow> tree_ok sub"
    using "3.prems"(3) by (auto split: node.splits)
  have "lays_dir w0 V0 ?w (mirror E p ch es) (real_view V0 (mnt_real p) (Some es)) ?N"
    using "3.IH"(2) "3.prems" n(3) by simp
  then have rest: "lays_dir w0 V0 ?w (mirror E p ch es) ?g ?N"
    by (rule lays_dir_cong) (use n(2) in \<open>auto simp: real_view_def\<close>)
  show ?case
  proof (cases "bt_contains ch n")
    case True
    then have "{m \<in> fst ` set ((n, x) # es). \<not> bt_contains ch m} = ?N" by auto
    then show ?thesis using rest True by (simp only: mirror_Cons [OF n(1)] if_True)
  next
    case False
    then have names: "{m \<in> fst ` set ((n, x) # es). \<not> bt_contains ch m} = {n} \<union> ?N" by auto
    have e: "mirror E p ch ((n, x) # es) = seq (mirror_entry E ?q x) (mirror E p ch es)"
      using False by (simp only: mirror_Cons [OF n(1)] if_False)
    have ok: "snd (mirror_entry E ?q x)" using "3.prems"(1) unfolding e by simp
    have pre: "prefix w0 (mnt_worker ?q)" "apart w0 (mnt_real ?q)" "env_ok E (mnt_real ?q)"
      using "3.prems"(2,4,5) by (simp_all add: apart_append env_ok_sub)
    then have "me_opens E (mnt_real ?q)" using "3.prems"(5) unfolding env_ok_def by simp
    then have "lays w0 V0 (mnt_worker ?q) (mirror_entry E ?q x) (node_view V0 (mnt_real ?q) x)"
      using "3.IH"(1) [of ?q] n False pre ok
      by (intro lays_mirror_entry) (auto simp: node_ok_def mirror_entry_def)
    then have "lays w0 V0 (?w @ [n]) (mirror_entry E ?q x) (?g n)" by (simp add: lays_def real_view_def)
    then have "lays_dir w0 V0 ?w (mirror_entry E ?q x) ?g {n}" by (rule lays_dir_single)
    from lays_dir_seq [OF this rest _ ok "3.prems"(2)] n(2) show ?thesis unfolding e names by auto
  qed
next
  case (4 E p)
  then show ?case by (simp add: lays_dir_nop)
next
  case (5 E p n c ch)
  let ?q = "mount_append n p" and ?w = "mnt_worker p" and ?r = "mnt_real p"
  let ?g = "children_view E V0 ?r ((n, c) # ch)" and ?e = "commit_tmpfs E ?q c (open_dir E (?r @ [n]))"
  have ok: "snd ?e" "snd (tmpfs_children E p ch)" using "5.prems"(1) by simp_all
  have "\<forall>es. open_dir E (?r @ [n]) = Some es \<longrightarrow> tree_ok es" using "5.prems"(6) unfolding env_ok_def by blast
  then have "lays w0 V0 (mnt_worker ?q) ?e (overlay E V0 (mnt_real ?q) c (open_dir E (?r @ [n])))"
    using "5.IH"(1) [OF ok(1)] "5.prems" by (simp add: apart_append env_ok_sub)
  then have "lays w0 V0 (?w @ [n]) ?e (?g n)" by (simp add: lays_def children_view_def)
  then have 1: "lays_dir w0 V0 ?w ?e ?g {n}" by (rule lays_dir_single)
  have "lays_dir w0 V0 ?w (tmpfs_children E p ch) (children_view E V0 ?r ch) (fst ` set ch)"
    using "5.IH"(2) [OF ok(2)] "5.prems" by simp
  then have 2: "lays_dir w0 V0 ?w (tmpfs_children E p ch) ?g (fst ` set ch)"
    by (rule lays_dir_cong) (use "5.prems"(3) in \<open>auto simp: children_view_def\<close>)
  show ?case using lays_dir_seq [OF 1 2 _ ok(1) "5.prems"(2)] "5.prems"(3) by simp
qed

section \<open>The mounts show the overlay\<close>

definition both :: "path \<Rightarrow> path \<Rightarrow> 'f view \<Rightarrow> 'f view \<Rightarrow> bool" where
  "both r w V V' \<longleftrightarrow>
     (\<forall>p. \<not> prefix r p \<longrightarrow> \<not> prefix w p \<longrightarrow> V' p = V p \<or> (prefix p w \<and> V p = None \<and> V' p = Some CDir))"

definition agrees2 :: "path \<Rightarrow> path \<Rightarrow> 'f view \<Rightarrow> 'f view \<Rightarrow> bool" where
  "agrees2 r w V0 V \<longleftrightarrow> (\<forall>p. apart r p \<longrightarrow> apart w p \<longrightarrow> V p = V0 p)"

text \<open>From a view that is \<open>V0\<close> at \<open>r\<close>, with nothing at \<open>w\<close>, the calls \<open>e\<close> produce \<open>f\<close> at \<open>r\<close>.\<close>

definition mounts :: "path \<Rightarrow> path \<Rightarrow> 'f view \<Rightarrow> path \<Rightarrow> path \<Rightarrow> eff \<Rightarrow> (path \<Rightarrow> 'f content option) \<Rightarrow> bool" where
  "mounts r0 w0 V0 r w e f \<longleftrightarrow>
     (\<forall>V. agrees2 r0 w0 V0 V \<longrightarrow> (\<forall>q. V (r @ q) = V0 (r @ q)) \<longrightarrow> fresh V w \<longrightarrow>
        (\<forall>q. effect e V (r @ q) = f q) \<and> both r w V (effect e V))"

definition mounts_dir :: "path \<Rightarrow> path \<Rightarrow> 'f view \<Rightarrow> path \<Rightarrow> path \<Rightarrow> eff \<Rightarrow> (string \<Rightarrow> path \<Rightarrow> 'f content option) \<Rightarrow> string set \<Rightarrow> bool" where
  "mounts_dir r0 w0 V0 r w e g N \<longleftrightarrow>
     (\<forall>V. agrees2 r0 w0 V0 V \<longrightarrow> (\<forall>n \<in> N. \<forall>q. V (r @ n # q) = V0 (r @ n # q)) \<longrightarrow> (\<forall>n \<in> N. fresh V (w @ [n])) \<longrightarrow>
        (\<forall>n \<in> N. \<forall>q. effect e V (r @ n # q) = g n q) \<and>
        (\<forall>p. (\<forall>n \<in> N. \<not> prefix (r @ [n]) p \<and> \<not> prefix (w @ [n]) p) \<longrightarrow>
           effect e V p = V p \<or> (prefix p w \<and> V p = None \<and> effect e V p = Some CDir)))"

lemma mounts_dir_nop: "mounts_dir r0 w0 V0 r w nop g {}"
  by (simp add: mounts_dir_def)

lemma mounts_dir_cong:
  "mounts_dir r0 w0 V0 r w e g N \<Longrightarrow> (\<And>n q. n \<in> N \<Longrightarrow> g n q = g' n q) \<Longrightarrow> mounts_dir r0 w0 V0 r w e g' N"
  by (simp add: mounts_dir_def)

lemma mounts_dir_single:
  assumes "mounts r0 w0 V0 (r @ [n]) (w @ [n]) e (g n)"
  shows "mounts_dir r0 w0 V0 r w e g {n}"
  unfolding mounts_dir_def
proof (intro allI impI)
  fix V :: "'a view"
  assume V: "agrees2 r0 w0 V0 V" "\<forall>m \<in> {n}. \<forall>q. V (r @ m # q) = V0 (r @ m # q)" "\<forall>m \<in> {n}. fresh V (w @ [m])"
  then have *: "effect e V (r @ n # q) = g n q" "both (r @ [n]) (w @ [n]) V (effect e V)" for q
    using assms by (auto simp: mounts_def)
  have "effect e V p = V p \<or> prefix p w \<and> V p = None \<and> effect e V p = Some CDir"
    if "\<not> prefix (r @ [n]) p" "\<not> prefix (w @ [n]) p" for p
    using *(2) that by (auto simp: both_def)
  then show "(\<forall>m \<in> {n}. \<forall>q. effect e V (r @ m # q) = g m q) \<and>
      (\<forall>p. (\<forall>m \<in> {n}. \<not> prefix (r @ [m]) p \<and> \<not> prefix (w @ [m]) p) \<longrightarrow>
        effect e V p = V p \<or> (prefix p w \<and> V p = None \<and> effect e V p = Some CDir))"
    using *(1) by simp
qed

lemma apart_both: "apart r0 w0 \<Longrightarrow> prefix r0 r \<Longrightarrow> prefix w0 w \<Longrightarrow> apart r w"
  unfolding apart_def by (metis prefix_order.trans prefix_same_cases)

lemma mounts_dir_seq:
  assumes "mounts_dir r0 w0 V0 r w e g N" "mounts_dir r0 w0 V0 r w e' g N'" "N \<inter> N' = {}" "snd e"
    "prefix r0 r" "prefix w0 w" "apart r0 w0"
  shows "mounts_dir r0 w0 V0 r w (seq e e') g (N \<union> N')"
  unfolding mounts_dir_def
proof (intro allI impI)
  fix V :: "'a view"
  let ?V = "effect e V"
  assume V: "agrees2 r0 w0 V0 V" "\<forall>n \<in> N \<union> N'. \<forall>q. V (r @ n # q) = V0 (r @ n # q)" "\<forall>n \<in> N \<union> N'. fresh V (w @ [n])"
  have rw: "\<not> prefix (r @ p) (w @ q)" "\<not> prefix (w @ p) (r @ q)" "\<not> prefix (r @ p) w" for p q
    using apart_both [OF assms(7), of "r @ p" "w @ q"] apart_both [OF assms(7), of "r @ q" "w @ p"]
      apart_both [OF assms(7), of "r @ p" w] assms(5,6)
    by (auto simp: apart_def prefix_order.trans [OF _ prefixI [OF refl]])
  have 1: "\<forall>n \<in> N. \<forall>q. ?V (r @ n # q) = g n q"
    "\<And>p. (\<forall>n \<in> N. \<not> prefix (r @ [n]) p \<and> \<not> prefix (w @ [n]) p) \<Longrightarrow> ?V p = V p \<or> (prefix p w \<and> V p = None \<and> ?V p = Some CDir)"
    using assms(1) V unfolding mounts_dir_def by blast+
  have other: "?V (r @ n # q) = V (r @ n # q)" "?V (w @ n # q) = V (w @ n # q)" if "n \<in> N'" for n q
    using 1(2) [of "r @ n # q"] 1(2) [of "w @ n # q"] that assms(3) rw by auto
  have "agrees2 r0 w0 V0 ?V"
    unfolding agrees2_def
  proof (intro allI impI)
    fix p assume p: "apart r0 p" "apart w0 p"
    have "\<not> prefix (r @ [n]) p" "\<not> prefix (w @ [n]) p" "\<not> prefix p w" for n
      using apart_below [OF p(1), of "r @ [n]"] apart_below [OF p(2), of "w @ [n]"] apart_below [OF p(2), of w] assms(5,6)
      by auto
    then show "?V p = V0 p" using 1(2) [of p] V(1) p by (auto simp: agrees2_def)
  qed
  moreover have "\<forall>n \<in> N'. \<forall>q. ?V (r @ n # q) = V0 (r @ n # q)" "\<forall>n \<in> N'. fresh ?V (w @ [n])"
    using V(2,3) other by (auto simp: fresh_def)
  ultimately have 2: "\<forall>n \<in> N'. \<forall>q. effect e' ?V (r @ n # q) = g n q"
    "\<And>p. (\<forall>n \<in> N'. \<not> prefix (r @ [n]) p \<and> \<not> prefix (w @ [n]) p) \<Longrightarrow> effect e' ?V p = ?V p \<or> (prefix p w \<and> ?V p = None \<and> effect e' ?V p = Some CDir)"
    using assms(2) unfolding mounts_dir_def by blast+
  have "effect e' ?V (r @ n # q) = g n q" if "n \<in> N" for n q
    using 2(2) [of "r @ n # q"] 1(1) that assms(3) rw by auto
  moreover have "effect e' ?V p = V p \<or> (prefix p w \<and> V p = None \<and> effect e' ?V p = Some CDir)"
    if "\<forall>n \<in> N \<union> N'. \<not> prefix (r @ [n]) p \<and> \<not> prefix (w @ [n]) p" for p
    using 1(2) [of p] 2(2) [of p] that by auto
  ultimately show "(\<forall>n \<in> N \<union> N'. \<forall>q. effect (seq e e') V (r @ n # q) = g n q) \<and>
      (\<forall>p. (\<forall>n \<in> N \<union> N'. \<not> prefix (r @ [n]) p \<and> \<not> prefix (w @ [n]) p) \<longrightarrow>
        effect (seq e e') V p = V p \<or> (prefix p w \<and> V p = None \<and> effect (seq e e') V p = Some CDir))"
    using 2(1) assms(4) by auto
qed

text \<open>What the view shows of a real directory is what opening it gives.\<close>

definition real_ok :: "'a mod_env \<Rightarrow> 'f view \<Rightarrow> path \<Rightarrow> bool" where
  "real_ok E V r \<longleftrightarrow>
     (\<forall>q a es. me_lstat E (r @ q) = Some (NDir a es) \<longrightarrow>
        V (r @ q) = Some CDir \<and> (\<forall>n q'. V (r @ q @ n # q') = real_view V (r @ q) (open_dir E (r @ q)) n q'))"

definition real_dir :: "'a mod_env \<Rightarrow> path \<Rightarrow> bool" where
  "real_dir E p = (case me_lstat E p of Some (NDir a es) \<Rightarrow> True | _ \<Rightarrow> False)"

text \<open>
  A directory is not mounted over a file, nor a file over a directory, where no parent is rebuilt: the
  kernel refuses such a mount.
\<close>

fun fits :: "'a mod_env \<Rightarrow> mount_paths \<Rightarrow> fs_node \<Rightarrow> bool \<Rightarrow> bool"
  and fits_children :: "'a mod_env \<Rightarrow> mount_paths \<Rightarrow> fs_map \<Rightarrow> bool \<Rightarrow> bool"
where
  "fits E p (Directory ch) is_root \<longleftrightarrow>
     real_dir E (mnt_real p) \<and> (\<not> is_root \<and> list_ex (tmpfs_child E p) ch \<or> fits_children E p ch is_root)"
| "fits E p (File src) is_root \<longleftrightarrow> \<not> real_dir E (mnt_real p)"
| "fits E p _ is_root \<longleftrightarrow> False"
| "fits_children E p [] is_root \<longleftrightarrow> True"
| "fits_children E p ((n, c) # ch) is_root \<longleftrightarrow>
     (is_root \<and> tmpfs_child E p (n, c) \<or> fits E (mount_append n p) c False) \<and> fits_children E p ch is_root"

text \<open>The children a directory keeps when it is not rebuilt.\<close>

abbreviation kept :: "'a mod_env \<Rightarrow> mount_paths \<Rightarrow> fs_map \<Rightarrow> fs_map" where
  "kept E p ch \<equiv> filter (\<lambda>x. \<not> tmpfs_child E p x) ch"

definition shown :: "'a mod_env \<Rightarrow> mount_paths \<Rightarrow> fs_node \<Rightarrow> bool \<Rightarrow> fs_node" where
  "shown E p x is_root = (case x of Directory ch \<Rightarrow> Directory (if is_root then kept E p ch else ch) | _ \<Rightarrow> x)"

lemma node_view_cong: "(\<And>q. V (p @ q) = V' (p @ q)) \<Longrightarrow> node_view V p x q = node_view V' p x q"
proof (induction V p x q rule: node_view.induct)
  case (2 V p a es n q)
  then show ?case by (auto split: option.split)
qed auto

lemma sources_agree:
  assumes "agrees2 r0 w0 V0 V" "apart r0 src" "apart w0 src"
  shows "V (src @ q) = V0 (src @ q)"
  using assms apart_append by (auto simp: agrees2_def)

lemma leaf_view_cong:
  assumes "agrees2 r0 w0 V0 V" "node_ok r0 c" "node_ok w0 c"
  shows "leaf_view V p c q = leaf_view V0 p c q"
  using assms sources_agree [OF assms(1)] by (cases c) (auto simp: node_ok_def)

lemma overlay_cong:
  assumes "agrees2 r0 w0 V0 V"
  shows "(\<And>q. V (r @ q) = V0 (r @ q)) \<Longrightarrow> node_ok r0 c \<Longrightarrow> node_ok w0 c \<Longrightarrow> overlay E V r c t q = overlay E V0 r c t q"
proof (induction q arbitrary: r c t)
  case Nil
  then show ?case using leaf_view_cong [OF assms, of c r "[]"] by (cases c) (simp_all add: overlay_leaf)
next
  case (Cons n q)
  show ?case
  proof (cases "\<exists>ch. c = Directory ch")
    case False
    then show ?thesis using leaf_view_cong [OF assms, of c r "n # q"] Cons.prems by (simp add: overlay_leaf)
  next
    case True
    then obtain ch where c: "c = Directory ch" by blast
    have sub: "V ((r @ [n]) @ q') = V0 ((r @ [n]) @ q')" for q' using Cons.prems(1) by simp
    have child: "node_ok r0 x \<and> node_ok w0 x" if "bt_get (unreplace ch) n = Some x" for x
      using unreplace_ok(2) [of r0 ch] unreplace_ok(2) [of w0 ch] Cons.prems(2,3) bt_get_SomeD [OF that] c by auto
    have dir: "V (dir @ n # q) = V0 (dir @ n # q)" if "replace_dir ch = Some dir" for dir
      using sources_agree [OF assms, of dir "n # q"] replace_apart [OF _ that] Cons.prems(2,3) c
      by (simp add: node_ok_def)
    have real: "real_view V r t n q = real_view V0 r t n q"
      by (simp add: real_view_def node_view_cong [of V "r @ [n]" V0, OF sub] split: option.split)
    show ?thesis unfolding c
      using Cons.IH [OF sub] child dir real leaf_view_cong [OF assms]
      by (simp del: leaf_view.simps split: option.split fs_node.split)
  qed
qed

lemma mounts_tmpfs:
  fixes V0 :: "'f view"
  assumes "snd (commit_tmpfs E p node (open_dir E (mnt_real p)))" "prefix r0 (mnt_real p)" "prefix w0 (mnt_worker p)" "apart r0 w0"
    "node_ok r0 node" "node_ok w0 node" "env_ok E (mnt_real p)"
  shows "mounts r0 w0 V0 (mnt_real p) (mnt_worker p)
    (seq (commit_tmpfs E p node (open_dir E (mnt_real p))) (bind_mount (mnt_worker p) (mnt_real p) True))
    (overlay E V0 (mnt_real p) node (open_dir E (mnt_real p)))"
  unfolding mounts_def
proof (intro allI impI)
  fix V :: "'f view"
  let ?r = "mnt_real p" and ?w = "mnt_worker p"
  let ?t = "open_dir E ?r"
  let ?e = "commit_tmpfs E p node ?t"
  assume V: "agrees2 r0 w0 V0 V" "\<forall>q. V (?r @ q) = V0 (?r @ q)" "fresh V ?w"
  have "apart w0 ?r" using apart_both [OF assms(4,2), of w0] by (simp add: apart_def)
  moreover have "\<forall>es. ?t = Some es \<longrightarrow> tree_ok es"
    using assms(7) unfolding env_ok_def by (metis append_Nil2)
  ultimately have "lays w0 V ?w ?e (overlay E V ?r node ?t)"
    using commit_tmpfs_lays(1) [OF assms(1,3,6)] assms(7) by blast
  then have lays: "effect ?e V (?w @ q) = overlay E V ?r node ?t q" "only ?w V (effect ?e V)" for q
    using V(3) by (auto simp: lays_def agrees_def)
  have "overlay E V ?r node ?t q = overlay E V0 ?r node ?t q" for q
    using overlay_cong [OF V(1)] V(2) assms(5,6) by blast
  then show "(\<forall>q. effect (seq ?e (bind_mount ?w ?r True)) V (?r @ q) = overlay E V0 ?r node ?t q) \<and>
      both ?r ?w V (effect (seq ?e (bind_mount ?w ?r True)) V)"
    using lays assms(1) by (auto simp: both_def only_def)
qed

lemma kept_props:
  "replace_dir (kept E p ch) = None" "unreplace (kept E p ch) = kept E p ch" "''.replace'' \<notin> fst ` set (kept E p ch)"
proof -
  show r: "''.replace'' \<notin> fst ` set (kept E p ch)" by (auto simp: tmpfs_child_def)
  then have "map_of (kept E p ch) ''.replace'' = None" by (simp add: map_of_eq_None_iff)
  then show "replace_dir (kept E p ch) = None" by (simp add: replace_dir_def bt_get_def)
  show "unreplace (kept E p ch) = kept E p ch"
    unfolding bt_remove_def by (rule filter_True) (use r in force)
qed

lemma mounts_kept:
  fixes V0 :: "'f view"
  assumes dir: "mounts_dir r0 w0 V0 (mnt_real p) (mnt_worker p) e (children_view E V0 (mnt_real p) (kept E p ch)) (fst ` set (kept E p ch))"
    and real: "real_dir E (mnt_real p)" "real_ok E V0 (mnt_real p)"
    and pre: "prefix r0 (mnt_real p)" "prefix w0 (mnt_worker p)" "apart r0 w0"
  shows "mounts r0 w0 V0 (mnt_real p) (mnt_worker p) e
    (overlay E V0 (mnt_real p) (Directory (kept E p ch)) (open_dir E (mnt_real p)))"
  unfolding mounts_def
proof (intro allI impI)
  fix V :: "'f view"
  let ?r = "mnt_real p" and ?w = "mnt_worker p" and ?N = "fst ` set (kept E p ch)"
  let ?t = "open_dir E ?r"
  assume V: "agrees2 r0 w0 V0 V" "\<forall>q. V (?r @ q) = V0 (?r @ q)" "fresh V ?w"
  have rw: "apart ?r ?w" using apart_both [OF pre(3,1,2)] .
  have 1: "\<forall>n \<in> ?N. \<forall>q. effect e V (?r @ n # q) = children_view E V0 ?r (kept E p ch) n q"
    "\<And>x. (\<forall>n \<in> ?N. \<not> prefix (?r @ [n]) x \<and> \<not> prefix (?w @ [n]) x) \<Longrightarrow>
       effect e V x = V x \<or> (prefix x ?w \<and> V x = None \<and> effect e V x = Some CDir)"
    using dir V fresh_sub unfolding mounts_dir_def by blast+
  have out: "\<not> prefix (?w @ [n]) (?r @ q)" "\<not> prefix (?r @ q) ?w" for n q
    using apart_append [OF rw [THEN apart_sym], of q] append_prefixD [of ?w "[n]" "?r @ q"] by (auto simp: apart_def)
  have same: "effect e V (?r @ q) = V0 (?r @ q)" if "\<forall>n \<in> ?N. \<not> prefix (?r @ [n]) (?r @ q)" for q
    using 1(2) [of "?r @ q"] that out V(2) by metis
  obtain a es where lstat: "me_lstat E ?r = Some (NDir a es)"
    using real(1) by (auto simp: real_dir_def split: option.splits node.splits)
  have root: "V0 ?r = Some CDir" "V0 (?r @ n # q) = real_view V0 ?r ?t n q" for n q
    using real(2) [unfolded real_ok_def, rule_format, of "[]" a es] lstat by auto
  have "effect e V (?r @ q) = overlay E V0 ?r (Directory (kept E p ch)) ?t q" for q
  proof (cases q)
    case Nil
    then show ?thesis using same [of "[]"] root(1) by simp
  next
    case (Cons n q')
    show ?thesis
    proof (cases "n \<in> ?N")
      case True
      then show ?thesis using bspec [OF 1(1) True] unfolding Cons overlay_merge [OF kept_props(1)] kept_props(2) by simp
    next
      case False
      have "effect e V (?r @ n # q') = V0 (?r @ n # q')"
      proof (rule same, rule ballI)
        fix m assume "m \<in> ?N"
        then have "m \<noteq> n" using False by metis
        then show "\<not> prefix (?r @ [m]) (?r @ n # q')" by simp
      qed
      then show ?thesis using False root(2) unfolding Cons overlay_merge [OF kept_props(1)] kept_props(2) by simp
    qed
  qed
  moreover have "both ?r ?w V (effect e V)"
    unfolding both_def
  proof (intro allI impI)
    fix x assume "\<not> prefix ?r x" "\<not> prefix ?w x"
    then have "\<forall>n \<in> ?N. \<not> prefix (?r @ [n]) x \<and> \<not> prefix (?w @ [n]) x" using append_prefixD by blast
    then show "effect e V x = V x \<or> prefix x ?w \<and> V x = None \<and> effect e V x = Some CDir" by (rule 1(2))
  qed
  ultimately show "(\<forall>q. effect e V (?r @ q) = overlay E V0 ?r (Directory (kept E p ch)) ?t q) \<and> both ?r ?w V (effect e V)"
    by blast
qed

lemma real_ok_sub: "real_ok E V r \<Longrightarrow> real_ok E V (r @ q)"
  unfolding real_ok_def by (metis append.assoc)

lemma mounts_file:
  assumes "apart r0 src" "apart w0 src"
  shows "mounts r0 w0 V0 r w (bind_mount src r False) (\<lambda>q. V0 (src @ q))"
  using sources_agree [OF _ assms, of V0] by (auto simp: mounts_def both_def)

lemma kept_Cons: "kept E p (x # ch) = (if tmpfs_child E p x then kept E p ch else x # kept E p ch)"
  by simp

lemma commit_mounts:
  fixes V0 :: "'f view"
  assumes "apart r0 w0"
  shows "fits E p node rt \<Longrightarrow> snd (commit E p node rt) \<Longrightarrow> node_ok r0 node \<Longrightarrow> node_ok w0 node \<Longrightarrow>
     prefix r0 (mnt_real p) \<Longrightarrow> prefix w0 (mnt_worker p) \<Longrightarrow> env_ok E (mnt_real p) \<Longrightarrow> real_ok E V0 (mnt_real p) \<Longrightarrow>
     mounts r0 w0 V0 (mnt_real p) (mnt_worker p) (commit E p node rt)
       (overlay E V0 (mnt_real p) (shown E p node rt) (open_dir E (mnt_real p)))"
    and "fits_children E p ch rt \<Longrightarrow> snd (commit_children E p ch rt) \<Longrightarrow> distinct (map fst ch) \<Longrightarrow>
     \<forall>x \<in> set ch. fst x \<noteq> ''.replace'' \<longrightarrow> node_ok r0 (snd x) \<and> node_ok w0 (snd x) \<Longrightarrow>
     rt \<or> \<not> list_ex (tmpfs_child E p) ch \<Longrightarrow>
     prefix r0 (mnt_real p) \<Longrightarrow> prefix w0 (mnt_worker p) \<Longrightarrow> env_ok E (mnt_real p) \<Longrightarrow> real_ok E V0 (mnt_real p) \<Longrightarrow>
     mounts_dir r0 w0 V0 (mnt_real p) (mnt_worker p) (commit_children E p ch rt)
       (children_view E V0 (mnt_real p) (kept E p ch)) (fst ` set (kept E p ch))"
proof (induction E p node rt and E p ch rt rule: commit_commit_children.induct)
  case (1 E p ch is_root)
  have ok: "distinct (map fst ch)" "\<forall>x \<in> set ch. fst x \<noteq> ''.replace'' \<longrightarrow> node_ok r0 (snd x) \<and> node_ok w0 (snd x)"
    using "1.prems"(3,4) children_ok bt_inv_distinct [OF map_ok_inv] by (auto simp: node_ok_def)
  show ?case
  proof (cases "\<not> is_root \<and> list_ex (tmpfs_child E p) ch")
    case True
    then show ?thesis
      using mounts_tmpfs [of E p "Directory ch" r0 w0 V0] assms "1.prems" by (simp add: shown_def)
  next
    case False
    then have kept: "shown E p (Directory ch) is_root = Directory (kept E p ch)"
      by (auto simp: shown_def list_ex_iff intro!: filter_True [symmetric])
    have "mounts_dir r0 w0 V0 (mnt_real p) (mnt_worker p) (commit_children E p ch is_root)
        (children_view E V0 (mnt_real p) (kept E p ch)) (fst ` set (kept E p ch))"
      using "1.IH" [OF False] "1.prems" False ok by auto
    moreover have "real_dir E (mnt_real p)" using "1.prems"(1) by simp
    moreover have "commit E p (Directory ch) is_root = commit_children E p ch is_root" using False by auto
    ultimately show ?thesis
      unfolding kept using mounts_kept "1.prems"(5,6,8) assms by metis
  qed
next
  case (2 E p src is_root)
  then show ?case using mounts_file [of r0 src w0 V0] by (simp add: node_ok_def shown_def mounts_def)
next
  case (5 E p n c ch is_root)
  let ?q = "mount_append n p" and ?r = "mnt_real p" and ?w = "mnt_worker p"
  let ?g = "children_view E V0 ?r (kept E p ((n, c) # ch))"
  have rest: "mounts_dir r0 w0 V0 ?r ?w (commit_children E p ch is_root) (children_view E V0 ?r (kept E p ch)) (fst ` set (kept E p ch))"
    using "5.IH"(2) "5.prems" by auto
  show ?case
  proof (cases "tmpfs_child E p (n, c)")
    case True
    then have "commit_children E p ((n, c) # ch) is_root = commit_children E p ch is_root"
      using "5.prems"(5) by (simp add: seq_def nop_def)
    then show ?thesis using rest True by (simp only: kept_Cons if_True)
  next
    case False
    then have e: "commit_children E p ((n, c) # ch) is_root = seq (commit E ?q c False) (commit_children E p ch is_root)"
      by simp
    have ok: "snd (commit E ?q c False)" using "5.prems"(2) unfolding e by simp
    have "node_ok r0 c" "node_ok w0 c" using "5.prems"(4) False by (auto simp: tmpfs_child_def)
    moreover have "fits E ?q c False" using "5.prems"(1) False by simp
    moreover have "shown E ?q c False = c" by (simp add: shown_def split: fs_node.split)
    ultimately have "mounts r0 w0 V0 (mnt_real ?q) (mnt_worker ?q) (commit E ?q c False) (overlay E V0 (mnt_real ?q) c (open_dir E (mnt_real ?q)))"
      using "5.IH"(1) ok "5.prems"(6-9) False by (simp add: env_ok_sub real_ok_sub)
    then have "mounts r0 w0 V0 (?r @ [n]) (?w @ [n]) (commit E ?q c False) (?g n)"
      using False by (simp add: mounts_def children_view_def)
    then have 1: "mounts_dir r0 w0 V0 ?r ?w (commit E ?q c False) ?g {n}" by (rule mounts_dir_single)
    have n: "n \<notin> fst ` set (kept E p ch)" using "5.prems"(3) by auto
    have 2: "mounts_dir r0 w0 V0 ?r ?w (commit_children E p ch is_root) ?g (fst ` set (kept E p ch))"
      by (rule mounts_dir_cong [OF rest]) (use n False in \<open>auto simp: children_view_def\<close>)
    have "{n} \<union> fst ` set (kept E p ch) = fst ` set (kept E p ((n, c) # ch))" using False by simp
    then show ?thesis
      using mounts_dir_seq [OF 1 2 _ ok "5.prems"(6,7) assms] n unfolding e by simp
  qed
qed (simp_all add: mounts_dir_nop)

section \<open>File systems given by a tree\<close>

text \<open>A file system whose links nothing is reached through.\<close>

fun look :: "'a node \<Rightarrow> path \<Rightarrow> 'a node option" where
  "look x [] = Some x"
| "look (NDir a es) (n # q) = (case map_of es n of Some y \<Rightarrow> look y q | None \<Rightarrow> None)"
| "look _ (n # q) = None"

definition tree_env :: "'a node \<Rightarrow> 'a mod_env" where
  "tree_env root =
     \<lparr>me_lstat = look root, me_at = look root, me_opens = \<lambda>p. True, me_ok = \<lambda>c. True,
      me_char_device = \<lambda>a. False, me_rdev = \<lambda>a. 0, me_other_exec = \<lambda>x. True\<rparr>"

text \<open>Every file shows itself.\<close>

definition tree_view :: "'a node \<Rightarrow> path view" where
  "tree_view root p =
     (case look root p of
        Some (NDir a es) \<Rightarrow> Some CDir
      | Some (NLink a t) \<Rightarrow> Some (CLink (link_target t))
      | Some x \<Rightarrow> Some (CFile p)
      | None \<Rightarrow> None)"

lemma look_append: "look x (p @ q) = (case look x p of Some y \<Rightarrow> look y q | None \<Rightarrow> None)"
  by (induction x p rule: look.induct) (auto split: option.split)

lemma look_leaf: "\<forall>a es. x \<noteq> NDir a es \<Longrightarrow> q \<noteq> [] \<Longrightarrow> look x q = None"
  by (cases x; cases q) auto

lemma look_tree_ok:
  "look x p = Some (NDir a es) \<Longrightarrow> (\<forall>b bs. x = NDir b bs \<longrightarrow> tree_ok bs) \<Longrightarrow> tree_ok es"
proof (induction x p rule: look.induct)
  case (2 b bs n q)
  then obtain y where y: "map_of bs n = Some y" "look y q = Some (NDir a es)" by (auto split: option.splits)
  have bs: "tree_ok bs" using "2.prems"(2) by simp
  have "tree_ok cs" if "y = NDir c cs" for c cs
    using tree_ok_dest(3) [OF bs] map_of_SomeD [OF y(1)] that by simp
  then show ?case using "2.IH" [OF y] by simp
qed auto

lemma tree_node_view:
  assumes "look root p = Some x"
  shows "node_view (tree_view root) p x q = tree_view root (p @ q)"
  using assms
proof (induction "tree_view root" p x q rule: node_view.induct)
  case (2 p a es n q)
  then show ?case by (auto simp: tree_view_def look_append split: option.split)
next
  case (3 p a t q)
  then show ?case by (cases q) (auto simp: tree_view_def look_append)
qed (auto simp: tree_view_def look_append)

lemma tree_env_ok:
  assumes "tree_ok es"
  shows "env_ok (tree_env (NDir a es)) r" "real_ok (tree_env (NDir a es)) (tree_view (NDir a es)) r"
proof -
  have "tree_ok bs" if opened: "open_dir (tree_env (NDir a es)) p = Some bs" for p bs
  proof -
    obtain b where "look (NDir a es) p = Some (NDir b bs)"
      using opened by (auto simp: tree_env_def open_dir_def split: option.splits node.splits)
    then show ?thesis by (rule look_tree_ok) (simp add: assms)
  qed
  then show "env_ok (tree_env (NDir a es)) r" by (simp add: env_ok_def) (simp add: tree_env_def)
  show "real_ok (tree_env (NDir a es)) (tree_view (NDir a es)) r"
    unfolding real_ok_def
  proof (intro allI impI)
    fix q b bs
    let ?V = "tree_view (NDir a es)"
    assume "me_lstat (tree_env (NDir a es)) (r @ q) = Some (NDir b bs)"
    then have l: "look (NDir a es) (r @ q) = Some (NDir b bs)" by (simp add: tree_env_def)
    then have o: "open_dir (tree_env (NDir a es)) (r @ q) = Some bs" by (simp add: tree_env_def open_dir_def)
    have "?V (r @ q @ n # q') = real_view ?V (r @ q) (Some bs) n q'" for n q'
      using tree_node_view [OF l, of "n # q'"] by (simp add: real_view_def)
    then show "?V (r @ q) = Some CDir \<and> (\<forall>n q'. ?V (r @ q @ n # q') = real_view ?V (r @ q) (open_dir (tree_env (NDir a es)) (r @ q)) n q')"
      unfolding o using l by (simp add: tree_view_def)
  qed
qed

section \<open>Properties\<close>


definition demo_root :: "unit node" where
  "demo_root = NDir ()
     [(''system'', NDir () [(''bin'', NDir () [(''sh'', NFile () [])]), (''lib'', NDir () [(''a.so'', NFile () [])])]),
      (''tmp'', NDir () [(''m'', NDir () [(''su'', NFile () []), (''a.so'', NFile () [])])])]"

definition demo_map :: fs_map where
  "demo_map =
     [(''bin'', Directory [(''su'', File [''tmp'', ''m'', ''su''])]),
      (''lib'', Directory [(''a.so'', File [''tmp'', ''m'', ''a.so''])]),
      (''new'', File [''tmp'', ''m'', ''su''])]"

definition demo_paths :: mount_paths where
  "demo_paths = \<lparr>mnt_real = [''system''], mnt_worker = [''tmp'', ''worker'']\<rparr>"

lemmas may_fail = must_def worker_dir_def mount_dummy_def commit_link_def

lemma commit_leaf_ok: "\<forall>c. me_ok E c \<Longrightarrow> snd (commit_leaf E p node)"
  by (cases node) (simp_all add: may_fail)

lemma replace_children_ok: "\<forall>c. me_ok E c \<Longrightarrow> snd (replace_children E dir p ch)"
  by (induction ch) (auto simp: commit_leaf_ok may_fail split: fs_node.split)

text \<open>Mounting succeeds when no call fails.\<close>

lemma commit_tmpfs_ok:
  "\<forall>c. me_ok E c \<Longrightarrow> snd (commit_tmpfs E p node t)"
  "\<forall>c. me_ok E c \<Longrightarrow> snd (mirror E p ch es)"
  "\<forall>c. me_ok E c \<Longrightarrow> snd (tmpfs_children E p ch)"
proof (induction E p node t and E p ch es and E p ch rule: commit_tmpfs_mirror_tmpfs_children.induct)
  case (1 E p node t)
  then show ?case
    by (cases "\<exists>ch. node = Directory ch")
      (auto simp: commit_tmpfs_leaf commit_tmpfs_dir commit_leaf_ok replace_children_ok may_fail split: option.split)
next
  case (3 E p ch n x es)
  then show ?case by (cases x) (auto simp: may_fail Let_def)
qed simp_all

lemma commit_ok:
  "\<forall>c. me_ok E c \<Longrightarrow> snd (commit E p node rt)"
  "\<forall>c. me_ok E c \<Longrightarrow> snd (commit_children E p ch rt)"
  by (induction E p node rt and E p ch rt rule: commit_commit_children.induct) (auto simp: commit_tmpfs_ok)

lemmas demo_defs = demo_root_def demo_map_def demo_paths_def


end
