(* ===== verification/ModuleCollect.thy ===== *)
theory ModuleCollect
  imports ModuleMount
begin

text \<open>
  The tree collected from the modules.  \<open>module_at\<close> is what a module has at a path, read off its
  directory; the collected tree has at each path what the first module has that provides it.
\<close>

section \<open>Reading a tree\<close>

definition kind :: "fs_node \<Rightarrow> fs_node" where
  "kind x = (case x of Directory ch \<Rightarrow> Directory [] | _ \<Rightarrow> x)"

fun kind_at :: "fs_map \<Rightarrow> path \<Rightarrow> fs_node option" where
  "kind_at ch [] = Some (Directory [])"
| "kind_at ch (n # q) =
     (case bt_get ch n of
        Some (Directory c) \<Rightarrow> kind_at c q
      | Some x \<Rightarrow> if q = [] then Some x else None
      | None \<Rightarrow> None)"

text \<open>Something that is not a directory lies above the path.\<close>

fun blocked :: "fs_map \<Rightarrow> path \<Rightarrow> bool" where
  "blocked ch [] \<longleftrightarrow> False"
| "blocked ch (n # q) \<longleftrightarrow>
     (case bt_get ch n of Some (Directory c) \<Rightarrow> blocked c q | Some x \<Rightarrow> q \<noteq> [] | None \<Rightarrow> False)"

fun module_at :: "'a mod_env \<Rightarrow> module_paths \<Rightarrow> 'a entries \<Rightarrow> path \<Rightarrow> fs_node option" where
  "module_at E p es [] = Some (Directory [])"
| "module_at E p es (n # q) =
     (case map_of es n of
        Some (NDir a sub) \<Rightarrow> module_at E (module_append n p) sub q
      | Some (NLink a t) \<Rightarrow> if q = [] then Some (Symlink (link_target t)) else None
      | Some (NOther a) \<Rightarrow>
          if q \<noteq> [] then None
          else if is_whiteout E a then Some Whiteout
          else Some (File (mp_module_mnt (module_append n p)))
      | Some (NFile a bs) \<Rightarrow> if q = [] then Some (File (mp_module_mnt (module_append n p))) else None
      | None \<Rightarrow> None)"

definition overlaid :: "fs_map \<Rightarrow> (path \<Rightarrow> fs_node option) \<Rightarrow> path \<Rightarrow> fs_node option" where
  "overlaid ch m q =
     (case kind_at ch q of Some k \<Rightarrow> Some k | None \<Rightarrow> if blocked ch q then None else m q)"

section \<open>Collecting\<close>

lemma bt_get_or_insert: "bt_get (or_insert n x ch) m = (if m = n \<and> bt_get ch n = None then Some x else bt_get ch m)"
  by (auto simp: or_insert_def bt_contains_def bt_get_insert)

lemma map_ok_iff: "map_ok ch \<longleftrightarrow> bt_inv ch \<and> (\<forall>(n, c) \<in> set ch. case c of Directory d \<Rightarrow> map_ok d | _ \<Rightarrow> True)"
  by (induction ch rule: map_ok.induct) (auto simp: bt_inv_Cons)

lemma map_ok_insert:
  "map_ok ch \<Longrightarrow> (case c of Directory d \<Rightarrow> map_ok d | _ \<Rightarrow> True) \<Longrightarrow> map_ok (bt_insert n c ch)"
  unfolding map_ok_iff [of ch] map_ok_iff [of "bt_insert n c ch"]
  by (auto simp: bt_inv_insert) (auto simp: bt_insert_def)

lemma map_ok_or_insert: "map_ok ch \<Longrightarrow> (case c of Directory d \<Rightarrow> map_ok d | _ \<Rightarrow> True) \<Longrightarrow> map_ok (or_insert n c ch)"
  by (simp add: or_insert_def map_ok_insert)

lemma map_ok_get: "map_ok ch \<Longrightarrow> bt_get ch n = Some (Directory c) \<Longrightarrow> map_ok c"
  using bt_get_SomeD unfolding map_ok_iff [of ch] by fastforce

text \<open>One entry of a module directory, as in the loop of \<open>collect\<close>.\<close>

definition collect_entry :: "'a mod_env \<Rightarrow> module_paths \<Rightarrow> string \<Rightarrow> 'a node \<Rightarrow> fs_map \<Rightarrow> fs_map \<times> eff" where
  "collect_entry E q n x ch =
     (case x of
        NDir a sub \<Rightarrow>
          let ch = or_insert n (Directory []) ch
          in (case bt_get ch n of
                Some (Directory c) \<Rightarrow>
                  if me_opens E (mp_module q) then
                    let (c, e) = collect E q c sub in (bt_insert n (Directory c) ch, e)
                  else (ch, ([], False))
              | _ \<Rightarrow> (ch, nop))
      | NLink a t \<Rightarrow>
          let e = must E (ReadLink (mp_module q))
          in (if snd e then or_insert n (Symlink (link_target t)) ch else ch, e)
      | _ \<Rightarrow> collect_file E q n x ch)"

lemma collect_Cons:
  "readable n \<Longrightarrow> collect E p ch ((n, x) # es) =
     (let (ch, e) = collect_entry E (module_append n p) n x ch
      in if snd e then let (ch, e') = collect E p ch es in (ch, seq e e') else (ch, e))"
  by (simp add: collect_entry_def Let_def)

declare collect.simps(2) [simp del]

lemma collect_other: "bt_get (fst (collect_entry E q n x ch)) m = bt_get ch m" if "m \<noteq> n"
  using that
  by (auto simp: collect_entry_def collect_file_def Let_def bt_get_or_insert bt_get_insert split: node.split fs_node.split option.split prod.split)

lemma collect_file_entry:
  assumes "snd (snd (collect_file E (module_append n p) n x ch))" "\<forall>a sub. x \<noteq> NDir a sub" "\<forall>a t. x \<noteq> NLink a t"
  shows "kind_at (fst (collect_file E (module_append n p) n x ch)) (n # q) = overlaid ch (module_at E p ((n, x) # es)) (n # q)"
  using assms
  by (cases x; cases "bt_get ch n")
    (auto simp: collect_file_def overlaid_def bt_get_or_insert is_whiteout_def Let_def split: if_splits fs_node.split option.split)

lemma collect_entry_spec:
  assumes "snd (snd (collect_entry E (module_append n p) n x ch))"
    and IH: "\<And>a sub c q. x = NDir a sub \<Longrightarrow> snd (snd (collect E (module_append n p) c sub)) \<Longrightarrow>
      kind_at (fst (collect E (module_append n p) c sub)) q = overlaid c (module_at E (module_append n p) sub) q"
  shows "kind_at (fst (collect_entry E (module_append n p) n x ch)) (n # q) = overlaid ch (module_at E p ((n, x) # es)) (n # q)"
proof (cases x)
  case (NDir a sub)
  show ?thesis
  proof (cases "bt_get ch n")
    case None
    then show ?thesis using assms(1) IH [OF NDir, of "[]" q]
      by (auto simp: collect_entry_def NDir bt_get_or_insert overlaid_def bt_get_insert Let_def split: prod.splits if_splits option.split)
        (cases q; simp add: bt_get_def)+
  next
    case (Some y)
    show ?thesis
    proof (cases "\<exists>c. y = Directory c")
      case True
      then obtain c where y: "y = Directory c" by blast
      then show ?thesis using assms(1) IH [OF NDir, of c q] Some
        by (auto simp: collect_entry_def NDir bt_get_or_insert overlaid_def bt_get_insert Let_def split: prod.splits if_splits option.split)
    next
      case False
      then show ?thesis using Some
        by (cases y) (auto simp: collect_entry_def NDir bt_get_or_insert overlaid_def Let_def split: option.split)
    qed
  qed
next
  case (NLink a t)
  then show ?thesis using assms(1)
    by (cases "bt_get ch n") (auto simp: collect_entry_def overlaid_def bt_get_or_insert Let_def split: fs_node.split if_splits option.split)
next
  case (NFile a bs)
  then show ?thesis using assms(1) collect_file_entry [of E n p x ch q es] by (simp add: collect_entry_def)
next
  case (NOther a)
  then show ?thesis using assms(1) collect_file_entry [of E n p x ch q es] by (simp add: collect_entry_def)
qed

lemma kind_at_same: "bt_get ch m = bt_get ch' m \<Longrightarrow> kind_at ch (m # q) = kind_at ch' (m # q)"
  by simp

lemma overlaid_same:
  assumes "bt_get ch m = bt_get ch' m" "f (m # q) = g (m # q)"
  shows "overlaid ch f (m # q) = overlaid ch' g (m # q)"
proof -
  have "kind_at ch (m # q) = kind_at ch' (m # q)" "blocked ch (m # q) = blocked ch' (m # q)" using assms(1) by simp_all
  then show ?thesis unfolding overlaid_def assms(2) by simp
qed

lemma module_at_same: "m \<noteq> n \<Longrightarrow> module_at E p ((n, x) # es) (m # q) = module_at E p es (m # q)"
  by simp

lemma module_at_absent: "n \<notin> fst ` set es \<Longrightarrow> module_at E p es (n # q) = None"
  using map_of_eq_None_iff [of es n] by simp

lemma collect_spec:
  "tree_ok es \<Longrightarrow> snd (snd (collect E p ch es)) \<Longrightarrow> kind_at (fst (collect E p ch es)) q = overlaid ch (module_at E p es) q"
proof (induction es arbitrary: p ch q rule: measure_induct_rule [of entries_weight])
  case (less es)
  show ?case
  proof (cases es)
    case Nil
    then show ?thesis by (cases q) (auto simp: overlaid_def split: option.split)
  next
    case (Cons y es')
    obtain n x where y: "y = (n, x)" by (cases y)
    let ?q = "module_append n p"
    obtain ch1 e1 where 1: "collect_entry E ?q n x ch = (ch1, e1)" by (cases "collect_entry E ?q n x ch")
    have n: "readable n" "n \<notin> fst ` set es'" "tree_ok es'" "\<And>a sub. x = NDir a sub \<Longrightarrow> tree_ok sub"
      using less.prems(1) by (auto simp: Cons y split: node.splits)
    have e1: "snd e1" and rest: "snd (snd (collect E p ch1 es'))"
      and eq: "fst (collect E p ch es) = fst (collect E p ch1 es')"
      using less.prems(2) 1 by (auto simp: Cons y collect_Cons [OF n(1)] Let_def split: prod.splits if_splits)
    have IH: "kind_at (fst (collect E p ch1 es')) q = overlaid ch1 (module_at E p es') q" for q
      using less.IH [OF _ n(3) rest] entries_weight_Cons [of es' n x] by (simp add: Cons y)
    show ?thesis
    proof (cases q)
      case Nil
      then show ?thesis by (simp add: overlaid_def)
    next
      case q: (Cons m q')
      show ?thesis
      proof (cases "m = n")
        case True
        have "kind_at ch1 (n # q') = overlaid ch (module_at E p es) (n # q')"
          using collect_entry_spec [of E n p x ch q' es'] less.IH n(4) e1 unfolding 1 Cons y by simp
        moreover have "overlaid ch1 (module_at E p es') (n # q') = kind_at ch1 (n # q')"
          unfolding overlaid_def module_at_absent [OF n(2)] by (simp split: option.split)
        ultimately show ?thesis unfolding eq IH q True by simp
      next
        case False
        then have "bt_get ch1 m = bt_get ch m" using collect_other [of m n E ?q x ch] 1 by simp
        then show ?thesis
          unfolding eq IH q unfolding Cons y by (rule overlaid_same) (rule module_at_same [OF False, symmetric])
      qed
    qed
  qed
qed

section \<open>Properties\<close>

text \<open>
  C25. Collecting the tree of a module into the tree of the modules before it keeps at every path what is
  there already, and adds what the module has at the other paths, unless a file, link or whiteout of an
  earlier module lies above.
\<close>

theorem collect_first_wins:
  assumes "tree_ok es" "snd (snd (collect E p ch es))"
  shows "kind_at (fst (collect E p ch es)) q =
    (case kind_at ch q of
       Some k \<Rightarrow> Some k
     | None \<Rightarrow> if blocked ch q then None else module_at E p es q)"
  using collect_spec [OF assms] by (simp add: overlaid_def)

definition demo_module :: "unit entries" where
  "demo_module = [(''bin'', NDir () [(''su'', NFile () []), (''tool'', NFile () [])]), (''etc'', NLink () ''/e'')]"

definition demo_first :: fs_map where
  "demo_first = [(''bin'', Directory [(''su'', Whiteout)]), (''etc'', File [''m'', ''etc''])]"

theorem collect_first_wins_witness:
  "kind_at (fst (collect (tree_env demo_root) (module_paths_new [''tmp'']) demo_first demo_module)) [''bin'', ''su''] = Some Whiteout \<and>
   kind_at (fst (collect (tree_env demo_root) (module_paths_new [''tmp'']) demo_first demo_module)) [''bin'', ''tool''] =
     Some (File [''tmp'', ''.magisk'', ''modules'', ''bin'', ''tool'']) \<and>
   kind_at (fst (collect (tree_env demo_root) (module_paths_new [''tmp'']) demo_first demo_module)) [''etc''] = Some (File [''m'', ''etc''])"
proof -
  let ?E = "tree_env demo_root" and ?p = "module_paths_new [''tmp'']"
  have ok: "tree_ok demo_module" by (simp add: demo_module_def readable_def utf8_valid_ascii)
  have run: "snd (snd (collect ?E ?p demo_first demo_module))"
    by (simp add: demo_module_def demo_first_def collect.simps readable_def utf8_valid_ascii or_insert_def bt_contains_def
        bt_get_def bt_insert_def collect_file_def must_def nop_def seq_def tree_env_def path_exists_def Let_def)
  show ?thesis
    using collect_first_wins [OF ok run, of "[''bin'', ''su'']"] collect_first_wins [OF ok run, of "[''bin'', ''tool'']"]
      collect_first_wins [OF ok run, of "[''etc'']"]
    by (simp add: demo_module_def demo_first_def bt_get_def module_paths_new_def module_append_def MODULEMNT_def)
qed

end
