(* ===== verification/Socket.thy ===== *)
theory Socket
  imports Prelude
begin

text \<open>
  core/socket.rs and the derive macro of base/derive/decodable.rs: the wire format between the
  clients and the daemon.  A decoder reads from the bytes available before the end of the stream and
  returns the value and the bytes left.  Every error of the stream is \<open>LoggedError\<close>; a negative
  length makes \<open>with_capacity\<close> panic.  The traits \<open>Encodable\<close> and \<open>Decodable\<close> are the locale
  \<open>wire\<close>, interpreted on every type that implements them.
\<close>

section \<open>Encoders and decoders\<close>

type_synonym 'a decoder = "bytes \<Rightarrow> ('a \<times> bytes) res"

definition read_pod :: "nat \<Rightarrow> nat decoder" where
  "read_pod k r = (if length r < k then Inl LoggedError else Inr (of_le (take k r), drop k r))"

definition encode_u8 :: "nat \<Rightarrow> bytes" where "encode_u8 n = le_bytes 1 n"
definition decode_u8 :: "nat decoder" where "decode_u8 = read_pod 1"
definition encode_u32 :: "nat \<Rightarrow> bytes" where "encode_u32 n = le_bytes 4 n"
definition decode_u32 :: "nat decoder" where "decode_u32 = read_pod 4"

text \<open>An \<open>i32\<close> is the integer it stands for; \<open>as_i32\<close> is the cast from a wider unsigned type.\<close>

definition as_i32 :: "nat \<Rightarrow> int" where
  "as_i32 n = (let m = n mod 2 ^ 32 in if m < 2 ^ 31 then int m else int m - 2 ^ 32)"

definition i32_ok :: "int \<Rightarrow> bool" where
  "i32_ok i \<longleftrightarrow> - (2 ^ 31) \<le> i \<and> i < 2 ^ 31"

definition encode_i32 :: "int \<Rightarrow> bytes" where
  "encode_i32 i = le_bytes 4 (nat (i mod 2 ^ 32))"

definition decode_i32 :: "int decoder" where
  "decode_i32 r = bindE (read_pod 4 r) (\<lambda>(n, r). Inr (as_i32 n, r))"

definition encode_bool :: "bool \<Rightarrow> bytes" where
  "encode_bool b = (if b then encode_u8 1 else encode_u8 0)"

definition decode_bool :: "bool decoder" where
  "decode_bool r = bindE (decode_u8 r) (\<lambda>(n, r). Inr (n \<noteq> 0, r))"

definition encode_slice :: "('a \<Rightarrow> bytes) \<Rightarrow> 'a list \<Rightarrow> bytes" where
  "encode_slice enc xs = encode_i32 (as_i32 (length xs)) @ concat (map enc xs)"

fun decode_n :: "'a decoder \<Rightarrow> nat \<Rightarrow> 'a list decoder" where
  "decode_n dec 0 r = Inr ([], r)"
| "decode_n dec (Suc n) r =
     bindE (dec r) (\<lambda>(x, r). bindE (decode_n dec n r) (\<lambda>(xs, r). Inr (x # xs, r)))"

definition decode_vec :: "'a decoder \<Rightarrow> 'a list decoder" where
  "decode_vec dec r =
     bindE (decode_i32 r) (\<lambda>(len, r).
       if len < 0 then Inl Panic else decode_n dec (nat len) r)"

definition encode_str :: "string \<Rightarrow> bytes" where
  "encode_str s = encode_i32 (as_i32 (length s)) @ s"

definition decode_string :: "string decoder" where
  "decode_string r =
     bindE (decode_i32 r) (\<lambda>(len, r).
       if len < 0 then Inl Panic
       else if utf8_valid (take (nat len) r) then Inr (take (nat len) r, drop (nat len) r)
       else Inl LoggedError)"

text \<open>\<open>SuRequest\<close> of core/lib.rs with the code that \<open>derive(Decodable)\<close> generates.\<close>

record su_request =
  rq_target_uid :: int
  rq_target_pid :: int
  rq_login :: bool
  rq_keep_env :: bool
  rq_drop_cap :: bool
  rq_shell :: string
  rq_command :: string
  rq_context :: string
  rq_gids :: "nat list"

definition encode_su_request :: "su_request \<Rightarrow> bytes" where
  "encode_su_request q =
     encode_i32 (rq_target_uid q) @ encode_i32 (rq_target_pid q) @ encode_bool (rq_login q)
     @ encode_bool (rq_keep_env q) @ encode_bool (rq_drop_cap q) @ encode_str (rq_shell q)
     @ encode_str (rq_command q) @ encode_str (rq_context q) @ encode_slice encode_u32 (rq_gids q)"

definition decode_su_request :: "su_request decoder" where
  "decode_su_request r =
     bindE (decode_i32 r) (\<lambda>(target_uid, r).
     bindE (decode_i32 r) (\<lambda>(target_pid, r).
     bindE (decode_bool r) (\<lambda>(login, r).
     bindE (decode_bool r) (\<lambda>(keep_env, r).
     bindE (decode_bool r) (\<lambda>(drop_cap, r).
     bindE (decode_string r) (\<lambda>(shell, r).
     bindE (decode_string r) (\<lambda>(command, r).
     bindE (decode_string r) (\<lambda>(context, r).
     bindE (decode_vec decode_u32 r) (\<lambda>(gids, r).
     Inr (\<lparr>rq_target_uid = target_uid, rq_target_pid = target_pid, rq_login = login,
           rq_keep_env = keep_env, rq_drop_cap = drop_cap, rq_shell = shell, rq_command = command,
           rq_context = context, rq_gids = gids\<rparr>, r))))))))))"

section \<open>The contract\<close>

locale wire =
  fixes enc :: "'a \<Rightarrow> bytes" and dec :: "'a decoder" and ok :: "'a \<Rightarrow> bool"
  assumes decode_encode: "ok x \<Longrightarrow> dec (enc x @ r) = Inr (x, r)"
begin

lemma encode_inj: "ok x \<Longrightarrow> ok y \<Longrightarrow> enc x @ r = enc y @ r' \<Longrightarrow> x = y \<and> r = r'"
proof -
  assume xy: "ok x" "ok y" and e: "enc x @ r = enc y @ r'"
  have "dec (enc y @ r') = Inr (x, r)" using decode_encode[OF xy(1), of r] unfolding e .
  then show "x = y \<and> r = r'" using decode_encode[OF xy(2), of r'] by simp
qed

lemma decode_n_encode:
  "list_all ok xs \<Longrightarrow> decode_n dec (length xs) (concat (map enc xs) @ r) = Inr (xs, r)"
  by (induction xs) (simp_all add: decode_encode)

end

lemma as_i32_small: "n < 2 ^ 31 \<Longrightarrow> as_i32 n = int n"
  by (simp add: as_i32_def)

lemma as_i32_mod:
  assumes "i32_ok i"
  shows "as_i32 (nat (i mod 2 ^ 32)) = i"
proof (cases "0 \<le> i")
  case True
  then have "nat (i mod 2 ^ 32) = nat i" using assms by (simp add: i32_ok_def)
  then show ?thesis using True assms by (simp add: as_i32_def i32_ok_def nat_less_iff)
next
  case False
  have "i mod 2 ^ 32 = (i + 2 ^ 32) mod 2 ^ 32" by simp
  also have "\<dots> = i + 2 ^ 32"
    using False assms by (intro mod_pos_pos_trivial) (auto simp: i32_ok_def)
  finally have e: "i mod 2 ^ 32 = i + 2 ^ 32" .
  define m where "m = nat (i + 2 ^ 32)"
  have m: "m < 2 ^ 32" "2 ^ 31 \<le> m" "int m = i + 2 ^ 32"
    using False assms by (auto simp: m_def i32_ok_def)
  have "as_i32 m = int m - 2 ^ 32" using m(1,2) by (simp add: as_i32_def)
  then have "as_i32 m = i" using m(3) by simp
  then show ?thesis unfolding e m_def .
qed

lemma read_pod_le [simp]: "n < 256 ^ k \<Longrightarrow> read_pod k (le_bytes k n @ r) = Inr (n, r)"
  by (simp add: read_pod_def)

interpretation u8: wire encode_u8 decode_u8 "\<lambda>n. n < 256"
  by unfold_locales (simp add: encode_u8_def decode_u8_def del: One_nat_def)

interpretation u32: wire encode_u32 decode_u32 "\<lambda>n. n < 2 ^ 32"
  by unfold_locales (simp add: encode_u32_def decode_u32_def)

interpretation i32: wire encode_i32 decode_i32 i32_ok
proof unfold_locales
  fix i r assume i: "i32_ok i"
  have "nat (i mod 2 ^ 32) < 256 ^ 4" by (simp add: nat_less_iff)
  then show "decode_i32 (encode_i32 i @ r) = Inr (i, r)"
    using as_i32_mod[OF i] by (simp add: decode_i32_def encode_i32_def)
qed

interpretation bool: wire encode_bool decode_bool "\<lambda>_. True"
  using u8.decode_encode[of 0] u8.decode_encode[of 1]
  by unfold_locales (simp add: encode_bool_def decode_bool_def)

abbreviation len_ok :: "'a list \<Rightarrow> bool" where
  "len_ok xs \<equiv> length xs < 2 ^ 31"

lemma decode_len:
  "len_ok xs \<Longrightarrow> decode_i32 (encode_i32 (as_i32 (length xs)) @ r) = Inr (int (length xs), r)"
  using i32.decode_encode[of "int (length xs)" r] by (simp add: as_i32_small i32_ok_def)

interpretation str: wire encode_str decode_string "\<lambda>s. utf8_valid s \<and> len_ok s"
  by unfold_locales (simp add: encode_str_def decode_string_def decode_len)

text \<open>A vector of encodable elements is encodable.\<close>

context wire
begin

lemma decode_vec_encode:
  "list_all ok xs \<Longrightarrow> len_ok xs \<Longrightarrow> decode_vec dec (encode_slice enc xs @ r) = Inr (xs, r)"
  using decode_n_encode[of xs r] by (simp add: encode_slice_def decode_vec_def decode_len)

end

interpretation u32s: wire "encode_slice encode_u32" "decode_vec decode_u32"
    "\<lambda>xs. list_all (\<lambda>n. n < 2 ^ 32) xs \<and> len_ok xs"
  by unfold_locales (simp add: u32.decode_vec_encode)

definition su_request_ok :: "su_request \<Rightarrow> bool" where
  "su_request_ok q \<longleftrightarrow> i32_ok (rq_target_uid q) \<and> i32_ok (rq_target_pid q)
     \<and> list_all (\<lambda>s. utf8_valid s \<and> len_ok s) [rq_shell q, rq_command q, rq_context q]
     \<and> list_all (\<lambda>n. n < 2 ^ 32) (rq_gids q) \<and> len_ok (rq_gids q)"

interpretation su_request: wire encode_su_request decode_su_request su_request_ok
proof unfold_locales
  fix q r assume "su_request_ok q"
  then show "decode_su_request (encode_su_request q @ r) = Inr (q, r)"
    unfolding su_request_ok_def decode_su_request_def encode_su_request_def append_assoc
    by (simp add: i32.decode_encode bool.decode_encode str.decode_encode u32s.decode_encode)
qed

section \<open>Properties\<close>

text \<open>
  C9. A superuser request sent over the socket is received as it was sent, whatever follows it in
  the stream, and no two requests have the same encoding.
\<close>
theorem su_request_roundtrip:
  assumes "su_request_ok q"
  shows "decode_su_request (encode_su_request q @ rest) = Inr (q, rest)
    \<and> (su_request_ok q' \<longrightarrow> encode_su_request q' = encode_su_request q \<longrightarrow> q' = q)"
  using su_request.decode_encode[OF assms, of rest] su_request.encode_inj[of q' q "[]" "[]"] assms by simp

theorem su_request_roundtrip_witness:
  "decode_su_request (encode_su_request \<lparr>rq_target_uid = 0, rq_target_pid = -1, rq_login = False,
      rq_keep_env = True, rq_drop_cap = False, rq_shell = ''/system/bin/sh'', rq_command = ''id'',
      rq_context = [], rq_gids = [2000, 3003]\<rparr> @ ''x'')
    = Inr (\<lparr>rq_target_uid = 0, rq_target_pid = -1, rq_login = False,
      rq_keep_env = True, rq_drop_cap = False, rq_shell = ''/system/bin/sh'', rq_command = ''id'',
      rq_context = [], rq_gids = [2000, 3003]\<rparr>, ''x'')"
  by (rule su_request_roundtrip [THEN conjunct1]) (simp add: su_request_ok_def i32_ok_def)

text \<open>
  The daemon's decoder does not survive every input: a request in which the length of the shell
  is negative makes it panic, whatever the client sends after the length.
\<close>
theorem negative_length_panics:
  assumes "- (2 ^ 31) \<le> n" "n < 0"
  shows "decode_su_request (encode_i32 0 @ encode_i32 0 @ encode_bool b1 @ encode_bool b2 @ encode_bool b3
    @ encode_i32 n @ rest) = Inl Panic"
proof -
  have "decode_string (encode_i32 n @ rest) = Inl Panic"
    using i32.decode_encode[of n rest] assms by (simp add: decode_string_def i32_ok_def)
  then show ?thesis
    by (simp add: decode_su_request_def i32.decode_encode bool.decode_encode i32_ok_def)
qed

theorem negative_length_panics_witness:
  "decode_su_request (encode_i32 0 @ encode_i32 0 @ encode_bool False @ encode_bool False @ encode_bool False
    @ encode_i32 (-1) @ []) = Inl Panic"
  by (rule negative_length_panics) simp_all

text \<open>
  A string cut off by the end of the stream is decoded without an error, as the part that
  arrived, when that part is valid UTF-8.
\<close>
theorem truncated_string_accepted:
  assumes "length s + length t < 2 ^ 31" "utf8_valid s"
  shows "decode_string (encode_i32 (as_i32 (length (s @ t))) @ s) = Inr (s, [])"
  using decode_len[of "s @ t" s] assms by (simp add: decode_string_def)

theorem truncated_string_accepted_witness:
  "decode_string (encode_i32 (as_i32 (length (''rm'' @ '' -rf /tmp/x''))) @ ''rm'') = Inr (''rm'', [])"
  by (rule truncated_string_accepted) simp_all

end
