(* ===== verification/ApkCert.thy ===== *)
theory ApkCert
  imports Files Socket
begin

text \<open>
  The certificate of a signed APK (\<open>read_certificate\<close> in core/package.rs).  A file is its content and
  a position; reading past the end and seeking before the start fail.  The loop over the id-value
  pairs is a \<open>partial_function\<close>: a loop that never ends has the value \<open>None\<close>.
\<close>

section \<open>Reading a file at a position\<close>

definition EOCD_MAGIC :: nat where "EOCD_MAGIC = 0x06054B50"
definition APK_SIGNING_BLOCK_MAGIC :: bytes where "APK_SIGNING_BLOCK_MAGIC = ''APK Sig Block 42''"
definition SIGNATURE_SCHEME_V2_MAGIC :: nat where "SIGNATURE_SCHEME_V2_MAGIC = 0x7109871A"

definition read_exact :: "nat \<Rightarrow> bytes \<Rightarrow> nat \<Rightarrow> (bytes \<times> nat) res" where
  "read_exact k apk pos =
     (if length apk < pos + k then Inl LoggedError else Inr (take k (drop pos apk), pos + k))"

definition read_num :: "nat \<Rightarrow> bytes \<Rightarrow> nat \<Rightarrow> (nat \<times> nat) res" where
  "read_num k apk pos = bindE (read_exact k apk pos) (\<lambda>(bs, pos). Inr (of_le bs, pos))"

definition seek :: "int \<Rightarrow> nat res" where
  "seek target = (if target < 0 then Inl LoggedError else Inr (nat target))"

text \<open>The cast of a \<open>u64\<close> to \<open>i64\<close>, and \<open>i64\<close> arithmetic, which wraps around.\<close>

definition wrap_i64 :: "int \<Rightarrow> int" where
  "wrap_i64 n = (let m = n mod 2 ^ 64 in if m < 2 ^ 63 then m else m - 2 ^ 64)"

definition parse_i32 :: "string \<Rightarrow> int option" where
  "parse_i32 s =
     (if prefix ''-'' s then
        (if tl s = [] then None else map_option (\<lambda>n. - int n) (dec_loop (2 ^ 31 + 1) 0 (tl s)))
      else map_option int (parse_unsigned (2 ^ 31) s))"

section \<open>The end of central directory record\<close>

text \<open>The position after the magic number of the record, scanning back from the end of the file.\<close>

function find_eocd :: "bytes \<Rightarrow> nat \<Rightarrow> nat res" where
  "find_eocd apk i =
     bindE (seek (int (length apk) - 2 - int i)) (\<lambda>pos.
     bindE (read_num 2 apk pos) (\<lambda>(comment_sz, pos).
     bindE (if comment_sz = i then
              bindE (seek (int pos - 22)) (\<lambda>pos.
              bindE (read_num 4 apk pos) (\<lambda>(magic, pos).
              Inr (if magic = EOCD_MAGIC then Some pos else None)))
            else Inr None) (\<lambda>found.
     case found of
       Some pos \<Rightarrow> Inr pos
     | None \<Rightarrow> if 0xffff \<le> i then Inl LoggedError else find_eocd apk (Suc i))))"
  by pat_completeness auto
termination by (relation "measure (\<lambda>(apk, i). 0x10000 - i)") auto

definition apk_version :: "bytes \<Rightarrow> int" where
  "apk_version comment =
     for_each_prop (\<lambda>v key val.
         if key = ''versionCode'' then (case parse_i32 val of Some n \<Rightarrow> n | None \<Rightarrow> 0, False) else (v, True))
       0 comment"

section \<open>The signing block\<close>

text \<open>One turn of the loop: the result, or the position of the next pair.\<close>

definition cert_pair :: "bytes \<Rightarrow> nat \<Rightarrow> nat \<Rightarrow> (bytes option \<times> nat) res" where
  "cert_pair apk signing_blk_sz pos =
     bindE (read_num 8 apk pos) (\<lambda>(u64_val, pos).
     if u64_val = signing_blk_sz then Inl LoggedError
     else
       bindE (read_num 4 apk pos) (\<lambda>(ident, pos).
       if ident = SIGNATURE_SCHEME_V2_MAGIC then
         bindE (seek (int pos + 12)) (\<lambda>pos.
         bindE (read_num 4 apk pos) (\<lambda>(u32_val, pos).
         bindE (seek (int pos + int u32_val)) (\<lambda>pos.
         bindE (seek (int pos + 4)) (\<lambda>pos.
         bindE (read_num 4 apk pos) (\<lambda>(u32_val, pos).
         bindE (read_exact u32_val apk pos) (\<lambda>(cert, pos).
         Inr (Some cert, pos)))))))
       else
         bindE (seek (int pos + wrap_i64 (wrap_i64 (int u64_val) - 4))) (\<lambda>pos. Inr (None, pos))))"

partial_function (option) cert_loop :: "bytes \<Rightarrow> nat \<Rightarrow> nat \<Rightarrow> bytes res option" where
  "cert_loop apk signing_blk_sz pos =
     (case cert_pair apk signing_blk_sz pos of
        Inl e \<Rightarrow> Some (Inl e)
      | Inr (found, pos) \<Rightarrow>
          (case found of
             Some cert \<Rightarrow> Some (Inr cert)
           | None \<Rightarrow> cert_loop apk signing_blk_sz pos))"

text \<open>The size of the signing block and the position of its first pair.\<close>

definition signing_block :: "bytes \<Rightarrow> int \<Rightarrow> (nat \<times> nat) res" where
  "signing_block apk version =
     bindE (find_eocd apk 0) (\<lambda>pos.
     bindE (seek (int pos + 12)) (\<lambda>pos.
     bindE (read_num 4 apk pos) (\<lambda>(central_dir_off, pos).
     bindE (if 0 \<le> version then
              bindE (read_num 2 apk pos) (\<lambda>(comment_sz, pos).
              bindE (read_exact comment_sz apk pos) (\<lambda>(comment, pos).
              if apk_version comment < version then Inl LoggedError else Inr ()))
            else Inr ()) (\<lambda>_.
     bindE (seek ((int central_dir_off - 24) mod 2 ^ 32)) (\<lambda>pos.
     bindE (read_num 8 apk pos) (\<lambda>(u64_val, pos).
     bindE (read_exact 16 apk pos) (\<lambda>(magic, pos).
     if magic \<noteq> APK_SIGNING_BLOCK_MAGIC then Inl LoggedError
     else
       bindE (seek (int pos + wrap_i64 (- wrap_i64 (int u64_val) - 8))) (\<lambda>pos.
       bindE (read_num 8 apk pos) (\<lambda>(signing_blk_sz, pos).
       if signing_blk_sz \<noteq> u64_val then Inl LoggedError
       else Inr (signing_blk_sz, pos))))))))))"

definition read_certificate :: "bytes \<Rightarrow> int \<Rightarrow> bytes option" where
  "read_certificate apk version =
     (case signing_block apk version of
        Inl e \<Rightarrow> Some []
      | Inr (signing_blk_sz, pos) \<Rightarrow>
          map_option (\<lambda>r. case r of Inl e \<Rightarrow> [] | Inr cert \<Rightarrow> cert) (cert_loop apk signing_blk_sz pos))"

declare find_eocd.simps [simp del]

section \<open>Bytes at a position\<close>

definition present :: "bytes \<Rightarrow> nat \<Rightarrow> bytes \<Rightarrow> bool" where
  "present apk pos bs \<longleftrightarrow> pos + length bs \<le> length apk \<and> take (length bs) (drop pos apk) = bs"

lemma present_whole: "present apk 0 apk"
  by (simp add: present_def)

lemma present_append:
  "present apk pos (xs @ ys) \<longleftrightarrow> present apk pos xs \<and> present apk (pos + length xs) ys"
  by (auto simp: present_def take_add add.commute)

lemma read_exact_present: "present apk pos bs \<Longrightarrow> read_exact (length bs) apk pos = Inr (bs, pos + length bs)"
  by (simp add: read_exact_def present_def)

lemma read_num_present:
  "present apk pos (le_bytes k n) \<Longrightarrow> n < 256 ^ k \<Longrightarrow> read_num k apk pos = Inr (n, pos + k)"
  using read_exact_present[of apk pos "le_bytes k n"] by (simp add: read_num_def)

lemma seek_nat [simp]: "seek (int n) = Inr n"
  by (simp add: seek_def)

lemma wrap_i64_small: "- (2 ^ 63) \<le> n \<Longrightarrow> n < 2 ^ 63 \<Longrightarrow> wrap_i64 n = n"
proof -
  assume n: "- (2 ^ 63) \<le> n" "n < 2 ^ 63"
  show ?thesis
  proof (cases "0 \<le> n")
    case True
    then have "n mod 2 ^ 64 = n" using n by (intro mod_pos_pos_trivial) auto
    then show ?thesis using n by (simp add: wrap_i64_def)
  next
    case False
    have "n mod 2 ^ 64 = (n + 2 ^ 64) mod 2 ^ 64" by simp
    also have "\<dots> = n + 2 ^ 64" using False n by (intro mod_pos_pos_trivial) auto
    finally show ?thesis using False n by (simp add: wrap_i64_def)
  qed
qed

section \<open>The layout of a signed APK\<close>

definition pair_bytes :: "nat \<times> bytes \<Rightarrow> bytes" where
  "pair_bytes p = le_bytes 8 (4 + length (snd p)) @ le_bytes 4 (fst p) @ snd p"

definition v2_value :: "bytes \<Rightarrow> bytes \<Rightarrow> bytes \<Rightarrow> bytes \<Rightarrow> bytes \<Rightarrow> bytes" where
  "v2_value lens digests certs_len cert attrs =
     lens @ le_bytes 4 (length digests) @ digests @ certs_len @ le_bytes 4 (length cert) @ cert @ attrs"

definition signing_bytes :: "bytes \<Rightarrow> bytes" where
  "signing_bytes pairs =
     le_bytes 8 (length pairs + 24) @ pairs @ le_bytes 8 (length pairs + 24) @ APK_SIGNING_BLOCK_MAGIC"

definition eocd_bytes :: "bytes \<Rightarrow> nat \<Rightarrow> bytes \<Rightarrow> bytes" where
  "eocd_bytes counts off comment =
     le_bytes 4 EOCD_MAGIC @ counts @ le_bytes 4 off @ le_bytes 2 (length comment) @ comment"

definition signed_apk :: "bytes \<Rightarrow> bytes \<Rightarrow> bytes \<Rightarrow> bytes \<Rightarrow> bytes \<Rightarrow> bytes" where
  "signed_apk content pairs cdir counts comment =
     content @ signing_bytes pairs @ cdir
     @ eocd_bytes counts (length content + length (signing_bytes pairs)) comment"

text \<open>A record that the scan would take for the end record, \<open>i\<close> bytes of comment before the end.\<close>

definition eocd_at :: "bytes \<Rightarrow> nat \<Rightarrow> bool" where
  "eocd_at apk i \<longleftrightarrow> i + 22 \<le> length apk \<and> read_num 2 apk (length apk - 2 - i) = Inr (i, length apk - i)
     \<and> read_num 4 apk (length apk - 22 - i) = Inr (EOCD_MAGIC, length apk - 18 - i)"

lemma eocd_at_iff:
  assumes "length apk = m + 22 + i"
  shows "eocd_at apk i \<longleftrightarrow>
    read_num 2 apk (m + 20) = Inr (i, m + 22) \<and> read_num 4 apk m = Inr (EOCD_MAGIC, m + 4)"
  using assms by (simp add: eocd_at_def add.commute)

lemma find_eocd_step:
  assumes l: "length apk = m + 22 + i" and i: "i < 0xffff"
  shows "find_eocd apk i = (if eocd_at apk i then Inr (m + 4) else find_eocd apk (Suc i))"
proof -
  have 1: "seek (int (length apk) - 2 - int i) = Inr (m + 20)"
    using l by (simp add: seek_def nat_add_distrib)
  have 2: "seek (int (m + 20 + 2) - 22) = Inr m" by (simp add: seek_def)
  obtain n where n: "read_num 2 apk (m + 20) = Inr (n, m + 20 + 2)"
    using l by (simp add: read_num_def read_exact_def)
  obtain k where k: "read_num 4 apk m = Inr (k, m + 4)"
    using l by (simp add: read_num_def read_exact_def)
  have e: "eocd_at apk i \<longleftrightarrow> n = i \<and> k = EOCD_MAGIC" using n k by (simp add: eocd_at_iff[OF l])
  show ?thesis
    using i unfolding find_eocd.simps[of apk i] 1 bindE_simps n prod.case e
    by (simp only: 2 bindE_simps k prod.case option.case if_True if_False) auto
qed

lemma find_eocd_from:
  assumes "length apk = m + 22 + n" "eocd_at apk n" "i \<le> n"
    and "\<And>j. i \<le> j \<Longrightarrow> j < n \<Longrightarrow> \<not> eocd_at apk j" "n < 0xffff"
  shows "find_eocd apk i = Inr (m + 4)"
  using assms(3,4)
proof (induction "n - i" arbitrary: i)
  case 0
  then show ?case using find_eocd_step[of apk m n] assms by simp
next
  case (Suc k)
  then have i: "i < n" by simp
  then have "find_eocd apk i = find_eocd apk (Suc i)"
    using find_eocd_step[of apk "m + (n - i)" i] Suc(4)[of i] assms(1,5) by simp
  then show ?case using Suc(1)[of "Suc i"] Suc(2,4) i by simp
qed

section \<open>The loop over the pairs\<close>

definition other_pair :: "nat \<Rightarrow> nat \<times> bytes \<Rightarrow> bool" where
  "other_pair sz p \<longleftrightarrow> fst p < 2 ^ 32 \<and> fst p \<noteq> SIGNATURE_SCHEME_V2_MAGIC
     \<and> 4 + length (snd p) < 2 ^ 63 \<and> 4 + length (snd p) \<noteq> sz"

lemma cert_pair_other:
  assumes "present apk pos (pair_bytes p)" "other_pair sz p"
  shows "cert_pair apk sz pos = Inr (None, pos + length (pair_bytes p))"
proof -
  let ?n = "4 + length (snd p)"
  have p: "present apk pos (le_bytes 8 ?n)" "present apk (pos + 8) (le_bytes 4 (fst p))"
    using assms(1) by (simp_all add: pair_bytes_def present_append)
  have 1: "read_num 8 apk pos = Inr (?n, pos + 8)"
    using assms(2) by (intro read_num_present[OF p(1)]) (simp add: other_pair_def)
  have 2: "read_num 4 apk (pos + 8) = Inr (fst p, pos + 8 + 4)"
    using assms(2) by (intro read_num_present[OF p(2)]) (simp add: other_pair_def)
  have w: "wrap_i64 (int ?n) = int ?n" using assms(2) by (intro wrap_i64_small) (auto simp: other_pair_def)
  have "wrap_i64 (int ?n - 4) = int (length (snd p))"
    using assms(2) wrap_i64_small[of "int (length (snd p))"] by (simp add: other_pair_def)
  then have 3: "seek (int (pos + 8 + 4) + wrap_i64 (wrap_i64 (int ?n) - 4)) = Inr (pos + length (pair_bytes p))"
    unfolding w by (simp add: seek_def pair_bytes_def nat_add_distrib)
  show ?thesis using assms(2) unfolding cert_pair_def 1 bindE_simps prod.case 2 3
    by (simp add: other_pair_def)
qed

lemma cert_pair_v2:
  assumes "present apk pos (pair_bytes (SIGNATURE_SCHEME_V2_MAGIC, v2_value lens digests certs_len cert attrs))"
    and "length lens = 12" "length certs_len = 4" "length digests < 2 ^ 32" "length cert < 2 ^ 32"
    and n: "4 + length (v2_value lens digests certs_len cert attrs) < 2 ^ 64"
      "4 + length (v2_value lens digests certs_len cert attrs) \<noteq> sz"
  shows "\<exists>pos'. cert_pair apk sz pos = Inr (Some cert, pos')"
proof -
  let ?v = "v2_value lens digests certs_len cert attrs"
  have p: "present apk pos (le_bytes 8 (4 + length ?v))" "present apk (pos + 8) (le_bytes 4 SIGNATURE_SCHEME_V2_MAGIC)"
    and v: "present apk (pos + 8 + 4) ?v"
    using assms(1) by (simp_all add: pair_bytes_def present_append)
  let ?q = "pos + 8 + 4 + 12"
  have q: "present apk ?q (le_bytes 4 (length digests))"
    "present apk (?q + 4 + length digests + 4) (le_bytes 4 (length cert))"
    "present apk (?q + 4 + length digests + 4 + 4) cert"
    using v assms(2,3) by (simp_all add: v2_value_def present_append add_ac)
  have 1: "read_num 8 apk pos = Inr (4 + length ?v, pos + 8)"
    using n(1) by (intro read_num_present[OF p(1)]) simp
  have 2: "read_num 4 apk (pos + 8) = Inr (SIGNATURE_SCHEME_V2_MAGIC, pos + 8 + 4)"
    by (intro read_num_present[OF p(2)]) (simp add: SIGNATURE_SCHEME_V2_MAGIC_def)
  have 3: "seek (int (pos + 8 + 4) + 12) = Inr ?q" by (simp add: seek_def nat_add_distrib)
  have 4: "read_num 4 apk ?q = Inr (length digests, ?q + 4)"
    using assms(4) by (intro read_num_present[OF q(1)]) simp
  have 5: "seek (int (?q + 4) + int (length digests)) = Inr (?q + 4 + length digests)"
    by (simp add: seek_def nat_add_distrib)
  have 6: "seek (int (?q + 4 + length digests) + 4) = Inr (?q + 4 + length digests + 4)"
    by (simp add: seek_def nat_add_distrib)
  have 7: "read_num 4 apk (?q + 4 + length digests + 4) = Inr (length cert, ?q + 4 + length digests + 4 + 4)"
    using assms(5) by (intro read_num_present[OF q(2)]) simp
  show ?thesis using n(2)
    unfolding cert_pair_def 1 bindE_simps prod.case 2 3 4 5 6 7 read_exact_present[OF q(3)] by simp
qed

lemma cert_loop_finds:
  assumes "present apk pos (concat (map pair_bytes ps) @ pair_bytes (SIGNATURE_SCHEME_V2_MAGIC, v2_value lens digests certs_len cert attrs))"
    and "list_all (other_pair sz) ps"
    and v: "length lens = 12" "length certs_len = 4" "length digests < 2 ^ 32" "length cert < 2 ^ 32"
      "4 + length (v2_value lens digests certs_len cert attrs) < 2 ^ 64"
      "4 + length (v2_value lens digests certs_len cert attrs) \<noteq> sz"
  shows "cert_loop apk sz pos = Some (Inr cert)"
  using assms(1,2)
proof (induction ps arbitrary: pos)
  case Nil
  then obtain pos' where "cert_pair apk sz pos = Inr (Some cert, pos')"
    using cert_pair_v2[OF _ v] by auto
  then show ?case by (subst cert_loop.simps) simp
next
  case (Cons p ps)
  have p: "present apk pos (pair_bytes p)" "other_pair sz p"
    using Cons.prems by (simp_all add: present_append)
  have "present apk (pos + length (pair_bytes p)) (concat (map pair_bytes ps) @ pair_bytes (SIGNATURE_SCHEME_V2_MAGIC, v2_value lens digests certs_len cert attrs))"
    using Cons.prems(1) by (simp add: present_append add.assoc)
  then have "cert_loop apk sz (pos + length (pair_bytes p)) = Some (Inr cert)"
    using Cons.IH Cons.prems(2) by simp
  then show ?case by (subst cert_loop.simps) (simp add: cert_pair_other[OF p])
qed

lemma cert_loop_stuck:
  assumes "cert_pair apk sz pos = Inr (None, pos)"
  shows "cert_loop apk sz pos = None"
proof -
  have "cert_pair apk sz pos \<noteq> Inr (None, pos)" if s: "cert_loop apk sz pos = Some r" for r
  proof (rule cert_loop.raw_induct[of "\<lambda>apk sz pos r. cert_pair apk sz pos \<noteq> Inr (None, pos)", OF _ s])
    fix loop apk sz pos r
    assume ih: "\<And>apk sz pos r. loop apk sz pos = Some r \<Longrightarrow> cert_pair apk sz pos \<noteq> Inr (None, pos)"
      and r: "(case cert_pair apk sz pos of Inl e \<Rightarrow> Some (Inl e)
        | Inr (found, pos) \<Rightarrow> (case found of Some cert \<Rightarrow> Some (Inr cert) | None \<Rightarrow> loop apk sz pos)) = Some r"
    show "cert_pair apk sz pos \<noteq> Inr (None, pos)"
    proof
      assume stuck: "cert_pair apk sz pos = Inr (None, pos)"
      then have "loop apk sz pos = Some r" using r by simp
      then show False using ih stuck by blast
    qed
  qed
  then show ?thesis using assms by (cases "cert_loop apk sz pos") auto
qed

section \<open>Finding the signing block\<close>

definition layout_ok :: "bytes \<Rightarrow> bytes \<Rightarrow> bytes \<Rightarrow> bytes \<Rightarrow> bytes \<Rightarrow> int \<Rightarrow> bool" where
  "layout_ok content pairs cdir counts comment version \<longleftrightarrow>
     length counts = 12 \<and> length comment < 0xffff
     \<and> length content + length (signing_bytes pairs) < 2 ^ 32
     \<and> (0 \<le> version \<longrightarrow> version \<le> apk_version comment)
     \<and> (\<forall>i \<in> set [0..<length comment]. \<not> eocd_at (signed_apk content pairs cdir counts comment) i)"

lemma present_signing: "present (signed_apk content pairs cdir counts comment) (length content) (signing_bytes pairs)"
  using present_whole[of "signed_apk content pairs cdir counts comment"]
  by (subst (asm) (2) signed_apk_def) (simp only: present_append add_0)

lemma signing_block_found:
  assumes "layout_ok content pairs cdir counts comment version"
  shows "signing_block (signed_apk content pairs cdir counts comment) version
    = Inr (length pairs + 24, length content + 8)"
proof -
  let ?apk = "signed_apk content pairs cdir counts comment"
  let ?sz = "length pairs + 24"
  let ?off = "length content + length (signing_bytes pairs)"
  let ?m = "?off + length cdir"
  note l = assms[unfolded layout_ok_def]
  have sb: "length (signing_bytes pairs) = length pairs + 32"
    by (simp add: signing_bytes_def APK_SIGNING_BLOCK_MAGIC_def)
  have len: "length ?apk = ?m + 22 + length comment"
    using l by (simp add: signed_apk_def eocd_bytes_def)
  note p1 = present_signing[of content pairs cdir counts comment]
  have p2: "present ?apk ?m (eocd_bytes counts ?off comment)"
    using present_whole[of ?apk] by (subst (asm) (2) signed_apk_def) (simp add: present_append add_ac)
  have e: "present ?apk ?m (le_bytes 4 EOCD_MAGIC)" "present ?apk (?m + 4 + 12) (le_bytes 4 ?off)"
    "present ?apk (?m + 4 + 12 + 4) (le_bytes 2 (length comment))"
    "present ?apk (?m + 4 + 12 + 4 + 2) comment"
    using p2 l by (simp_all add: eocd_bytes_def present_append add_ac)
  have s: "present ?apk (length content) (le_bytes 8 ?sz)"
    "present ?apk (length content + 8 + length pairs) (le_bytes 8 ?sz)"
    "present ?apk (length content + 8 + length pairs + 8) APK_SIGNING_BLOCK_MAGIC"
    using p1 by (simp_all add: signing_bytes_def present_append add_ac)
  have c2: "read_num 2 ?apk (?m + 4 + 12 + 4) = Inr (length comment, ?m + 4 + 12 + 4 + 2)"
    using l by (intro read_num_present[OF e(3)]) simp
  have "eocd_at ?apk (length comment)"
    using c2 read_num_present[OF e(1)] by (simp add: eocd_at_iff[OF len] EOCD_MAGIC_def add_ac)
  then have 1: "find_eocd ?apk 0 = Inr (?m + 4)" using len l by (intro find_eocd_from) auto
  have 2: "seek (int (?m + 4) + 12) = Inr (?m + 4 + 12)" by (simp add: seek_def nat_add_distrib)
  have 3: "read_num 4 ?apk (?m + 4 + 12) = Inr (?off, ?m + 4 + 12 + 4)"
    using l by (intro read_num_present[OF e(2)]) simp
  have 4: "seek ((int ?off - 24) mod 2 ^ 32) = Inr (length content + 8 + length pairs)"
  proof -
    have "(int ?off - 24) mod 2 ^ 32 = int (length content + 8 + length pairs)"
      using l sb by (subst mod_pos_pos_trivial) simp_all
    then show ?thesis by (simp only: seek_nat)
  qed
  have 5: "read_num 8 ?apk (length content + 8 + length pairs) = Inr (?sz, length content + 8 + length pairs + 8)"
    using l sb by (intro read_num_present[OF s(2)]) simp
  have m: "length APK_SIGNING_BLOCK_MAGIC = 16" by (simp add: APK_SIGNING_BLOCK_MAGIC_def)
  have 6: "read_exact 16 ?apk (length content + 8 + length pairs + 8)
      = Inr (APK_SIGNING_BLOCK_MAGIC, length content + 8 + length pairs + 8 + 16)"
    using read_exact_present[OF s(3)] unfolding m .
  have 7: "seek (int (length content + 8 + length pairs + 8 + 16) + wrap_i64 (- wrap_i64 (int ?sz) - 8)) = Inr (length content)"
    using l sb wrap_i64_small[of "int ?sz"] wrap_i64_small[of "- int ?sz - 8"] by (simp add: seek_def)
  have 8: "read_num 8 ?apk (length content) = Inr (?sz, length content + 8)"
    using l sb by (intro read_num_present[OF s(1)]) simp
  show ?thesis
    unfolding signing_block_def 1 bindE_simps 2 3 4 5 6 7 8 prod.case c2 read_exact_present[OF e(4)]
    using l by auto
qed

lemma read_certificate_layout:
  assumes "layout_ok content pairs cdir counts comment version"
    and "pairs = concat (map pair_bytes ps) @ pair_bytes (SIGNATURE_SCHEME_V2_MAGIC, v2_value lens digests certs_len cert attrs) @ rest"
    and "list_all (\<lambda>p. fst p < 2 ^ 32 \<and> fst p \<noteq> SIGNATURE_SCHEME_V2_MAGIC) ps"
    and "length lens = 12" "length certs_len = 4"
  shows "read_certificate (signed_apk content pairs cdir counts comment) version = Some cert"
proof -
  let ?apk = "signed_apk content pairs cdir counts comment"
  let ?v = "pair_bytes (SIGNATURE_SCHEME_V2_MAGIC, v2_value lens digests certs_len cert attrs)"
  have n: "length pairs < 2 ^ 32" using assms(1) by (simp add: layout_ok_def signing_bytes_def)
  have v: "length digests < 2 ^ 32" "length cert < 2 ^ 32"
    "4 + length (v2_value lens digests certs_len cert attrs) < 2 ^ 64"
    "4 + length (v2_value lens digests certs_len cert attrs) \<noteq> length pairs + 24"
    using n by (simp_all add: assms(2) pair_bytes_def v2_value_def)
  have "other_pair (length pairs + 24) p" if "p \<in> set ps" for p
  proof -
    have "length (pair_bytes p) \<le> length (concat (map pair_bytes ps))"
      using that by (auto simp: length_concat intro: member_le_sum_list)
    then have "length (snd p) < length pairs" by (simp add: assms(2) pair_bytes_def)
    then show ?thesis using that n assms(3) by (auto simp: other_pair_def list_all_iff)
  qed
  then have o: "list_all (other_pair (length pairs + 24)) ps" by (simp add: list_all_iff)
  have "present ?apk (length content + 8) pairs"
    using present_signing[of content pairs cdir counts comment] by (simp add: signing_bytes_def present_append)
  then have "present ?apk (length content + 8) (concat (map pair_bytes ps) @ ?v)"
    unfolding assms(2) append_assoc[symmetric] by (simp only: present_append)
  from cert_loop_finds[OF this o assms(4,5) v]
  show ?thesis by (simp add: read_certificate_def signing_block_found[OF assms(1)])
qed

section \<open>Properties\<close>

text \<open>
  C13. For an APK laid out as the signature scheme prescribes, with the certificate in the first pair of
  the v2 kind, reading the certificate returns exactly that certificate, whatever other pairs come
  first and whatever the archive contains.
\<close>
theorem read_certificate_signed:
  assumes "layout_ok content pairs cdir counts comment version"
    and "pairs = concat (map pair_bytes ps) @ pair_bytes (SIGNATURE_SCHEME_V2_MAGIC, v2_value lens digests certs_len cert attrs) @ rest"
    and "list_all (\<lambda>p. fst p < 2 ^ 32 \<and> fst p \<noteq> SIGNATURE_SCHEME_V2_MAGIC) ps"
    and "length lens = 12" "length certs_len = 4"
  shows "read_certificate (signed_apk content pairs cdir counts comment) version = Some cert"
  by (rule read_certificate_layout[OF assms])

theorem read_certificate_signed_witness:
  "read_certificate (signed_apk ''PK'' (concat (map pair_bytes [(1, ''x'')])
      @ pair_bytes (SIGNATURE_SCHEME_V2_MAGIC, v2_value (replicate 12 (CHR ''l'')) ''dd'' ''llll'' ''CERT'' []) @ [])
      ''dir'' (replicate 12 (CHR ''c'')) []) (-1) = Some ''CERT''"
  by (rule read_certificate_signed[where ps = "[(1, ''x'')]" and rest = "[]" and digests = "''dd''" and attrs = "[]"
        and lens = "replicate 12 (CHR ''l'')" and certs_len = "''llll''"])
    (simp_all add: layout_ok_def signing_bytes_def pair_bytes_def v2_value_def APK_SIGNING_BLOCK_MAGIC_def
      SIGNATURE_SCHEME_V2_MAGIC_def)

text \<open>
  C35. A pair whose length is the 64-bit number minus eight sends the loop back to the same pair: for
  such an APK the function never returns.
\<close>
theorem read_certificate_diverges:
  assumes "layout_ok content (le_bytes 8 (2 ^ 64 - 8) @ le_bytes 4 ident @ rest) cdir counts comment version"
    and "ident < 2 ^ 32" "ident \<noteq> SIGNATURE_SCHEME_V2_MAGIC"
  shows "read_certificate (signed_apk content (le_bytes 8 (2 ^ 64 - 8) @ le_bytes 4 ident @ rest) cdir counts comment) version = None"
proof -
  let ?pairs = "le_bytes 8 (2 ^ 64 - 8) @ le_bytes 4 ident @ rest"
  let ?apk = "signed_apk content ?pairs cdir counts comment"
  let ?pos = "length content + 8"
  have n: "length ?pairs < 2 ^ 32" using assms(1) by (simp add: layout_ok_def signing_bytes_def)
  have p: "present ?apk ?pos (le_bytes 8 (2 ^ 64 - 8))" "present ?apk (?pos + 8) (le_bytes 4 ident)"
    using present_signing[of content ?pairs cdir counts comment]
    unfolding signing_bytes_def by (simp_all only: present_append length_le_bytes)
  have 1: "read_num 8 ?apk ?pos = Inr (2 ^ 64 - 8, ?pos + 8)"
    by (intro read_num_present[OF p(1)]) simp
  have 2: "read_num 4 ?apk (?pos + 8) = Inr (ident, ?pos + 8 + 4)"
    using assms(2) by (intro read_num_present[OF p(2)]) simp
  have 3: "seek (int (?pos + 8 + 4) + wrap_i64 (wrap_i64 (int (2 ^ 64 - 8)) - 4)) = Inr ?pos"
    by (simp add: wrap_i64_def seek_def nat_add_distrib)
  have 4: "(2 ^ 64 - 8 :: nat) \<noteq> length ?pairs + 24" using n by simp
  have "cert_pair ?apk (length ?pairs + 24) ?pos = Inr (None, ?pos)"
    unfolding cert_pair_def 1 bindE_simps prod.case 2 3 using 4 assms(3) by simp
  then show ?thesis
    by (simp only: read_certificate_def signing_block_found[OF assms(1)] sum.case prod.case cert_loop_stuck option.map)
qed

theorem read_certificate_diverges_witness:
  "read_certificate (signed_apk ''PK'' (le_bytes 8 (2 ^ 64 - 8) @ le_bytes 4 1 @ ''x'') ''dir''
      (replicate 12 (CHR ''c'')) []) (-1) = None"
  by (rule read_certificate_diverges)
    (simp_all add: layout_ok_def signing_bytes_def APK_SIGNING_BLOCK_MAGIC_def SIGNATURE_SCHEME_V2_MAGIC_def)

end
