(* ===== verification/Db.thy ===== *)
theory Db
  imports Socket
begin

text \<open>
  The settings database of \<open>magiskd\<close> (\<open>core/db.rs\<close>).  SQLite is a foreign library, reached through
  \<open>sql_exec_impl\<close> and \<open>open_and_init_db\<close>: both are fields of the parameter \<open>sqlite\<close>.  What the
  code relies on is stated by \<open>sqlite_ok\<close>: a statement that returns 0 has the effect and the rows that
  the SQL text describes (\<open>ref_exec\<close>), and one that fails changes no table and delivers the first of
  those rows at most.
\<close>

section \<open>Rows and statements\<close>

record db_values =
  get_text :: "nat \<Rightarrow> string"
  get_int :: "nat \<Rightarrow> int"

type_synonym db_row = "string list \<times> db_values"

datatype db_arg = Text string | Integer int

record 'db sqlite =
  sql_exec_impl :: "'db \<Rightarrow> string \<Rightarrow> db_arg list \<Rightarrow> 'db \<times> db_row list \<times> int"
  open_and_init_db :: "'db option"

definition sql_result :: "int \<Rightarrow> int + unit" where
  "sql_result code = (if code \<noteq> 0 then Inl code else Inr ())"

section \<open>Executing statements\<close>

text \<open>
  The connection is opened by the first use and kept.  \<open>f\<close> runs a statement on it; \<open>out\<close> is what the
  row callback works on, and stays as it is when there is no database.
\<close>

definition with_db :: "'db sqlite \<Rightarrow> ('db \<Rightarrow> 'db \<times> 'o \<times> int) \<Rightarrow> 'o \<Rightarrow> 'db option \<Rightarrow> 'db option \<times> 'o \<times> int" where
  "with_db S f out conn =
     (case (case conn of None \<Rightarrow> open_and_init_db S | Some db \<Rightarrow> Some db) of
        Some db \<Rightarrow> (let (db, out, rc) = f db in (Some db, out, rc))
      | None \<Rightarrow> (None, out, -1))"

definition db_exec_impl :: "'db sqlite \<Rightarrow> string \<Rightarrow> db_arg list \<Rightarrow> ('o \<Rightarrow> string list \<Rightarrow> db_values \<Rightarrow> 'o) \<Rightarrow> 'o \<Rightarrow> 'db option \<Rightarrow> 'db option \<times> 'o \<times> int" where
  "db_exec_impl S sql args on_row out conn =
     with_db S (\<lambda>db. let (db, rows, rc) = sql_exec_impl S db sql args
                     in (db, fold (\<lambda>(columns, values) out. on_row out columns values) rows out, rc)) out conn"

definition db_exec_with_rows :: "'db sqlite \<Rightarrow> string \<Rightarrow> db_arg list \<Rightarrow> ('o \<Rightarrow> string list \<Rightarrow> db_values \<Rightarrow> 'o) \<Rightarrow> 'o \<Rightarrow> 'db option \<Rightarrow> 'db option \<times> 'o \<times> int" where
  "db_exec_with_rows S sql args on_row out conn = db_exec_impl S sql args on_row out conn"

definition db_exec :: "'db sqlite \<Rightarrow> string \<Rightarrow> db_arg list \<Rightarrow> 'db option \<Rightarrow> 'db option \<times> int" where
  "db_exec S sql args conn =
     (let (conn, _, rc) = db_exec_impl S sql args (\<lambda>_ _ _. ()) () conn in (conn, rc))"

section \<open>Settings\<close>

datatype root_access = Disabled | AppsOnly | AdbOnly | AppsAndAdb

datatype multiuser_mode = OwnerOnly | OwnerManaged | User

definition root_access_from_i32 :: "int \<Rightarrow> root_access option" where
  "root_access_from_i32 n =
     (if n = 0 then Some Disabled else if n = 1 then Some AppsOnly
      else if n = 2 then Some AdbOnly else if n = 3 then Some AppsAndAdb else None)"

definition root_access_default :: root_access where "root_access_default = AppsAndAdb"

fun root_access_as_i32 :: "root_access \<Rightarrow> int" where
  "root_access_as_i32 Disabled = 0"
| "root_access_as_i32 AppsOnly = 1"
| "root_access_as_i32 AdbOnly = 2"
| "root_access_as_i32 AppsAndAdb = 3"

definition multiuser_mode_from_i32 :: "int \<Rightarrow> multiuser_mode option" where
  "multiuser_mode_from_i32 n =
     (if n = 0 then Some OwnerOnly else if n = 1 then Some OwnerManaged
      else if n = 2 then Some User else None)"

definition multiuser_mode_default :: multiuser_mode where "multiuser_mode_default = OwnerOnly"

fun multiuser_mode_as_i32 :: "multiuser_mode \<Rightarrow> int" where
  "multiuser_mode_as_i32 OwnerOnly = 0"
| "multiuser_mode_as_i32 OwnerManaged = 1"
| "multiuser_mode_as_i32 User = 2"

text \<open>\<open>MntNsMode\<close> is an enumeration shared with C++: any \<open>i32\<close> can be stored in it.\<close>

definition MntNs_Requester :: int where "MntNs_Requester = 1"

record db_settings =
  root_access :: root_access
  multiuser_mode :: multiuser_mode
  mnt_ns :: int
  boot_count :: int
  denylist :: bool
  zygisk_setting :: bool

definition db_settings_default :: db_settings where
  "db_settings_default = \<lparr>root_access = root_access_default, multiuser_mode = multiuser_mode_default,
     mnt_ns = MntNs_Requester, boot_count = 0, denylist = False, zygisk_setting = False\<rparr>"

datatype db_entry_key =
  RootAccess | SuMultiuserMode | SuMntNs | DenylistConfig | ZygiskConfig | BootloopCount | SuManager

fun to_str :: "db_entry_key \<Rightarrow> string" where
  "to_str RootAccess = ''root_access''"
| "to_str SuMultiuserMode = ''multiuser_mode''"
| "to_str SuMntNs = ''mnt_ns''"
| "to_str DenylistConfig = ''denylist''"
| "to_str ZygiskConfig = ''zygisk''"
| "to_str BootloopCount = ''bootloop''"
| "to_str SuManager = ''requester''"

definition key_value :: "string list \<Rightarrow> db_values \<Rightarrow> string \<times> int" where
  "key_value columns values =
     fold (\<lambda>(i, column) (key, val).
         if column = ''key'' then (get_text values i, val)
         else if column = ''value'' then (key, get_int values i)
         else (key, val))
       (enumerate 0 columns) ('''', 0)"

definition settings_on_row :: "db_settings \<Rightarrow> string list \<Rightarrow> db_values \<Rightarrow> db_settings" where
  "settings_on_row s columns values =
     (let (key, val) = key_value columns values in
      if key = ''root_access'' then
        s\<lparr>root_access := (case root_access_from_i32 val of Some r \<Rightarrow> r | None \<Rightarrow> root_access_default)\<rparr>
      else if key = ''multiuser_mode'' then
        s\<lparr>multiuser_mode := (case multiuser_mode_from_i32 val of Some r \<Rightarrow> r | None \<Rightarrow> multiuser_mode_default)\<rparr>
      else if key = ''mnt_ns'' then s\<lparr>mnt_ns := val\<rparr>
      else if key = ''denylist'' then s\<lparr>denylist := val \<noteq> 0\<rparr>
      else if key = ''zygisk'' then s\<lparr>zygisk_setting := val \<noteq> 0\<rparr>
      else if key = ''bootloop'' then s\<lparr>boot_count := val\<rparr>
      else s)"

definition set_db_setting :: "'db sqlite \<Rightarrow> db_entry_key \<Rightarrow> int \<Rightarrow> 'db option \<Rightarrow> 'db option \<times> (int + unit)" where
  "set_db_setting S key val conn =
     (let (conn, rc) = db_exec S ''INSERT OR REPLACE INTO settings (key,value) VALUES(?,?)''
            [Text (to_str key), Integer val] conn
      in (conn, sql_result rc))"

fun default_setting :: "bool \<Rightarrow> db_entry_key \<Rightarrow> int" where
  "default_setting is_emulator RootAccess = root_access_as_i32 root_access_default"
| "default_setting is_emulator SuMultiuserMode = multiuser_mode_as_i32 multiuser_mode_default"
| "default_setting is_emulator SuMntNs = MntNs_Requester"
| "default_setting is_emulator DenylistConfig = 0"
| "default_setting is_emulator ZygiskConfig = (if is_emulator then 1 else 0)"
| "default_setting is_emulator BootloopCount = 0"
| "default_setting is_emulator SuManager = -1"

definition get_db_setting :: "'db sqlite \<Rightarrow> bool \<Rightarrow> db_entry_key \<Rightarrow> 'db option \<Rightarrow> 'db option \<times> int" where
  "get_db_setting S is_emulator key conn =
     (let (conn, val, _) = db_exec_with_rows S ''SELECT value FROM settings WHERE key=?''
            [Text (to_str key)] (\<lambda>_ _ values. get_int values 0) (default_setting is_emulator key) conn
      in (conn, val))"

definition get_db_settings :: "'db sqlite \<Rightarrow> bool \<Rightarrow> 'db option \<Rightarrow> 'db option \<times> (int + db_settings)" where
  "get_db_settings S is_emulator conn =
     (let (conn, cfg, rc) = db_exec_with_rows S ''SELECT * FROM settings'' [] settings_on_row
            (db_settings_default\<lparr>zygisk_setting := is_emulator\<rparr>) conn
      in (conn, bindE (sql_result rc) (\<lambda>_. Inr cfg)))"

definition get_db_string :: "'db sqlite \<Rightarrow> db_entry_key \<Rightarrow> 'db option \<Rightarrow> 'db option \<times> string" where
  "get_db_string S key conn =
     (let (conn, val, _) = db_exec_with_rows S ''SELECT value FROM strings WHERE key=?''
            [Text (to_str key)] (\<lambda>val _ values. val @ get_text values 0) [] conn
      in (conn, val))"

definition rm_db_string :: "'db sqlite \<Rightarrow> db_entry_key \<Rightarrow> 'db option \<Rightarrow> 'db option \<times> (int + unit)" where
  "rm_db_string S key conn =
     (let (conn, rc) = db_exec S ''DELETE FROM strings WHERE key=?'' [Text (to_str key)] conn
      in (conn, sql_result rc))"

definition set_db_setting_for_cxx :: "'db sqlite \<Rightarrow> db_entry_key \<Rightarrow> int \<Rightarrow> 'db option \<Rightarrow> 'db option \<times> bool" where
  "set_db_setting_for_cxx S key val conn =
     (let (conn, r) = set_db_setting S key val conn in (conn, r = Inr ()))"

section \<open>The database command of the client\<close>

definition row_text :: "string list \<Rightarrow> db_values \<Rightarrow> string" where
  "row_text columns values =
     fold (\<lambda>(i, column) out.
         (if i \<noteq> 0 then out @ ''|'' else out) @ column @ ''='' @ get_text values i)
       (enumerate 0 columns) []"

text \<open>
  The bytes the client sends are read, the statement is run, and the rows are sent back, each as a
  string, followed by an empty string.
\<close>

definition db_exec_for_cli :: "'db sqlite \<Rightarrow> bytes \<Rightarrow> 'db option \<Rightarrow> 'db option \<times> bytes \<times> unit res" where
  "db_exec_for_cli S received conn =
     (case decode_string received of
        Inl e \<Rightarrow> (conn, [], Inl e)
      | Inr (sql, _) \<Rightarrow>
          (let (conn, sent, _) = db_exec_with_rows S sql []
                 (\<lambda>sent columns values. sent @ encode_str (row_text columns values)) [] conn
           in (conn, sent @ encode_str [], Inr ())))"

section \<open>What the code relies on\<close>

text \<open>The tables that \<open>open_and_init_db\<close> creates, as far as the daemon uses them from Rust.\<close>

record policy_row =
  p_uid :: int
  p_policy :: int
  p_until :: int
  p_logging :: int
  p_notification :: int

record tables =
  t_settings :: "(string \<times> int) list"
  t_strings :: "(string \<times> string) list"
  t_policies :: "policy_row list"

definition int_row :: "string list \<Rightarrow> int list \<Rightarrow> db_row" where
  "int_row columns ns = (columns, \<lparr>get_text = (\<lambda>_. []), get_int = (\<lambda>i. if i < length ns then ns ! i else 0)\<rparr>)"

definition setting_row :: "string \<times> int \<Rightarrow> db_row" where
  "setting_row kv = ([''key'', ''value''],
     \<lparr>get_text = (\<lambda>i. if i = 0 then fst kv else []), get_int = (\<lambda>i. if i = 1 then snd kv else 0)\<rparr>)"

definition string_row :: "string \<Rightarrow> db_row" where
  "string_row v = ([''value''], \<lparr>get_text = (\<lambda>_. v), get_int = (\<lambda>_. 0)\<rparr>)"

definition put :: "'k \<Rightarrow> 'v \<Rightarrow> ('k \<times> 'v) list \<Rightarrow> ('k \<times> 'v) list" where
  "put k v kvs = filter (\<lambda>p. fst p \<noteq> k) kvs @ [(k, v)]"

text \<open>A policy counts when it has no end, or its end is still to come.\<close>

definition live_policies :: "int \<Rightarrow> int \<Rightarrow> tables \<Rightarrow> policy_row list" where
  "live_policies now uid t =
     filter (\<lambda>r. p_uid r = uid \<and> (p_until r = 0 \<or> now < p_until r)) (t_policies t)"

definition ref_exec :: "int \<Rightarrow> tables \<Rightarrow> string \<Rightarrow> db_arg list \<Rightarrow> (tables \<times> db_row list) option" where
  "ref_exec now t sql args =
     (case args of
        [] \<Rightarrow>
          if sql = ''SELECT * FROM settings'' then Some (t, map setting_row (t_settings t))
          else if sql = ''SELECT uid FROM policies'' then
            Some (t, map (\<lambda>r. int_row [''uid''] [p_uid r]) (t_policies t))
          else None
      | [Text k] \<Rightarrow>
          if sql = ''SELECT value FROM settings WHERE key=?'' then
            Some (t, map (\<lambda>kv. int_row [''value''] [snd kv]) (filter (\<lambda>kv. fst kv = k) (t_settings t)))
          else if sql = ''SELECT value FROM strings WHERE key=?'' then
            Some (t, map (\<lambda>kv. string_row (snd kv)) (filter (\<lambda>kv. fst kv = k) (t_strings t)))
          else if sql = ''DELETE FROM strings WHERE key=?'' then
            Some (t\<lparr>t_strings := filter (\<lambda>kv. fst kv \<noteq> k) (t_strings t)\<rparr>, [])
          else None
      | [Text k, Integer v] \<Rightarrow>
          if sql = ''INSERT OR REPLACE INTO settings (key,value) VALUES(?,?)'' then
            Some (t\<lparr>t_settings := put k v (t_settings t)\<rparr>, [])
          else None
      | [Integer uid] \<Rightarrow>
          if sql = ''SELECT policy, logging, notification FROM policies WHERE uid=? AND (until=0 OR until>strftime('%s', 'now'))'' then
            Some (t, map (\<lambda>r. int_row [''policy'', ''logging'', ''notification'']
                               [p_policy r, p_logging r, p_notification r]) (live_policies now uid t))
          else if sql = ''SELECT policy FROM policies WHERE uid=? AND (until=0 OR until>strftime('%s', 'now'))'' then
            Some (t, map (\<lambda>r. int_row [''policy''] [p_policy r]) (live_policies now uid t))
          else if sql = ''DELETE FROM policies WHERE uid=?'' then
            Some (t\<lparr>t_policies := filter (\<lambda>r. p_uid r \<noteq> uid) (t_policies t)\<rparr>, [])
          else None
      | _ \<Rightarrow> None)"

text \<open>\<open>view\<close> are the tables of a database, \<open>now\<close> the time at which a statement on it is run.\<close>

definition sqlite_ok :: "'db sqlite \<Rightarrow> ('db \<Rightarrow> tables) \<Rightarrow> ('db \<Rightarrow> int) \<Rightarrow> bool" where
  "sqlite_ok S view now \<longleftrightarrow>
     (\<forall>db sql args t rows db' rows' rc.
        ref_exec (now db) (view db) sql args = Some (t, rows) \<longrightarrow>
        sql_exec_impl S db sql args = (db', rows', rc) \<longrightarrow>
        (if rc = 0 then view db' = t \<and> rows' = rows else view db' = view db \<and> prefix rows' rows))"

text \<open>The primary keys of the tables.\<close>

definition tables_ok :: "tables \<Rightarrow> bool" where
  "tables_ok t \<longleftrightarrow> distinct (map fst (t_settings t)) \<and> distinct (map fst (t_strings t))
     \<and> distinct (map p_uid (t_policies t))"

text \<open>An engine that keeps the tables in memory, at a fixed time.\<close>

definition mem_sqlite :: "int \<Rightarrow> tables \<Rightarrow> tables sqlite" where
  "mem_sqlite now t0 = \<lparr>sql_exec_impl = (\<lambda>t sql args.
       case ref_exec now t sql args of Some (t, rows) \<Rightarrow> (t, rows, 0) | None \<Rightarrow> (t, [], 1)),
     open_and_init_db = Some t0\<rparr>"

lemma mem_sqlite_ok: "sqlite_ok (mem_sqlite now t0) (\<lambda>t. t) (\<lambda>_. now)"
  by (auto simp: sqlite_ok_def mem_sqlite_def split: if_splits)

section \<open>Statements on the tables\<close>

definition conn_db :: "'db sqlite \<Rightarrow> 'db option \<Rightarrow> 'db option" where
  "conn_db S conn = (case conn of None \<Rightarrow> open_and_init_db S | Some db \<Rightarrow> Some db)"

lemma db_exec_impl_None [simp]:
  "conn_db S conn = None \<Longrightarrow> db_exec_impl S sql args cb out conn = (None, out, -1)"
  by (simp add: db_exec_impl_def with_db_def conn_db_def)

lemma db_exec_impl_Some:
  assumes "conn_db S conn = Some db" and "sql_exec_impl S db sql args = (db', rows, rc)"
  shows "db_exec_impl S sql args cb out conn
    = (Some db', fold (\<lambda>(columns, values) out. cb out columns values) rows out, rc)"
  using assms by (simp add: db_exec_impl_def with_db_def conn_db_def)

lemma conn_db_Some [simp]: "conn_db S (Some db) = Some db"
  by (simp add: conn_db_def)

lemma sqlite_okD:
  assumes "sqlite_ok S view now" "ref_exec (now db) (view db) sql args = Some (t, rows)"
    and "sql_exec_impl S db sql args = (db', rows', rc)"
  shows "rc = 0 \<Longrightarrow> view db' = t \<and> rows' = rows" "rc \<noteq> 0 \<Longrightarrow> view db' = view db \<and> prefix rows' rows"
  using assms unfolding sqlite_ok_def by (metis (full_types))+

lemma sql_result_simps [simp]:
  "sql_result rc = Inr u \<longleftrightarrow> rc = 0" "sql_result rc = Inl e \<longleftrightarrow> e = rc \<and> rc \<noteq> 0"
  by (auto simp: sql_result_def)

lemma map_of_put [simp]: "map_of (put k v kvs) = (map_of kvs)(k \<mapsto> v)"
proof -
  have "map_of (put k v kvs) x = ((map_of kvs)(k \<mapsto> v)) x" for x
    by (induction kvs) (auto simp: put_def)
  then show ?thesis by blast
qed

lemma distinct_put [simp]: "distinct (map fst kvs) \<Longrightarrow> distinct (map fst (put k v kvs))"
  by (induction kvs) (auto simp: put_def)

lemma filter_entry:
  "distinct (map fst kvs) \<Longrightarrow>
   filter (\<lambda>kv. fst kv = k) kvs = (case map_of kvs k of None \<Rightarrow> [] | Some v \<Rightarrow> [(k, v)])"
proof (induction kvs)
  case (Cons p kvs)
  have "filter (\<lambda>kv. fst kv = fst p) kvs = []" using Cons.prems by (auto simp: filter_empty_conv rev_image_eqI)
  then show ?case using Cons by (cases p) auto
qed simp

text \<open>What a read of one setting and a read of all of them give, in terms of the table.\<close>

definition setting_of :: "tables \<Rightarrow> bool \<Rightarrow> db_entry_key \<Rightarrow> int" where
  "setting_of t is_emulator key =
     (case map_of (t_settings t) (to_str key) of Some v \<Rightarrow> v | None \<Rightarrow> default_setting is_emulator key)"

definition settings_of :: "tables \<Rightarrow> bool \<Rightarrow> db_settings" where
  "settings_of t is_emulator =
     (let v = setting_of t is_emulator in
      \<lparr>root_access = (case root_access_from_i32 (v RootAccess) of Some r \<Rightarrow> r | None \<Rightarrow> root_access_default),
       multiuser_mode = (case multiuser_mode_from_i32 (v SuMultiuserMode) of Some r \<Rightarrow> r | None \<Rightarrow> multiuser_mode_default),
       mnt_ns = v SuMntNs, boot_count = v BootloopCount,
       denylist = (v DenylistConfig \<noteq> 0), zygisk_setting = (v ZygiskConfig \<noteq> 0)\<rparr>)"

lemma key_value_setting_row [simp]:
  "key_value (fst (setting_row kv)) (snd (setting_row kv)) = kv"
  by (simp add: key_value_def setting_row_def)

lemma settings_on_row_setting:
  "settings_on_row s (fst (setting_row (k, v))) (snd (setting_row (k, v))) =
     (if k = ''root_access'' then
        s\<lparr>root_access := (case root_access_from_i32 v of Some r \<Rightarrow> r | None \<Rightarrow> root_access_default)\<rparr>
      else if k = ''multiuser_mode'' then
        s\<lparr>multiuser_mode := (case multiuser_mode_from_i32 v of Some r \<Rightarrow> r | None \<Rightarrow> multiuser_mode_default)\<rparr>
      else if k = ''mnt_ns'' then s\<lparr>mnt_ns := v\<rparr>
      else if k = ''denylist'' then s\<lparr>denylist := v \<noteq> 0\<rparr>
      else if k = ''zygisk'' then s\<lparr>zygisk_setting := v \<noteq> 0\<rparr>
      else if k = ''bootloop'' then s\<lparr>boot_count := v\<rparr>
      else s)"
  by (simp add: settings_on_row_def)

abbreviation fold_settings :: "(string \<times> int) list \<Rightarrow> db_settings \<Rightarrow> db_settings" where
  "fold_settings kvs \<equiv> fold (\<lambda>(columns, values) s. settings_on_row s columns values) (map setting_row kvs)"

text \<open>A field that only the rows of one key write has the value of that row.\<close>

lemma fold_settings_field:
  assumes "distinct (map fst kvs)"
    and w: "\<And>s v. get (settings_on_row s (fst (setting_row (key, v))) (snd (setting_row (key, v)))) = g v"
    and n: "\<And>s k v. k \<noteq> key \<Longrightarrow> get (settings_on_row s (fst (setting_row (k, v))) (snd (setting_row (k, v)))) = get s"
  shows "get (fold_settings kvs s) = (case map_of kvs key of None \<Rightarrow> get s | Some v \<Rightarrow> g v)"
  using assms(1)
proof (induction kvs arbitrary: s)
  case (Cons p kvs)
  obtain k v where p: "p = (k, v)" by (cases p)
  have d: "distinct (map fst kvs)" using Cons.prems by simp
  have "fold_settings (p # kvs) s
    = fold_settings kvs (settings_on_row s (fst (setting_row (k, v))) (snd (setting_row (k, v))))"
    by (simp add: p case_prod_beta)
  note e = this
  show ?case
  proof (cases "k = key")
    case True
    then have "map_of kvs key = None" using Cons.prems by (simp add: p map_of_eq_None_iff)
    then show ?thesis unfolding e Cons.IH[OF d] using True w by (simp add: p)
  next
    case False
    then show ?thesis unfolding e Cons.IH[OF d] using n[OF False] by (simp add: p split: option.split)
  qed
qed simp

lemma settings_of_eq:
  assumes "tables_ok t"
  shows "fold_settings (t_settings t) (db_settings_default\<lparr>zygisk_setting := e\<rparr>) = settings_of t e"
proof -
  have d: "distinct (map fst (t_settings t))" using assms by (simp add: tables_ok_def)
  note f = fold_settings_field[OF d] and r = settings_on_row_setting and v = setting_of_def settings_of_def Let_def
  let ?s = "db_settings_default\<lparr>zygisk_setting := e\<rparr>"
  have 1: "root_access (fold_settings (t_settings t) ?s) = root_access (settings_of t e)"
    by (subst f[where key = "''root_access''"
          and g = "\<lambda>v. case root_access_from_i32 v of Some r \<Rightarrow> r | None \<Rightarrow> root_access_default"])
      (simp_all add: r v db_settings_default_def root_access_from_i32_def root_access_default_def split: option.split)
  have 2: "multiuser_mode (fold_settings (t_settings t) ?s) = multiuser_mode (settings_of t e)"
    by (subst f[where key = "''multiuser_mode''"
          and g = "\<lambda>v. case multiuser_mode_from_i32 v of Some r \<Rightarrow> r | None \<Rightarrow> multiuser_mode_default"])
      (simp_all add: r v db_settings_default_def multiuser_mode_from_i32_def multiuser_mode_default_def split: option.split)
  have 3: "mnt_ns (fold_settings (t_settings t) ?s) = mnt_ns (settings_of t e)"
    by (subst f[where key = "''mnt_ns''" and g = "\<lambda>v. v"])
      (simp_all add: r v db_settings_default_def split: option.split)
  have 4: "boot_count (fold_settings (t_settings t) ?s) = boot_count (settings_of t e)"
    by (subst f[where key = "''bootloop''" and g = "\<lambda>v. v"])
      (simp_all add: r v db_settings_default_def split: option.split)
  have 5: "denylist (fold_settings (t_settings t) ?s) = denylist (settings_of t e)"
    by (subst f[where key = "''denylist''" and g = "\<lambda>v. v \<noteq> 0"])
      (simp_all add: r v db_settings_default_def split: option.split)
  have 6: "zygisk_setting (fold_settings (t_settings t) ?s) = zygisk_setting (settings_of t e)"
    by (subst f[where key = "''zygisk''" and g = "\<lambda>v. v \<noteq> 0"])
      (simp_all add: r v db_settings_default_def split: option.split)
  show ?thesis using 1 2 3 4 5 6 by (simp add: db_settings.equality)
qed

text \<open>Reading settings keeps the tables.  A read that fails gives the default of a single setting.\<close>

lemma get_db_settings_result:
  assumes "sqlite_ok S view now" "conn_db S conn = Some db" "tables_ok (view db)"
    and r: "get_db_settings S e conn = (conn', res)"
  obtains db' where "conn' = Some db'" "view db' = view db"
    and "res = Inr (settings_of (view db) e) \<or> (\<exists>rc. res = Inl rc)"
proof -
  obtain db' rows rc where x: "sql_exec_impl S db ''SELECT * FROM settings'' [] = (db', rows, rc)"
    by (metis prod_cases3)
  have "ref_exec (now db) (view db) ''SELECT * FROM settings'' [] = Some (view db, map setting_row (t_settings (view db)))"
    by (simp add: ref_exec_def)
  note ok = sqlite_okD[OF assms(1) this x]
  show thesis
  proof (rule that)
    show "view db' = view db" using ok by blast
    show "conn' = Some db'"
      using r by (simp add: get_db_settings_def db_exec_with_rows_def db_exec_impl_Some[OF assms(2) x])
    show "res = Inr (settings_of (view db) e) \<or> (\<exists>rc. res = Inl rc)"
      using r ok by (cases "rc = 0")
        (auto simp: get_db_settings_def db_exec_with_rows_def db_exec_impl_Some[OF assms(2) x]
          settings_of_eq[OF assms(3)] sql_result_def)
  qed
qed

lemma get_db_setting_result:
  assumes "sqlite_ok S view now" "conn_db S conn = Some db" "tables_ok (view db)"
    and r: "get_db_setting S e key conn = (conn', v)"
  obtains db' where "conn' = Some db'" "view db' = view db"
    and "v = setting_of (view db) e key \<or> v = default_setting e key"
proof -
  let ?q = "''SELECT value FROM settings WHERE key=?''"
  let ?row = "\<lambda>kv. int_row [''value''] [snd kv]"
  let ?rows = "map ?row (filter (\<lambda>kv. fst kv = to_str key) (t_settings (view db)))"
  obtain db' rows rc where x: "sql_exec_impl S db ?q [Text (to_str key)] = (db', rows, rc)"
    by (metis prod_cases3)
  have "ref_exec (now db) (view db) ?q [Text (to_str key)] = Some (view db, ?rows)"
    by (simp add: ref_exec_def)
  note ok = sqlite_okD[OF assms(1) this x]
  have p: "prefix rows ?rows" using ok by (cases "rc = 0") auto
  have d: "distinct (map fst (t_settings (view db)))" using assms(3) by (simp add: tables_ok_def)
  have v: "v = fold (\<lambda>(columns, values) out. get_int values 0) rows (default_setting e key)"
    using r by (simp add: get_db_setting_def db_exec_with_rows_def db_exec_impl_Some[OF assms(2) x])
  show thesis
  proof (rule that)
    show "view db' = view db" using ok by blast
    show "conn' = Some db'"
      using r by (simp add: get_db_setting_def db_exec_with_rows_def db_exec_impl_Some[OF assms(2) x])
    show "v = setting_of (view db) e key \<or> v = default_setting e key"
      using p unfolding v filter_entry[OF d] setting_of_def
      by (cases "map_of (t_settings (view db)) (to_str key)") (auto simp: int_row_def prefix_Cons)
  qed
qed

lemma get_db_string_absent:
  assumes "sqlite_ok S view now" "conn_db S conn = Some db" "map_of (t_strings (view db)) (to_str key) = None"
  obtains db' where "get_db_string S key conn = (Some db', [])" "view db' = view db"
proof -
  let ?q = "''SELECT value FROM strings WHERE key=?''"
  obtain db' rows rc where x: "sql_exec_impl S db ?q [Text (to_str key)] = (db', rows, rc)"
    by (metis prod_cases3)
  have "filter (\<lambda>kv. fst kv = to_str key) (t_strings (view db)) = []"
    using assms(3) by (force simp: filter_empty_conv map_of_eq_None_iff)
  then have "ref_exec (now db) (view db) ?q [Text (to_str key)] = Some (view db, [])"
    by (simp add: ref_exec_def)
  note ok = sqlite_okD[OF assms(1) this x]
  have "rows = []" using ok by (cases "rc = 0") auto
  then show thesis
    using ok by (intro that[of db'])
      (auto simp: get_db_string_def db_exec_with_rows_def db_exec_impl_Some[OF assms(2) x])
qed

lemma set_db_setting_result:
  assumes "sqlite_ok S view now" "conn_db S conn = Some db"
    and r: "set_db_setting S key v conn = (conn', res)"
  obtains db' where "conn' = Some db'"
    and "res = Inr () \<Longrightarrow> view db' = (view db)\<lparr>t_settings := put (to_str key) v (t_settings (view db))\<rparr>"
    and "res \<noteq> Inr () \<Longrightarrow> view db' = view db"
proof -
  let ?q = "''INSERT OR REPLACE INTO settings (key,value) VALUES(?,?)''"
  obtain db' rows rc where x: "sql_exec_impl S db ?q [Text (to_str key), Integer v] = (db', rows, rc)"
    by (metis prod_cases3)
  have "ref_exec (now db) (view db) ?q [Text (to_str key), Integer v]
      = Some ((view db)\<lparr>t_settings := put (to_str key) v (t_settings (view db))\<rparr>, [])"
    by (simp add: ref_exec_def)
  note ok = sqlite_okD[OF assms(1) this x]
  show thesis
    using r ok by (intro that[of db'])
      (auto simp: set_db_setting_def db_exec_def db_exec_impl_Some[OF assms(2) x])
qed

end
