(* ===== verification/Package.thy ===== *)
theory Package
  imports ApkCert Db Dir "HOL-Library.Signed_Division"
begin

text \<open>
  The manager application (core/package.rs): where its APK is, whether its certificate is trusted, and
  which user id it has.  The file system is the parameter \<open>pkg_env\<close>; installing and removing packages
  are foreign functions and are recorded as events.  An operation may fail to return (\<open>None\<close>) because
  of the certificate reader, and may panic.
\<close>

section \<open>User ids\<close>

definition AID_ROOT :: int where "AID_ROOT = 0"
definition AID_SHELL :: int where "AID_SHELL = 2000"
definition AID_APP_START :: int where "AID_APP_START = 10000"
definition AID_APP_END :: int where "AID_APP_END = 19999"
definition AID_USER_OFFSET :: int where "AID_USER_OFFSET = 100000"

definition to_app_id :: "int \<Rightarrow> int" where
  "to_app_id uid = uid smod AID_USER_OFFSET"

definition to_user_id :: "int \<Rightarrow> int" where
  "to_user_id uid = uid sdiv AID_USER_OFFSET"

text \<open>\<open>i32\<close> arithmetic wraps around.\<close>

definition wrap_i32 :: "int \<Rightarrow> int" where
  "wrap_i32 n = as_i32 (nat (n mod 2 ^ 32))"

definition fmt_i32 :: "int \<Rightarrow> string" where
  "fmt_i32 n = (if n < 0 then ''-'' @ dec_digits (nat (- n)) else dec_digits (nat n))"

section \<open>State and environment\<close>

datatype status = Installed | NotInstalled | CertMismatch

record tracked_file =
  tf_path :: string
  tf_timestamp :: nat

record manager_info =
  stub_apk :: "(bytes \<times> nat) option"
  trusted_cert :: bytes
  repackaged_app_id :: int
  repackaged_pkg :: string
  repackaged_cert :: bytes
  tracked_files :: "int \<Rightarrow> tracked_file option"

definition manager_info_default :: manager_info where
  "manager_info_default = \<lparr>stub_apk = None, trusted_cert = [], repackaged_app_id = -1,
     repackaged_pkg = [], repackaged_cert = [], tracked_files = (\<lambda>_. None)\<rparr>"

datatype stub_copy = StubOk | StubCreateFails | StubCopyFails nat | StubSeekFails

text \<open>
  The environment: the content of a file that can be opened, the owner of an open file, owner and
  change time of a path, the tree of \<open>/data/app\<close> and the paths of its entries, how copying the stub
  ends, the version of the daemon, the API level, whether this is an emulator, and whether
  certificates are enforced (they are in release builds).
\<close>

record pkg_env =
  pe_open :: "string \<Rightarrow> bytes option"
  pe_fstat :: "string \<Rightarrow> int option"
  pe_attr :: "string \<Rightarrow> (int \<times> nat) option"
  pe_app :: "unit entries option"
  pe_opens :: "string list \<Rightarrow> bool"
  pe_resolve :: "string list \<Rightarrow> string option"
  pe_stub :: stub_copy
  pe_version :: int
  pe_sdk :: int
  pe_emulator :: bool
  pe_check_signature :: bool

datatype pkg_event = UninstallPkg string | InstallApk bytes

record 'db pkg_state =
  pk_info :: manager_info
  pk_conn :: "'db option"
  pk_events :: "pkg_event list"

definition TrackedFile_new :: "pkg_env \<Rightarrow> string \<Rightarrow> tracked_file" where
  "TrackedFile_new E path =
     (case pe_attr E path of
        Some (_, ctime) \<Rightarrow> \<lparr>tf_path = path, tf_timestamp = ctime\<rparr>
      | None \<Rightarrow> \<lparr>tf_path = [], tf_timestamp = 0\<rparr>)"

definition is_same :: "pkg_env \<Rightarrow> tracked_file \<Rightarrow> bool" where
  "is_same E f =
     (if tf_path f = [] then False
      else case pe_attr E (tf_path f) of Some (_, ctime) \<Rightarrow> ctime = tf_timestamp f | None \<Rightarrow> False)"

section \<open>Finding files\<close>

definition APP_PACKAGE_NAME :: string where "APP_PACKAGE_NAME = ''com.topjohnwu.magisk''"
definition PACKAGES_XML :: string where "PACKAGES_XML = ''/data/system/packages.xml''"

definition app_data_dir :: "int \<Rightarrow> string" where
  "app_data_dir sdk_int = (if 24 \<le> sdk_int then ''/data/user_de'' else ''/data/user'')"

definition append_path_fmt :: "fixed_buf \<Rightarrow> string \<Rightarrow> fixed_buf" where
  "append_path_fmt b name = fst (fixed_push_str b (''/'' @ name))"

definition user_path :: "pkg_env \<Rightarrow> int \<Rightarrow> string \<Rightarrow> fixed_buf" where
  "user_path E user pkg =
     append_path_impl fixed_ops
       (append_path_fmt (append_path_impl fixed_ops (arr_new 4096) (app_data_dir (pe_sdk E))) (fmt_i32 user)) pkg"

definition dyn_apk :: "pkg_env \<Rightarrow> int \<Rightarrow> string \<Rightarrow> string" where
  "dyn_apk E user pkg =
     fixed_as_str (append_path_impl fixed_ops (append_path_impl fixed_ops (user_path E user pkg) ''dyn'') ''current.apk'')"

definition find_visit :: "pkg_env \<Rightarrow> string \<Rightarrow> (unit, fixed_buf) visitor" where
  "find_visit E pkg buf p = (\<lambda>(name, x).
     if \<not> is_dir x then (buf, Inr Skip)
     else if prefix pkg name \<and> length name \<le> length pkg then (buf, Inl Panic)
     else if prefix pkg name \<and> name ! length pkg = CHR ''-'' then
       (case pe_resolve E (p @ [name]) of
          None \<Rightarrow> (buf, Inl LoggedError)
        | Some path \<Rightarrow> (fst (fixed_push_str (fixed_clear buf) path), Inr Abort))
     else if prefix ''~~'' name then (buf, Inr Continue)
     else (buf, Inr Skip))"

definition find_apk_path :: "pkg_env \<Rightarrow> string \<Rightarrow> string res" where
  "find_apk_path E pkg =
     (case pe_app E of
        None \<Rightarrow> Inl LoggedError
      | Some es \<Rightarrow>
          (let (buf, r) = pre_order_walk_impl (pe_opens E) (find_visit E pkg) (arr_new 4096) [] es
           in bindE r (\<lambda>_.
                Inr (fixed_as_str (if fixed_as_str buf \<noteq> [] then fst (fixed_push_str buf ''/base.apk'') else buf)))))"

section \<open>Checks\<close>

text \<open>The state is passed along; \<open>None\<close> is not returning, \<open>Inl Panic\<close> is a panic.\<close>

type_synonym ('s, 'a) run = "'s \<Rightarrow> ('a \<times> 's) res option"

definition ret :: "'a \<Rightarrow> ('s, 'a) run" where
  "ret x s = Some (Inr (x, s))"

definition bindR :: "('s, 'a) run \<Rightarrow> ('a \<Rightarrow> ('s, 'b) run) \<Rightarrow> ('s, 'b) run" where
  "bindR m f s =
     (case m s of None \<Rightarrow> None | Some (Inl e) \<Rightarrow> Some (Inl e) | Some (Inr (x, s)) \<Rightarrow> f x s)"

definition update_info :: "(manager_info \<Rightarrow> manager_info) \<Rightarrow> 'db pkg_state \<Rightarrow> 'db pkg_state" where
  "update_info f s = s\<lparr>pk_info := f (pk_info s)\<rparr>"

definition track :: "pkg_env \<Rightarrow> int \<Rightarrow> string \<Rightarrow> manager_info \<Rightarrow> manager_info" where
  "track E user path m = m\<lparr>tracked_files := (tracked_files m)(user := Some (TrackedFile_new E path))\<rparr>"

definition check_dyn :: "pkg_env \<Rightarrow> int \<Rightarrow> string \<Rightarrow> ('db pkg_state, status) run" where
  "check_dyn E user pkg s =
     (let apk = dyn_apk E user pkg in
      case pe_open E apk of
        None \<Rightarrow> ret NotInstalled s
      | Some content \<Rightarrow>
          (let uid = (case pe_fstat E apk of Some uid \<Rightarrow> uid | None \<Rightarrow> -1) in
           case read_certificate content (pe_version E) of
             None \<Rightarrow> None
           | Some cert \<Rightarrow>
               if (cert = [] \<or> cert \<noteq> trusted_cert (pk_info s)) \<and> pe_check_signature E
               then ret CertMismatch s
               else ret Installed
                 (update_info (\<lambda>m. track E user apk (m\<lparr>repackaged_app_id := to_app_id uid\<rparr>)) s)))"

definition check_stub :: "pkg_env \<Rightarrow> int \<Rightarrow> string \<Rightarrow> ('db pkg_state, status) run" where
  "check_stub E user pkg s =
     (case find_apk_path E pkg of
        Inl Panic \<Rightarrow> Some (Inl Panic)
      | Inl _ \<Rightarrow> ret NotInstalled s
      | Inr apk \<Rightarrow>
          (case pe_open E apk of
             None \<Rightarrow> ret NotInstalled s
           | Some content \<Rightarrow>
               (case read_certificate content (-1) of
                  None \<Rightarrow> None
                | Some cert \<Rightarrow>
                    if cert = [] \<or> (pkg = repackaged_pkg (pk_info s) \<and> cert \<noteq> repackaged_cert (pk_info s))
                    then ret CertMismatch (s\<lparr>pk_events := pk_events s @ [UninstallPkg apk]\<rparr>)
                    else ret Installed
                      (update_info (\<lambda>m. track E user apk (m\<lparr>repackaged_pkg := pkg, repackaged_cert := cert\<rparr>)) s))))"

definition check_orig :: "pkg_env \<Rightarrow> int \<Rightarrow> ('db pkg_state, status) run" where
  "check_orig E user s =
     (case find_apk_path E APP_PACKAGE_NAME of
        Inl Panic \<Rightarrow> Some (Inl Panic)
      | Inl _ \<Rightarrow> ret NotInstalled s
      | Inr apk \<Rightarrow>
          (case pe_open E apk of
             None \<Rightarrow> ret NotInstalled s
           | Some content \<Rightarrow>
               (case read_certificate content (pe_version E) of
                  None \<Rightarrow> None
                | Some cert \<Rightarrow>
                    if (cert = [] \<or> cert \<noteq> trusted_cert (pk_info s)) \<and> pe_check_signature E
                    then ret CertMismatch (s\<lparr>pk_events := pk_events s @ [UninstallPkg APP_PACKAGE_NAME]\<rparr>)
                    else ret Installed (update_info (track E user apk) s))))"

text \<open>
  Copying the stub reads the file from where its position is; the position goes back to the start only
  when the copy and the seek succeed.
\<close>

definition install_stub :: "pkg_env \<Rightarrow> 'db pkg_state \<Rightarrow> 'db pkg_state" where
  "install_stub E s =
     (case stub_apk (pk_info s) of
        None \<Rightarrow> s
      | Some (content, pos) \<Rightarrow>
          (case pe_stub E of
             StubOk \<Rightarrow>
               (update_info (\<lambda>m. m\<lparr>stub_apk := Some (content, 0)\<rparr>) s)
                 \<lparr>pk_events := pk_events s @ [InstallApk (drop pos content)]\<rparr>
           | StubCreateFails \<Rightarrow> s
           | StubCopyFails n \<Rightarrow> update_info (\<lambda>m. m\<lparr>stub_apk := Some (content, pos + n)\<rparr>) s
           | StubSeekFails \<Rightarrow> update_info (\<lambda>m. m\<lparr>stub_apk := Some (content, max pos (length content))\<rparr>) s))"

section \<open>The manager\<close>

definition get_package_uid :: "pkg_env \<Rightarrow> int \<Rightarrow> string \<Rightarrow> int" where
  "get_package_uid E user pkg =
     (case pe_attr E (fixed_as_str (user_path E user pkg)) of Some (uid, _) \<Rightarrow> uid | None \<Rightarrow> -1)"

definition no_manager :: "int \<times> string" where
  "no_manager = (-1, [])"

definition orig_manager :: "pkg_env \<Rightarrow> int \<Rightarrow> int \<times> string" where
  "orig_manager E user =
     (let uid = get_package_uid E user APP_PACKAGE_NAME
      in if uid < 0 then no_manager else (uid, APP_PACKAGE_NAME))"

definition dyn_manager :: "int \<Rightarrow> manager_info \<Rightarrow> int \<times> string" where
  "dyn_manager user m =
     (wrap_i32 (wrap_i32 (user * AID_USER_OFFSET) + repackaged_app_id m), repackaged_pkg m)"

definition dyn_or_none :: "pkg_env \<Rightarrow> int \<Rightarrow> string \<Rightarrow> ('db pkg_state, int \<times> string) run" where
  "dyn_or_none E user pkg =
     bindR (check_dyn E user pkg) (\<lambda>st s.
       if st = Installed then ret (dyn_manager user (pk_info s)) s else ret no_manager s)"

definition maybe_install :: "pkg_env \<Rightarrow> bool \<Rightarrow> 'db pkg_state \<Rightarrow> 'db pkg_state" where
  "maybe_install E install s = (if install \<and> \<not> pe_emulator E then install_stub E s else s)"

text \<open>The tracked file of the user has not changed.\<close>

definition manager_same :: "pkg_env \<Rightarrow> int \<Rightarrow> bool \<Rightarrow> tracked_file \<Rightarrow> ('db pkg_state, int \<times> string) run" where
  "manager_same E user install file s =
     (if tf_path file = PACKAGES_XML then ret no_manager (maybe_install E install s)
      else if prefix (app_data_dir (pe_sdk E)) (tf_path file) then ret (dyn_manager user (pk_info s)) s
      else if repackaged_pkg (pk_info s) \<noteq> [] then dyn_or_none E user (repackaged_pkg (pk_info s)) s
      else ret (orig_manager E user) s)"

text \<open>Neither a tracked file nor a repackaged manager: look for the original application.\<close>

definition manager_orig :: "pkg_env \<Rightarrow> int \<Rightarrow> bool \<Rightarrow> ('db pkg_state, int \<times> string) run" where
  "manager_orig E user install s =
     bindR (check_orig E user) (\<lambda>st s.
       if st = Installed then ret (orig_manager E user) s
       else ret no_manager
         (maybe_install E (install \<or> st = CertMismatch) (update_info (track E user PACKAGES_XML) s)))
       (update_info (\<lambda>m. m\<lparr>repackaged_pkg := [], repackaged_cert := []\<rparr>) s)"

definition manager_check :: "'db sqlite \<Rightarrow> pkg_env \<Rightarrow> int \<Rightarrow> bool \<Rightarrow> string \<Rightarrow> ('db pkg_state, int \<times> string) run" where
  "manager_check S E user install db_pkg =
     (if db_pkg \<noteq> [] then
        bindR (check_stub E user db_pkg) (\<lambda>st s.
          if st = Installed then dyn_or_none E user db_pkg s
          else manager_orig E user (install \<or> st = CertMismatch)
            (s\<lparr>pk_conn := fst (rm_db_string S SuManager (pk_conn s))\<rparr>))
      else manager_orig E user install)"

definition get_manager :: "'db sqlite \<Rightarrow> pkg_env \<Rightarrow> int \<Rightarrow> bool \<Rightarrow> ('db pkg_state, int \<times> string) run" where
  "get_manager S E user install s =
     (let (conn, db_pkg) = get_db_string S SuManager (pk_conn s);
          s = s\<lparr>pk_conn := conn\<rparr>;
          s = (if db_pkg \<noteq> repackaged_pkg (pk_info s)
               then update_info (\<lambda>m. m\<lparr>tracked_files := (tracked_files m)(user := None)\<rparr>) s else s)
      in case tracked_files (pk_info s) user of
           Some file \<Rightarrow>
             if is_same E file then manager_same E user install file s
             else manager_check S E user install db_pkg s
         | None \<Rightarrow> manager_check S E user install db_pkg s)"

text \<open>The certificate of the stub in the ramdisk is the one that is trusted.\<close>

definition preserve_stub_apk :: "int \<Rightarrow> bytes option \<Rightarrow> 'db pkg_state \<Rightarrow> 'db pkg_state option" where
  "preserve_stub_apk version stub s =
     (case stub of
        None \<Rightarrow> Some s
      | Some content \<Rightarrow>
          (case read_certificate content version of
             None \<Rightarrow> None
           | Some cert \<Rightarrow> Some (update_info (\<lambda>m. m\<lparr>trusted_cert := cert, stub_apk := Some (content, 0)\<rparr>) s)))"

definition get_manager_uid :: "'db sqlite \<Rightarrow> pkg_env \<Rightarrow> int \<Rightarrow> ('db pkg_state, int) run" where
  "get_manager_uid S E user = bindR (get_manager S E user False) (\<lambda>(uid, _). ret uid)"

definition ensure_manager :: "'db sqlite \<Rightarrow> pkg_env \<Rightarrow> ('db pkg_state, unit) run" where
  "ensure_manager S E = bindR (get_manager S E 0 True) (\<lambda>_. ret ())"

section \<open>Installed applications\<close>

text \<open>
  The tree of the application data directory, with the owner of every entry whose attributes can be
  read.  The second component says whether the scan went through; on an error the set is what was
  found so far.
\<close>

fun package_app_nos :: "int option entries \<Rightarrow> nat set \<Rightarrow> nat set \<times> bool" where
  "package_app_nos [] acc = (acc, True)"
| "package_app_nos ((name, x) # es) acc =
     (if \<not> readable name then package_app_nos es acc
      else
        case (case x of NDir a _ \<Rightarrow> a | NFile a _ \<Rightarrow> a | NLink a _ \<Rightarrow> a | NOther a \<Rightarrow> a) of
          None \<Rightarrow> (acc, False)
        | Some uid \<Rightarrow>
            (let app_id = to_app_id uid in
             package_app_nos es
               (if AID_APP_START \<le> app_id \<and> app_id \<le> AID_APP_END
                then insert (nat (app_id - AID_APP_START)) acc else acc)))"

fun user_app_nos :: "(string \<Rightarrow> bool) \<Rightarrow> int option entries \<Rightarrow> nat set \<Rightarrow> nat set \<times> bool" where
  "user_app_nos opens [] acc = (acc, True)"
| "user_app_nos opens ((name, x) # es) acc =
     (case x of
        NDir _ sub \<Rightarrow>
          if readable name \<and> opens name then
            (let (acc, ok) = package_app_nos sub acc in if ok then user_app_nos opens es acc else (acc, False))
          else user_app_nos opens es acc
      | _ \<Rightarrow> user_app_nos opens es acc)"

definition get_app_no_list :: "(string \<Rightarrow> bool) \<Rightarrow> int option entries option \<Rightarrow> nat set" where
  "get_app_no_list opens dir =
     (case dir of None \<Rightarrow> {} | Some es \<Rightarrow> fst (user_app_nos opens es {}))"

section \<open>Facts about the steps\<close>

lemma bindR_SomeE:
  assumes "bindR m f s = Some (Inr r)"
  obtains x t where "m s = Some (Inr (x, t))" "f x t = Some (Inr r)"
  using assms by (auto simp: bindR_def split: option.splits sum.splits)

lemma ret_simp [simp]: "ret x s = Some (Inr r) \<longleftrightarrow> r = (x, s)"
  by (auto simp: ret_def)

text \<open>The file at a path carries the trusted certificate.\<close>

definition trusted_file :: "pkg_env \<Rightarrow> bytes \<Rightarrow> string \<Rightarrow> bool" where
  "trusted_file E cert path \<longleftrightarrow>
     cert \<noteq> [] \<and> (case pe_open E path of
        None \<Rightarrow> False | Some content \<Rightarrow> read_certificate content (pe_version E) = Some cert)"

abbreviation cert_of :: "'db pkg_state \<Rightarrow> bytes" where
  "cert_of s \<equiv> trusted_cert (pk_info s)"

abbreviation tracked_of :: "'db pkg_state \<Rightarrow> int \<Rightarrow> tracked_file option" where
  "tracked_of s \<equiv> tracked_files (pk_info s)"

lemmas info_simps = update_info_def track_def

lemma check_dyn_result:
  assumes "check_dyn E user pkg s = Some (Inr (st, t))"
  shows "cert_of t = cert_of s" "u \<noteq> user \<Longrightarrow> tracked_of t u = tracked_of s u"
    "repackaged_pkg (pk_info t) = repackaged_pkg (pk_info s)"
    "st = Installed \<Longrightarrow> pe_check_signature E \<Longrightarrow> trusted_file E (cert_of s) (dyn_apk E user pkg)"
  using assms
  by (auto simp: check_dyn_def Let_def info_simps trusted_file_def split: option.splits if_splits)

lemma check_stub_result:
  assumes "check_stub E user pkg s = Some (Inr (st, t))"
  shows "cert_of t = cert_of s" "u \<noteq> user \<Longrightarrow> tracked_of t u = tracked_of s u"
    "st = Installed \<Longrightarrow> repackaged_pkg (pk_info t) = pkg" "pk_conn t = pk_conn s"
  using assms
  by (auto simp: check_stub_def info_simps split: option.splits if_splits sum.splits error.splits)

lemma check_orig_result:
  assumes "check_orig E user s = Some (Inr (st, t))"
  shows "cert_of t = cert_of s" "u \<noteq> user \<Longrightarrow> tracked_of t u = tracked_of s u" "pk_conn t = pk_conn s"
    "repackaged_pkg (pk_info t) = repackaged_pkg (pk_info s)"
    "repackaged_app_id (pk_info t) = repackaged_app_id (pk_info s)"
    "st = Installed \<Longrightarrow> pe_check_signature E \<Longrightarrow>
      \<exists>apk. find_apk_path E APP_PACKAGE_NAME = Inr apk \<and> trusted_file E (cert_of s) apk"
  using assms
  by (auto simp: check_orig_def info_simps trusted_file_def split: option.splits if_splits sum.splits error.splits)

lemma install_stub_frame [simp]:
  "cert_of (install_stub E s) = cert_of s" "tracked_of (install_stub E s) = tracked_of s"
  "pk_conn (install_stub E s) = pk_conn s"
  "repackaged_pkg (pk_info (install_stub E s)) = repackaged_pkg (pk_info s)"
  "repackaged_app_id (pk_info (install_stub E s)) = repackaged_app_id (pk_info s)"
  by (auto simp: install_stub_def info_simps split: option.splits stub_copy.splits)

lemma maybe_install_frame [simp]:
  "cert_of (maybe_install E b s) = cert_of s" "tracked_of (maybe_install E b s) = tracked_of s"
  "pk_conn (maybe_install E b s) = pk_conn s"
  "repackaged_pkg (pk_info (maybe_install E b s)) = repackaged_pkg (pk_info s)"
  "repackaged_app_id (pk_info (maybe_install E b s)) = repackaged_app_id (pk_info s)"
  by (auto simp: maybe_install_def)

lemma dyn_or_none_trusted:
  assumes "dyn_or_none E user pkg s = Some (Inr ((uid, name), t))" "0 \<le> uid" "pe_check_signature E"
  shows "name = repackaged_pkg (pk_info s) \<and> trusted_file E (cert_of s) (dyn_apk E user pkg)"
proof -
  obtain st u where u: "check_dyn E user pkg s = Some (Inr (st, u))"
    "(if st = Installed then ret (dyn_manager user (pk_info u)) u else ret no_manager u) = Some (Inr ((uid, name), t))"
    using assms(1) unfolding dyn_or_none_def by (elim bindR_SomeE)
  have i: "st = Installed" using u(2) assms(2) by (auto simp: no_manager_def split: if_splits)
  then show ?thesis
    using u(2) check_dyn_result(3,4)[OF u(1)] assms(3) by (auto simp: dyn_manager_def)
qed

lemma manager_orig_trusted:
  assumes "manager_orig E user install s = Some (Inr ((uid, name), t))" "0 \<le> uid" "pe_check_signature E"
  shows "name = APP_PACKAGE_NAME \<and> (\<exists>apk. find_apk_path E APP_PACKAGE_NAME = Inr apk \<and> trusted_file E (cert_of s) apk)"
proof -
  let ?s = "update_info (\<lambda>m. m\<lparr>repackaged_pkg := [], repackaged_cert := []\<rparr>) s"
  obtain st u where u: "check_orig E user ?s = Some (Inr (st, u))"
    "(if st = Installed then ret (orig_manager E user) u
      else ret no_manager (maybe_install E (install \<or> st = CertMismatch) (update_info (track E user PACKAGES_XML) u)))
      = Some (Inr ((uid, name), t))"
    using assms(1) unfolding manager_orig_def by (elim bindR_SomeE)
  have i: "st = Installed" using u(2) assms(2) by (auto simp: no_manager_def split: if_splits)
  have c: "cert_of ?s = cert_of s" by (simp add: info_simps)
  have "name = APP_PACKAGE_NAME"
    using u(2) i assms(2) by (auto simp: orig_manager_def no_manager_def Let_def split: if_splits)
  then show ?thesis using check_orig_result(6)[OF u(1) i assms(3)] c by simp
qed

lemma manager_check_trusted:
  assumes "manager_check S E user install db_pkg s = Some (Inr ((uid, name), t))" "0 \<le> uid" "pe_check_signature E"
  shows "(name = APP_PACKAGE_NAME \<and> (\<exists>apk. find_apk_path E APP_PACKAGE_NAME = Inr apk \<and> trusted_file E (cert_of s) apk))
    \<or> (name = db_pkg \<and> trusted_file E (cert_of s) (dyn_apk E user db_pkg))"
proof (cases "db_pkg = []")
  case True
  then show ?thesis using assms manager_orig_trusted[of E user install s uid name t] by (simp add: manager_check_def)
next
  case False
  then obtain st u where u: "check_stub E user db_pkg s = Some (Inr (st, u))"
    "(if st = Installed then dyn_or_none E user db_pkg u
      else manager_orig E user (install \<or> st = CertMismatch)
        (u\<lparr>pk_conn := fst (rm_db_string S SuManager (pk_conn u))\<rparr>)) = Some (Inr ((uid, name), t))"
    using assms(1) unfolding manager_check_def by (auto elim!: bindR_SomeE)
  note c = check_stub_result[OF u(1)]
  show ?thesis
  proof (cases "st = Installed")
    case True
    then show ?thesis using u(2) dyn_or_none_trusted[of E user db_pkg u uid name t] assms c by simp
  next
    case False
    then show ?thesis
      using u(2) manager_orig_trusted[OF _ assms(2,3), of user "install \<or> st = CertMismatch" "u\<lparr>pk_conn := fst (rm_db_string S SuManager (pk_conn u))\<rparr>" name t] c(1)
      by simp
  qed
qed

lemma manager_orig_frame:
  assumes "manager_orig E user install s = Some (Inr (r, t))" "u \<noteq> user"
  shows "tracked_of t u = tracked_of s u" "pk_conn t = pk_conn s" "repackaged_pkg (pk_info t) = []"
    "repackaged_app_id (pk_info t) = repackaged_app_id (pk_info s)"
proof -
  let ?s = "update_info (\<lambda>m. m\<lparr>repackaged_pkg := [], repackaged_cert := []\<rparr>) s"
  obtain st v where v: "check_orig E user ?s = Some (Inr (st, v))"
    "(if st = Installed then ret (orig_manager E user) v
      else ret no_manager (maybe_install E (install \<or> st = CertMismatch) (update_info (track E user PACKAGES_XML) v)))
      = Some (Inr (r, t))"
    using assms(1) unfolding manager_orig_def by (elim bindR_SomeE)
  note c = check_orig_result[OF v(1)]
  show "tracked_of t u = tracked_of s u" "pk_conn t = pk_conn s" "repackaged_pkg (pk_info t) = []"
    "repackaged_app_id (pk_info t) = repackaged_app_id (pk_info s)"
    using v(2) c(2)[OF assms(2)] c(3-5) assms(2) by (auto simp: info_simps split: if_splits)
qed

section \<open>Properties\<close>


definition demo_apk :: bytes where
  "demo_apk = signed_apk ''PK'' (concat (map pair_bytes [])
      @ pair_bytes (SIGNATURE_SCHEME_V2_MAGIC, v2_value (replicate 12 (CHR ''l'')) ''dd'' ''llll'' ''CERT'' []) @ [])
      ''dir'' (replicate 12 (CHR ''c'')) []"

definition demo_env :: pkg_env where
  "demo_env = \<lparr>pe_open = (\<lambda>_. Some demo_apk), pe_fstat = (\<lambda>_. None), pe_attr = (\<lambda>_. Some (10001, 5)),
     pe_app = Some [(''com.topjohnwu.magisk-1'', NDir () [])], pe_opens = (\<lambda>_. True),
     pe_resolve = (\<lambda>_. Some ''/data/app/com.topjohnwu.magisk-1''), pe_stub = StubOk, pe_version = -1,
     pe_sdk = 30, pe_emulator = False, pe_check_signature = True\<rparr>"

definition demo_tables :: tables where
  "demo_tables = \<lparr>t_settings = [], t_strings = [], t_policies = []\<rparr>"

lemma demo_apk_cert: "read_certificate demo_apk (-1) = Some ''CERT''"
  unfolding demo_apk_def
  by (rule read_certificate_layout[where ps = "[]" and rest = "[]" and digests = "''dd''" and attrs = "[]"
        and lens = "replicate 12 (CHR ''l'')" and certs_len = "''llll''"])
    (simp_all add: layout_ok_def signing_bytes_def pair_bytes_def v2_value_def APK_SIGNING_BLOCK_MAGIC_def
      SIGNATURE_SCHEME_V2_MAGIC_def)

lemma demo_db: "get_db_string (mem_sqlite 0 demo_tables) SuManager (Some demo_tables) = (Some demo_tables, [])"
  by (simp add: get_db_string_def db_exec_with_rows_def db_exec_impl_def with_db_def mem_sqlite_def
      ref_exec_def demo_tables_def)

lemma demo_find: "\<exists>apk. find_apk_path demo_env APP_PACKAGE_NAME = Inr apk"
  by (simp add: find_apk_path_def demo_env_def APP_PACKAGE_NAME_def find_visit_def readable_def utf8_valid_ascii Let_def)

definition demo_state :: "tables pkg_state" where
  "demo_state = \<lparr>pk_info = manager_info_default\<lparr>trusted_cert := ''CERT''\<rparr>, pk_conn = Some demo_tables, pk_events = []\<rparr>"

lemma demo_manager:
  "\<exists>t. get_manager (mem_sqlite 0 demo_tables) demo_env 0 False demo_state = Some (Inr ((10001, APP_PACKAGE_NAME), t))"
proof -
  obtain apk where a: "find_apk_path demo_env APP_PACKAGE_NAME = Inr apk" using demo_find by blast
  have e: "pe_open demo_env p = Some demo_apk" "pe_version demo_env = -1"
    "pe_attr demo_env p = Some (10001, 5)" for p by (simp_all add: demo_env_def)
  show ?thesis
    by (simp add: get_manager_def demo_db manager_info_default_def manager_check_def manager_orig_def demo_state_def
        info_simps bindR_def check_orig_def a e demo_apk_cert ret_def orig_manager_def get_package_uid_def)
qed


text \<open>
  A change of the manager in the database is noticed for one user only.  Suppose the repackaged
  manager of user \<open>u\<close> is tracked by its data file and the database then names no manager.  A query
  for another user forgets the repackaged package; the next query for \<open>u\<close> finds database and memory
  in agreement and reports the old application id as the manager, with an empty package name.
\<close>
theorem stale_manager_reported:
  assumes "sqlite_ok S view now" "pk_conn s = Some db" "map_of (t_strings (view db)) ''requester'' = None"
    and "repackaged_pkg (pk_info s) \<noteq> []" "u \<noteq> v"
    and "tracked_files (pk_info s) u = Some file" "is_same E file" "prefix (app_data_dir (pe_sdk E)) (tf_path file)"
    and "get_manager S E v install s = Some (Inr (r, t))"
  shows "\<exists>t'. get_manager S E u install' t =
    Some (Inr ((wrap_i32 (wrap_i32 (u * AID_USER_OFFSET) + repackaged_app_id (pk_info s)), []), t'))"
proof -
  have k: "map_of (t_strings (view db)) (to_str SuManager) = None" using assms(3) by simp
  obtain db1 where d: "get_db_string S SuManager (pk_conn s) = (Some db1, [])" "view db1 = view db"
    using get_db_string_absent[OF assms(1) _ k, of "pk_conn s"] assms(2) by auto
  let ?s = "update_info (\<lambda>m. m\<lparr>tracked_files := (tracked_files m)(v := None)\<rparr>) (s\<lparr>pk_conn := Some db1\<rparr>)"
  have "manager_orig E v install ?s = Some (Inr (r, t))"
    using assms(4,9) by (simp add: get_manager_def d info_simps manager_check_def)
  note f = manager_orig_frame[OF this assms(5)]
  have t: "tracked_of t u = Some file" "pk_conn t = Some db1" "repackaged_pkg (pk_info t) = []"
    "repackaged_app_id (pk_info t) = repackaged_app_id (pk_info s)"
    using f assms(5,6) by (simp_all add: info_simps)
  obtain db2 where e: "get_db_string S SuManager (pk_conn t) = (Some db2, [])"
    using get_db_string_absent[OF assms(1), of "pk_conn t" db1 SuManager] t(2) k d(2) by auto
  have x: "tf_path file \<noteq> PACKAGES_XML"
    using assms(8) by (auto simp: app_data_dir_def PACKAGES_XML_def split: if_splits)
  show ?thesis
    using t x assms(7,8) by (simp add: get_manager_def e[unfolded t(2)] manager_same_def dyn_manager_def)
qed

theorem stale_manager_reported_witness:
  "\<exists>t t'. get_manager (mem_sqlite 0 demo_tables) (demo_env\<lparr>pe_app := None\<rparr>) 0 False
      \<lparr>pk_info = manager_info_default\<lparr>repackaged_pkg := ''x'', repackaged_app_id := 10050,
         tracked_files := (\<lambda>_. None)(10 := Some \<lparr>tf_path = ''/data/user_de/10/x/dyn/current.apk'', tf_timestamp = 5\<rparr>)\<rparr>,
       pk_conn = Some demo_tables, pk_events = []\<rparr> = Some (Inr (no_manager, t))
    \<and> get_manager (mem_sqlite 0 demo_tables) (demo_env\<lparr>pe_app := None\<rparr>) 10 False t = Some (Inr ((1010050, []), t'))"
proof -
  let ?s = "\<lparr>pk_info = manager_info_default\<lparr>repackaged_pkg := ''x'', repackaged_app_id := 10050,
         tracked_files := (\<lambda>_. None)(10 := Some \<lparr>tf_path = ''/data/user_de/10/x/dyn/current.apk'', tf_timestamp = 5\<rparr>)\<rparr>,
       pk_conn = Some demo_tables, pk_events = []\<rparr>"
  let ?E = "demo_env\<lparr>pe_app := None\<rparr>"
  have "\<exists>t. get_manager (mem_sqlite 0 demo_tables) ?E 0 False ?s = Some (Inr (no_manager, t))"
    by (simp add: get_manager_def demo_db manager_info_default_def manager_check_def manager_orig_def
        info_simps bindR_def check_orig_def find_apk_path_def ret_def)
  then obtain t where t: "get_manager (mem_sqlite 0 demo_tables) ?E 0 False ?s = Some (Inr (no_manager, t))" by blast
  have w: "wrap_i32 (wrap_i32 (10 * AID_USER_OFFSET) + 10050) = 1010050"
    by (simp add: wrap_i32_def as_i32_def AID_USER_OFFSET_def)
  from stale_manager_reported[OF mem_sqlite_ok _ _ _ _ _ _ _ t, of demo_tables 10
      "\<lparr>tf_path = ''/data/user_de/10/x/dyn/current.apk'', tf_timestamp = 5\<rparr>" False]
  show ?thesis using t w
    by (simp add: demo_tables_def is_same_def demo_env_def app_data_dir_def manager_info_default_def)
qed

end
