(* ===== verification/SuApp.thy ===== *)
theory SuApp
  imports Package
begin

text \<open>
  Talking to the manager application about a superuser request (core/su/connect.rs).  Commands are
  started by the parameter \<open>ae_run\<close>, which gives the output of the k-th command of a call; the
  request pipe is described by what the application writes to it.  A call that never ends has the
  value \<open>None\<close>.
\<close>

section \<open>Root settings\<close>

text \<open>\<open>SuPolicy\<close> is shared with C++: any \<open>i32\<close> can be stored in it.\<close>

definition SuPolicy_Query :: int where "SuPolicy_Query = 0"
definition SuPolicy_Deny :: int where "SuPolicy_Deny = 1"
definition SuPolicy_Allow :: int where "SuPolicy_Allow = 2"
definition SuPolicy_Restrict :: int where "SuPolicy_Restrict = 3"

lemmas su_policy_defs = SuPolicy_Query_def SuPolicy_Deny_def SuPolicy_Allow_def SuPolicy_Restrict_def

record root_settings =
  rs_policy :: int
  rs_log :: bool
  rs_notify :: bool

record access_info =
  ai_settings :: root_settings
  ai_timestamp :: nat

record su_info =
  si_uid :: int
  si_eval_uid :: int
  si_mgr_pkg :: string
  si_mgr_uid :: int
  si_cfg :: db_settings
  si_access :: access_info

section \<open>Arguments of the commands\<close>

datatype extra_val = EInt int | EBool bool | EStr string | EIntList "nat list"

record extra =
  ex_key :: string
  ex_value :: extra_val

definition fmt_bool :: "bool \<Rightarrow> string" where
  "fmt_bool b = (if b then ''true'' else ''false'')"

definition fmt_list :: "nat list \<Rightarrow> string" where
  "fmt_list ns = butlast (concat (map (\<lambda>i. dec_digits i @ '','') ns))"

fun add_intent :: "extra \<Rightarrow> string list" where
  "add_intent x =
     (case ex_value x of
        EInt i \<Rightarrow> [''--ei'', ex_key x, fmt_i32 i]
      | EBool b \<Rightarrow> [''--ez'', ex_key x, fmt_bool b]
      | EStr s \<Rightarrow> [''--es'', ex_key x, s]
      | EIntList ns \<Rightarrow> [''--es'', ex_key x, fmt_list ns])"

definition replace_char :: "char \<Rightarrow> string \<Rightarrow> string \<Rightarrow> string" where
  "replace_char c r s = concat (map (\<lambda>x. if x = c then r else [x]) s)"

definition escape :: "string \<Rightarrow> string" where
  "escape s = replace_char (CHR '':'') [CHR 0x5C, CHR '':''] (replace_char (CHR 0x5C) [CHR 0x5C, CHR 0x5C] s)"

definition bind_text :: "extra \<Rightarrow> string" where
  "bind_text x =
     (case ex_value x of
        EInt i \<Rightarrow> ex_key x @ '':i:'' @ fmt_i32 i
      | EBool b \<Rightarrow> ex_key x @ '':b:'' @ fmt_bool b
      | EStr s \<Rightarrow> ex_key x @ '':s:'' @ escape s
      | EIntList ns \<Rightarrow> ex_key x @ '':s:'' @ fmt_list ns)"

definition add_bind :: "extra \<Rightarrow> string list" where
  "add_bind x = [''--extra'', bind_text x]"

definition add_bind_legacy :: "extra \<Rightarrow> string list" where
  "add_bind_legacy x =
     (case ex_value x of
        EStr s \<Rightarrow> [''--extra'', ex_key x @ '':s:'' @ s]
      | _ \<Rightarrow> add_bind x)"

section \<open>Running the commands\<close>

record cmd_output =
  co_stdout :: bytes
  co_stderr :: bytes

record app_env =
  ae_tmp :: string
  ae_mkfifo :: bool
  ae_set_attr :: bool
  ae_run :: "nat \<Rightarrow> string list \<Rightarrow> cmd_output option"
  ae_open :: bool
  ae_poll :: bool
  ae_fifo :: "bytes option"

record su_app_context =
  ac_uid :: nat
  ac_pid :: "int option"
  ac_request :: su_request
  ac_info :: su_info
  ac_sdk_int :: int

definition provider_cmd :: "su_app_context \<Rightarrow> string \<Rightarrow> extra list \<Rightarrow> string list" where
  "provider_cmd ctx action extras =
     [''/system/bin/app_process'', ''/system/bin'', ''com.android.commands.content.Content'', ''call'',
      ''--uri'', ''content://'' @ si_mgr_pkg (ac_info ctx) @ ''.provider'',
      ''--user'', fmt_i32 (to_user_id (si_eval_uid (ac_info ctx))), ''--method'', action]
     @ concat (map (if 30 \<le> ac_sdk_int ctx then add_bind else add_bind_legacy) extras)"

definition intent_cmd :: "su_app_context \<Rightarrow> string \<Rightarrow> extra list \<Rightarrow> string list" where
  "intent_cmd ctx action extras =
     [''/system/bin/app_process'', ''/system/bin'', ''com.android.commands.am.Am'', ''start'',
      ''-p'', si_mgr_pkg (ac_info ctx), ''--user'', fmt_i32 (to_user_id (si_eval_uid (ac_info ctx))),
      ''-a'', ''android.intent.action.VIEW'', ''-f'', ''0x18800020'', ''--es'', ''action'', action]
     @ concat (map add_intent extras)"

text \<open>\<open>am start\<close> is repeated until it prints something; the result is the number of commands run.\<close>

partial_function (option) am_loop :: "(nat \<Rightarrow> string list \<Rightarrow> cmd_output option) \<Rightarrow> string list \<Rightarrow> nat \<Rightarrow> nat option" where
  "am_loop run cmd k =
     (case run k cmd of
        Some out \<Rightarrow> if co_stdout out \<noteq> [] then Some (Suc k) else am_loop run cmd (Suc k)
      | None \<Rightarrow> am_loop run cmd (Suc k))"

definition provider_succeeds :: "cmd_output option \<Rightarrow> bool" where
  "provider_succeeds r =
     (case r of
        Some out \<Rightarrow> find_sub ''Error'' (co_stderr out) = None \<and> find_sub ''Error'' (co_stdout out) = None
      | None \<Rightarrow> False)"

text \<open>The commands a call runs, in order.\<close>

definition exec_cmd :: "app_env \<Rightarrow> su_app_context \<Rightarrow> string \<Rightarrow> extra list \<Rightarrow> bool \<Rightarrow> string list list option" where
  "exec_cmd A ctx action extras use_provider =
     (let provider = provider_cmd ctx action extras; intent = intent_cmd ctx action extras in
      if use_provider \<and> provider_succeeds (ae_run A 0 provider) then Some [provider]
      else
        (let start = (if use_provider then 1 else 0) in
         map_option (\<lambda>n. (if use_provider then [provider] else []) @ replicate (n - start) intent)
           (am_loop (ae_run A) intent start)))"

section \<open>Asking, notifying, logging\<close>

definition from_be :: "int \<Rightarrow> int" where
  "from_be n = as_i32 (of_le (rev (encode_i32 n)))"

definition pid_or :: "su_app_context \<Rightarrow> int" where
  "pid_or ctx = (case ac_pid ctx of Some pid \<Rightarrow> pid | None \<Rightarrow> -1)"

definition request_fifo :: "app_env \<Rightarrow> su_app_context \<Rightarrow> string" where
  "request_fifo A ctx =
     fixed_as_str (fst (fixed_push_str (arr_new 64)
       (ae_tmp A @ ''/.magisk/su_request_'' @ fmt_i32 (pid_or ctx))))"

text \<open>
  The pipe is opened for reading and writing, so a read waits until four bytes have been written,
  for ever if they never are.  \<open>ae_poll\<close> is whether polling fails; running into the timeout is not a
  failure.
\<close>

definition app_request :: "app_env \<Rightarrow> su_app_context \<Rightarrow> int option" where
  "app_request A ctx =
     (if \<not> ae_mkfifo A \<or> \<not> ae_set_attr A then Some SuPolicy_Deny
      else
        case exec_cmd A ctx ''request''
               [\<lparr>ex_key = ''fifo'', ex_value = EStr (request_fifo A ctx)\<rparr>,
                \<lparr>ex_key = ''uid'', ex_value = EInt (si_eval_uid (ac_info ctx))\<rparr>,
                \<lparr>ex_key = ''pid'', ex_value = EInt (pid_or ctx)\<rparr>] False of
          None \<Rightarrow> None
        | Some _ \<Rightarrow>
            if \<not> ae_open A \<or> \<not> ae_poll A then Some SuPolicy_Deny
            else
              (case ae_fifo A of
                 None \<Rightarrow> Some SuPolicy_Deny
               | Some bs \<Rightarrow>
                   if length bs < 4 then None
                   else Some (case decode_i32 bs of Inr (n, _) \<Rightarrow> from_be n | Inl e \<Rightarrow> SuPolicy_Deny)))"

definition notify_extras :: "su_app_context \<Rightarrow> root_settings \<Rightarrow> extra list" where
  "notify_extras ctx settings =
     [\<lparr>ex_key = ''from.uid'', ex_value = EInt (as_i32 (ac_uid ctx))\<rparr>,
      \<lparr>ex_key = ''pid'', ex_value = EInt (pid_or ctx)\<rparr>,
      \<lparr>ex_key = ''policy'', ex_value = EInt (rs_policy settings)\<rparr>]"

definition log_extras :: "su_app_context \<Rightarrow> root_settings \<Rightarrow> extra list" where
  "log_extras ctx settings =
     (let rq = ac_request ctx; command = (if rq_command rq = [] then rq_shell rq else rq_command rq) in
     [\<lparr>ex_key = ''from.uid'', ex_value = EInt (as_i32 (ac_uid ctx))\<rparr>,
      \<lparr>ex_key = ''to.uid'', ex_value = EInt (rq_target_uid rq)\<rparr>,
      \<lparr>ex_key = ''pid'', ex_value = EInt (pid_or ctx)\<rparr>,
      \<lparr>ex_key = ''policy'', ex_value = EInt (rs_policy settings)\<rparr>,
      \<lparr>ex_key = ''target'', ex_value = EInt (rq_target_pid rq)\<rparr>,
      \<lparr>ex_key = ''context'', ex_value = EStr (rq_context rq)\<rparr>,
      \<lparr>ex_key = ''gids'', ex_value = EIntList (rq_gids rq)\<rparr>,
      \<lparr>ex_key = ''command'', ex_value = EStr command\<rparr>,
      \<lparr>ex_key = ''notify'', ex_value = EBool (rs_notify settings)\<rparr>])"

text \<open>
  The settings the request leaves, and the call that the forked child makes, if there is one.
\<close>

definition connect_app :: "app_env \<Rightarrow> su_app_context \<Rightarrow> root_settings \<Rightarrow> (root_settings \<times> (string \<times> extra list) option) option" where
  "connect_app A ctx settings =
     (case (if rs_policy settings = SuPolicy_Query then app_request A ctx else Some (rs_policy settings)) of
        None \<Rightarrow> None
      | Some policy \<Rightarrow>
          (let settings = settings\<lparr>rs_policy := policy\<rparr> in
           Some (settings,
             if \<not> rs_log settings \<and> \<not> rs_notify settings then None
             else if rs_log settings then Some (''log'', log_extras ctx settings)
             else Some (''notify'', notify_extras ctx settings))))"

section \<open>The intent loop\<close>

lemma am_loop_returns:
  assumes "run (k + n) cmd = Some out" "co_stdout out \<noteq> []"
    and "\<And>i. i < n \<Longrightarrow> run (k + i) cmd = None \<or> (\<exists>o'. run (k + i) cmd = Some o' \<and> co_stdout o' = [])"
  shows "am_loop run cmd k = Some (Suc (k + n))"
  using assms
proof (induction n arbitrary: k)
  case 0
  then show ?case by (subst am_loop.simps) simp
next
  case (Suc n)
  have "am_loop run cmd k = am_loop run cmd (Suc k)"
    using Suc(4)[of 0] by (subst am_loop.simps) auto
  also have "\<dots> = Some (Suc (Suc k + n))"
    using Suc(2,3) Suc(4)[of "Suc _"] by (intro Suc(1)) auto
  finally show ?case by simp
qed

section \<open>Reading a bound argument\<close>

text \<open>The fields of an argument: separated by colons; a backslash takes the next character as it is.\<close>

fun bind_fields :: "string \<Rightarrow> string \<Rightarrow> string list" where
  "bind_fields acc [] = [acc]"
| "bind_fields acc [c] = (if c = CHR '':'' then [acc, []] else [acc @ [c]])"
| "bind_fields acc (c # d # cs) =
     (if c = CHR '':'' then acc # bind_fields [] (d # cs)
      else if c = CHR 0x5C then bind_fields (acc @ [d]) cs
      else bind_fields (acc @ [c]) (d # cs))"

lemma bind_fields_colon: "bind_fields acc (CHR '':'' # cs) = acc # bind_fields [] cs"
  by (cases cs) auto

lemma bind_fields_plain:
  assumes "CHR '':'' \<notin> set s" "CHR 0x5C \<notin> set s"
  shows "bind_fields acc (s @ CHR '':'' # cs) = (acc @ s) # bind_fields [] cs"
  using assms
proof (induction s arbitrary: acc)
  case Nil
  then show ?case by (simp add: bind_fields_colon)
next
  case (Cons c s)
  obtain d ds where d: "s @ CHR '':'' # cs = d # ds" by (cases s) auto
  have "bind_fields acc ((c # s) @ CHR '':'' # cs) = bind_fields (acc @ [c]) (s @ CHR '':'' # cs)"
    using Cons.prems by (auto simp: d)
  then show ?case using Cons by simp
qed

lemma escape_Cons:
  "escape (c # s) =
     (if c = CHR '':'' then [CHR 0x5C, CHR '':''] else if c = CHR 0x5C then [CHR 0x5C, CHR 0x5C] else [c]) @ escape s"
  by (simp add: escape_def replace_char_def)

lemma bind_fields_escape: "bind_fields acc (escape s) = [acc @ s]"
proof (induction s arbitrary: acc)
  case Nil
  then show ?case by (simp add: escape_def replace_char_def)
next
  case (Cons c s)
  consider "c = CHR '':''" | "c = CHR 0x5C" | "c \<noteq> CHR '':''" "c \<noteq> CHR 0x5C" by blast
  then show ?case
  proof cases
    case 3
    then have "bind_fields acc (escape (c # s)) = bind_fields (acc @ [c]) (escape s)"
      by (cases "escape s") (simp_all add: escape_Cons)
    then show ?thesis using Cons by simp
  qed (simp_all add: escape_Cons Cons)
qed

section \<open>Properties\<close>

text \<open>
  A string extra passed to the content provider is read back unchanged, whatever colons and
  backslashes it contains: the argument has exactly the fields key, type and value.
\<close>
theorem bind_text_roundtrip:
  assumes "ex_value x = EStr s" "CHR '':'' \<notin> set (ex_key x)" "CHR 0x5C \<notin> set (ex_key x)"
  shows "bind_fields [] (bind_text x) = [ex_key x, ''s'', s]"
proof -
  have "bind_text x = ex_key x @ CHR '':'' # ''s'' @ CHR '':'' # escape s"
    using assms(1) by (simp add: bind_text_def)
  then show ?thesis
    using assms(2,3) bind_fields_plain[of "ex_key x" "[]"] bind_fields_plain[of "''s''" "[]" "escape s"]
      bind_fields_escape[of "[]" s] by simp
qed

theorem bind_text_roundtrip_witness:
  "bind_fields [] (bind_text \<lparr>ex_key = ''command'', ex_value = EStr ''echo a:b''\<rparr>) = [''command'', ''s'', ''echo a:b'']"
  using bind_text_roundtrip[of "\<lparr>ex_key = ''command'', ex_value = EStr ''echo a:b''\<rparr>" "''echo a:b''"] by simp


definition silent_manager :: app_env where
  "silent_manager = \<lparr>ae_tmp = ''/dev'', ae_mkfifo = True, ae_set_attr = True,
     ae_run = (\<lambda>_ _. Some \<lparr>co_stdout = ''Starting'', co_stderr = []\<rparr>), ae_open = True, ae_poll = True, ae_fifo = Some []\<rparr>"


end
