(* ===== verification/Su.thy ===== *)
theory Su
  imports SuApp
begin

text \<open>
  Superuser access (core/su/db.rs and core/su/daemon.rs): the access policy of a user id, the cached
  decision, and the handler of a superuser request.  Cached decisions are shared objects that the
  handler changes in place, so they live in a store and are referred to by address.  Time is in
  nanoseconds.  The build without the feature \<open>su-check-db\<close> is not modelled.
\<close>

section \<open>Policies in the database\<close>

definition root_settings_default :: root_settings where
  "root_settings_default = \<lparr>rs_policy = SuPolicy_Query, rs_log = False, rs_notify = False\<rparr>"

definition root_settings_on_row :: "root_settings \<Rightarrow> string list \<Rightarrow> db_values \<Rightarrow> root_settings" where
  "root_settings_on_row s columns values =
     fold (\<lambda>(i, column) s.
         let val = get_int values i in
         if column = ''policy'' then s\<lparr>rs_policy := val\<rparr>
         else if column = ''logging'' then s\<lparr>rs_log := val \<noteq> 0\<rparr>
         else if column = ''notification'' then s\<lparr>rs_notify := val \<noteq> 0\<rparr>
         else s)
       (enumerate 0 columns) s"

definition get_root_settings :: "'db sqlite \<Rightarrow> int \<Rightarrow> root_settings \<Rightarrow> 'db option \<Rightarrow> 'db option \<times> root_settings \<times> (int + unit)" where
  "get_root_settings S uid settings conn =
     (let (conn, settings, rc) = db_exec_with_rows S
            ''SELECT policy, logging, notification FROM policies WHERE uid=? AND (until=0 OR until>strftime('%s', 'now'))''
            [Integer uid] root_settings_on_row settings conn
      in (conn, settings, sql_result rc))"

definition uid_list_on_row :: "int list \<Rightarrow> string list \<Rightarrow> db_values \<Rightarrow> int list" where
  "uid_list_on_row l columns values = l @ [get_int values 0]"

text \<open>\<open>app_list\<close> is the result of \<open>get_app_no_list\<close>.\<close>

definition uninstalled :: "nat set \<Rightarrow> int \<Rightarrow> bool" where
  "uninstalled app_list uid \<longleftrightarrow>
     (let app_id = to_app_id uid in
      AID_APP_START \<le> app_id \<and> app_id \<le> AID_APP_END \<and> nat (app_id - AID_APP_START) \<notin> app_list)"

definition prune_su_access :: "'db sqlite \<Rightarrow> nat set \<Rightarrow> 'db option \<Rightarrow> 'db option" where
  "prune_su_access S app_list conn =
     (let (conn, list, rc) = db_exec_with_rows S ''SELECT uid FROM policies'' [] uid_list_on_row [] conn in
      if sql_result rc \<noteq> Inr () then conn
      else fold (\<lambda>uid conn. fst (db_exec S ''DELETE FROM policies WHERE uid=?'' [Integer uid] conn))
             (filter (uninstalled app_list) list) conn)"

definition uid_granted_root :: "'db sqlite \<Rightarrow> bool \<Rightarrow> int \<Rightarrow> 'db option \<Rightarrow> 'db option \<times> bool" where
  "uid_granted_root S is_emulator uid conn =
     (if uid = AID_ROOT then (conn, True)
      else
        let (conn, cfg) = get_db_settings S is_emulator conn in
        case cfg of
          Inl _ \<Rightarrow> (conn, False)
        | Inr cfg \<Rightarrow>
            if root_access cfg = Disabled \<or> (root_access cfg = AppsOnly \<and> uid = AID_SHELL)
               \<or> (root_access cfg = AdbOnly \<and> uid \<noteq> AID_SHELL) then (conn, False)
            else if multiuser_mode cfg = OwnerOnly \<and> to_user_id uid \<noteq> 0 then (conn, False)
            else
              (let uid = (if multiuser_mode cfg = OwnerManaged then to_app_id uid else uid);
                   (conn, granted, _) = db_exec_with_rows S
                     ''SELECT policy FROM policies WHERE uid=? AND (until=0 OR until>strftime('%s', 'now'))''
                     [Integer uid] (\<lambda>_ _ values. get_int values 0 = SuPolicy_Allow) False conn
               in (conn, granted)))"

section \<open>Decisions\<close>

definition su_info_with :: "nat \<Rightarrow> int \<Rightarrow> int \<Rightarrow> su_info" where
  "su_info_with now uid policy =
     \<lparr>si_uid = uid, si_eval_uid = -1, si_mgr_pkg = [], si_mgr_uid = -1, si_cfg = db_settings_default,
      si_access = \<lparr>ai_settings = \<lparr>rs_policy = policy, rs_log = False, rs_notify = False\<rparr>, ai_timestamp = now\<rparr>\<rparr>"

definition SuInfo_allow :: "nat \<Rightarrow> int \<Rightarrow> su_info" where
  "SuInfo_allow now uid = su_info_with now uid SuPolicy_Allow"

definition SuInfo_deny :: "nat \<Rightarrow> int \<Rightarrow> su_info" where
  "SuInfo_deny now uid = su_info_with now uid SuPolicy_Deny"

definition is_fresh :: "nat \<Rightarrow> access_info \<Rightarrow> bool" where
  "is_fresh now a \<longleftrightarrow> now - ai_timestamp a < 3 * 10 ^ 9"

definition eval_uid_of :: "multiuser_mode \<Rightarrow> int \<Rightarrow> int option" where
  "eval_uid_of mode uid =
     (case mode of
        OwnerOnly \<Rightarrow> if to_user_id uid \<noteq> 0 then None else Some uid
      | OwnerManaged \<Rightarrow> Some (to_app_id uid)
      | User \<Rightarrow> Some uid)"

text \<open>The decision once the policy of the user and the manager are known.\<close>

definition su_decision :: "nat \<Rightarrow> int \<Rightarrow> int \<Rightarrow> db_settings \<Rightarrow> root_settings \<Rightarrow> int \<Rightarrow> string \<Rightarrow> su_info" where
  "su_decision now uid eval_uid cfg access mgr_uid mgr_pkg =
     (if to_app_id uid = to_app_id mgr_uid then SuInfo_allow now uid
      else if root_access cfg = Disabled then SuInfo_deny now uid
      else if root_access cfg = AdbOnly \<and> uid \<noteq> AID_SHELL then SuInfo_deny now uid
      else if root_access cfg = AppsOnly \<and> uid = AID_SHELL then SuInfo_deny now uid
      else if rs_policy access = SuPolicy_Query \<and> mgr_uid < 0 then SuInfo_deny now uid
      else \<lparr>si_uid = uid, si_eval_uid = eval_uid, si_mgr_pkg = mgr_pkg, si_mgr_uid = mgr_uid, si_cfg = cfg,
             si_access = \<lparr>ai_settings = access, ai_timestamp = now\<rparr>\<rparr>)"

definition build_su_info :: "'db sqlite \<Rightarrow> pkg_env \<Rightarrow> nat \<Rightarrow> int \<Rightarrow> ('db pkg_state, su_info) run" where
  "build_su_info S E now uid s =
     (let (conn, cfg) = get_db_settings S (pe_emulator E) (pk_conn s); s = s\<lparr>pk_conn := conn\<rparr> in
      case cfg of
        Inl _ \<Rightarrow> ret (SuInfo_deny now uid) s
      | Inr cfg \<Rightarrow>
          (case eval_uid_of (multiuser_mode cfg) uid of
             None \<Rightarrow> ret (SuInfo_deny now uid) s
           | Some eval_uid \<Rightarrow>
               (let (conn, access, r) = get_root_settings S eval_uid root_settings_default (pk_conn s);
                    s = s\<lparr>pk_conn := conn\<rparr> in
                case r of
                  Inl _ \<Rightarrow> ret (SuInfo_deny now uid) s
                | Inr _ \<Rightarrow>
                    bindR (if rs_policy access = SuPolicy_Query \<or> rs_log access \<or> rs_notify access
                           then get_manager S E (to_user_id eval_uid) True else ret (-1, []))
                      (\<lambda>(mgr_uid, mgr_pkg). ret (su_decision now uid eval_uid cfg access mgr_uid mgr_pkg)) s)))"

section \<open>The cache\<close>

record 'db su_state =
  ss_pkg :: "'db pkg_state"
  ss_objs :: "su_info list"
  ss_cached :: nat

definition get_su_info :: "'db sqlite \<Rightarrow> pkg_env \<Rightarrow> nat \<Rightarrow> int \<Rightarrow> ('db su_state, nat) run" where
  "get_su_info S E now uid st =
     (if uid = AID_ROOT then ret (length (ss_objs st)) (st\<lparr>ss_objs := ss_objs st @ [SuInfo_allow now AID_ROOT]\<rparr>)
      else
        let cached = ss_objs st ! ss_cached st in
        if si_uid cached = uid \<and> is_fresh now (si_access cached) then ret (ss_cached st) st
        else
          (case build_su_info S E now uid (ss_pkg st) of
             None \<Rightarrow> None
           | Some (Inl e) \<Rightarrow> Some (Inl e)
           | Some (Inr (info, pkg)) \<Rightarrow>
               ret (length (ss_objs st))
                 (st\<lparr>ss_pkg := pkg, ss_objs := ss_objs st @ [info], ss_cached := length (ss_objs st)\<rparr>)))"

section \<open>The handler\<close>

text \<open>
  What a request leads to: the bytes the client is sent, the call that tells the manager, and the
  root shell that is started, with the process id of the client and the mount namespace mode.
\<close>

record su_out =
  so_sent :: bytes
  so_app :: "(string \<times> extra list) option"
  so_shell :: "(int \<times> su_request \<times> int) option"

definition rejected :: "(string \<times> extra list) option \<Rightarrow> su_out" where
  "rejected call = \<lparr>so_sent = encode_i32 SuPolicy_Deny, so_app = call, so_shell = None\<rparr>"

text \<open>
  After the decision: \<open>child\<close> is what \<open>fork\<close> returns to the daemon and \<open>status\<close> the exit status of
  the child, if waiting for it succeeds.
\<close>

definition su_start :: "int \<Rightarrow> int option \<Rightarrow> int \<Rightarrow> su_request \<Rightarrow> int \<Rightarrow> (string \<times> extra list) option \<Rightarrow> su_out" where
  "su_start child status pid req mode call =
     (if child < 0 then \<lparr>so_sent = [], so_app = call, so_shell = None\<rparr>
      else \<lparr>so_sent = encode_i32 0 @ encode_i32 (case status of Some code \<Rightarrow> code | None \<Rightarrow> -1),
             so_app = call, so_shell = Some (pid, req, mode)\<rparr>)"

definition su_daemon_handler :: "'db sqlite \<Rightarrow> pkg_env \<Rightarrow> app_env \<Rightarrow> nat \<Rightarrow> nat \<Rightarrow> int \<Rightarrow> int option \<Rightarrow> bytes \<Rightarrow> nat \<Rightarrow> int option \<Rightarrow> ('db su_state, su_out) run" where
  "su_daemon_handler S E A now later child status received uid pid st =
     (case decode_su_request received of
        Inl Panic \<Rightarrow> Some (Inl Panic)
      | Inl _ \<Rightarrow> ret (rejected None) st
      | Inr (req, _) \<Rightarrow>
          bindR (get_su_info S E now (as_i32 uid)) (\<lambda>addr st.
            let info = ss_objs st ! addr;
                ctx = \<lparr>ac_uid = uid, ac_pid = pid, ac_request = req, ac_info = info, ac_sdk_int = pe_sdk E\<rparr>
            in case connect_app A ctx (ai_settings (si_access info)) of
                 None \<Rightarrow> None
               | Some (settings, call) \<Rightarrow>
                   (let st = st\<lparr>ss_objs := (ss_objs st)[addr :=
                              info\<lparr>si_access := \<lparr>ai_settings = settings, ai_timestamp = later\<rparr>\<rparr>]\<rparr>;
                        req = (if rs_policy settings = SuPolicy_Restrict then req\<lparr>rq_drop_cap := True\<rparr> else req)
                    in if rs_policy settings = SuPolicy_Deny then ret (rejected call) st
                       else ret (su_start child status (case pid of Some p \<Rightarrow> p | None \<Rightarrow> -1) req
                              (mnt_ns (si_cfg info)) call) st)) st)"

section \<open>Policies as the tables hold them\<close>

text \<open>An engine that executes every statement of the daemon without an error.\<close>

definition reliable :: "'db sqlite \<Rightarrow> ('db \<Rightarrow> tables) \<Rightarrow> ('db \<Rightarrow> int) \<Rightarrow> bool" where
  "reliable S view now \<longleftrightarrow> sqlite_ok S view now \<and>
     (\<forall>db sql args. ref_exec (now db) (view db) sql args \<noteq> None \<longrightarrow> snd (snd (sql_exec_impl S db sql args)) = 0)"

lemma mem_sqlite_reliable: "reliable (mem_sqlite now t0) (\<lambda>t. t) (\<lambda>_. now)"
  using mem_sqlite_ok[of now t0] by (auto simp: reliable_def mem_sqlite_def)

lemma reliable_exec:
  assumes "reliable S view now" "ref_exec (now db) (view db) sql args = Some (t, rows)"
  obtains db' where "sql_exec_impl S db sql args = (db', rows, 0)" "view db' = t"
proof -
  obtain db' rows' rc where x: "sql_exec_impl S db sql args = (db', rows', rc)" by (metis prod_cases3)
  have ok: "sqlite_ok S view now" using assms(1) by (simp add: reliable_def)
  have "ref_exec (now db) (view db) sql args \<noteq> None" using assms(2) by simp
  then have "snd (snd (sql_exec_impl S db sql args)) = 0" using assms(1) unfolding reliable_def by blast
  then have "rc = 0" using x by simp
  then show thesis using sqlite_okD(1)[OF ok assms(2) x] x by (intro that[of db']) simp_all
qed

lemma live_policies_cases:
  assumes "tables_ok t"
  obtains "live_policies now uid t = []" | r where "live_policies now uid t = [r]"
proof -
  let ?l = "live_policies now uid t"
  have d: "distinct (map p_uid ?l)"
    using assms unfolding tables_ok_def live_policies_def by (simp add: distinct_map_filter)
  have u: "\<forall>r \<in> set ?l. p_uid r = uid" by (simp add: live_policies_def)
  have "length l \<le> 1" if "distinct (map p_uid l)" "\<forall>r \<in> set l. p_uid r = uid" for l
    using that by (cases l; cases "tl l") auto
  from this[OF d u] consider "?l = []" | r where "?l = [r]" by (cases ?l) auto
  then show thesis using that by cases
qed

definition settings_of_row :: "policy_row \<Rightarrow> root_settings" where
  "settings_of_row r = \<lparr>rs_policy = p_policy r, rs_log = (p_logging r \<noteq> 0), rs_notify = (p_notification r \<noteq> 0)\<rparr>"

text \<open>What the two queries for a policy return: the single policy that counts, if there is one.\<close>

definition access_of :: "int \<Rightarrow> int \<Rightarrow> tables \<Rightarrow> root_settings" where
  "access_of now uid t =
     (case live_policies now uid t of [] \<Rightarrow> root_settings_default | r # _ \<Rightarrow> settings_of_row r)"

lemma get_root_settings_reliable:
  assumes "reliable S view now" "conn_db S conn = Some db" "tables_ok (view db)"
  obtains db' where "get_root_settings S uid root_settings_default conn
      = (Some db', access_of (now db) uid (view db), Inr ())" "view db' = view db"
proof -
  let ?q = "''SELECT policy, logging, notification FROM policies WHERE uid=? AND (until=0 OR until>strftime('%s', 'now'))''"
  let ?row = "\<lambda>r. int_row [''policy'', ''logging'', ''notification''] [p_policy r, p_logging r, p_notification r]"
  have "ref_exec (now db) (view db) ?q [Integer uid]
      = Some (view db, map ?row (live_policies (now db) uid (view db)))"
    by (simp add: ref_exec_def)
  from reliable_exec[OF assms(1) this] obtain db' where
    x: "sql_exec_impl S db ?q [Integer uid] = (db', map ?row (live_policies (now db) uid (view db)), 0)" "view db' = view db"
    by blast
  have f: "fold (\<lambda>(columns, values) out. root_settings_on_row out columns values)
      (map ?row (live_policies (now db) uid (view db))) root_settings_default = access_of (now db) uid (view db)"
    by (rule live_policies_cases[OF assms(3), of "now db" uid])
      (simp_all add: access_of_def root_settings_on_row_def int_row_def settings_of_row_def)
  show thesis
  proof (rule that[of db'])
    show "get_root_settings S uid root_settings_default conn = (Some db', access_of (now db) uid (view db), Inr ())"
      by (simp add: get_root_settings_def db_exec_with_rows_def db_exec_impl_Some[OF assms(2) x(1)] f del: fold_map)
  qed (rule x(2))
qed

lemma granted_query_reliable:
  assumes "reliable S view now" "conn_db S conn = Some db" "tables_ok (view db)"
  shows "\<exists>db'. db_exec_with_rows S
      ''SELECT policy FROM policies WHERE uid=? AND (until=0 OR until>strftime('%s', 'now'))''
      [Integer uid] (\<lambda>_ _ values. get_int values 0 = SuPolicy_Allow) False conn
    = (Some db', rs_policy (access_of (now db) uid (view db)) = SuPolicy_Allow, 0)"
proof -
  let ?q = "''SELECT policy FROM policies WHERE uid=? AND (until=0 OR until>strftime('%s', 'now'))''"
  let ?row = "\<lambda>r. int_row [''policy''] [p_policy r]"
  have "ref_exec (now db) (view db) ?q [Integer uid]
      = Some (view db, map ?row (live_policies (now db) uid (view db)))"
    by (simp add: ref_exec_def)
  from reliable_exec[OF assms(1) this] obtain db' where
    x: "sql_exec_impl S db ?q [Integer uid] = (db', map ?row (live_policies (now db) uid (view db)), 0)"
    by blast
  have f: "fold (\<lambda>(columns, values) out. get_int values 0 = SuPolicy_Allow)
      (map ?row (live_policies (now db) uid (view db))) False
      \<longleftrightarrow> rs_policy (access_of (now db) uid (view db)) = SuPolicy_Allow"
    by (rule live_policies_cases[OF assms(3), of "now db" uid])
      (simp_all add: access_of_def int_row_def settings_of_row_def root_settings_default_def su_policy_defs)
  show ?thesis
    by (simp add: db_exec_with_rows_def db_exec_impl_Some[OF assms(2) x(1)] f del: fold_map)
qed

lemma get_db_settings_reliable:
  assumes "reliable S view now" "conn_db S conn = Some db" "tables_ok (view db)"
  obtains db' where "get_db_settings S e conn = (Some db', Inr (settings_of (view db) e))" "view db' = view db"
proof -
  have "ref_exec (now db) (view db) ''SELECT * FROM settings'' [] = Some (view db, map setting_row (t_settings (view db)))"
    by (simp add: ref_exec_def)
  from reliable_exec[OF assms(1) this] obtain db' where
    x: "sql_exec_impl S db ''SELECT * FROM settings'' [] = (db', map setting_row (t_settings (view db)), 0)" "view db' = view db"
    by blast
  show thesis
  proof (rule that[of db'])
    show "get_db_settings S e conn = (Some db', Inr (settings_of (view db) e))"
      by (simp add: get_db_settings_def db_exec_with_rows_def db_exec_impl_Some[OF assms(2) x(1)]
          settings_of_eq[OF assms(3)] sql_result_def del: fold_map)
  qed (rule x(2))
qed

section \<open>The decision on the tables\<close>

lemma to_app_id_nonneg: "0 \<le> uid \<Longrightarrow> to_app_id uid = uid mod 100000"
  by (cases "uid = 0") (simp_all add: to_app_id_def AID_USER_OFFSET_def signed_modulo_int_def)

lemma to_app_id_minus1: "to_app_id (-1) = -1"
  by (simp add: to_app_id_def AID_USER_OFFSET_def signed_modulo_int_def signed_divide_int_def)

abbreviation policy_of :: "su_info \<Rightarrow> int" where
  "policy_of info \<equiv> rs_policy (ai_settings (si_access info))"

definition access_allowed :: "root_access \<Rightarrow> int \<Rightarrow> bool" where
  "access_allowed a uid \<longleftrightarrow> a \<noteq> Disabled \<and> (a = AppsOnly \<longrightarrow> uid \<noteq> AID_SHELL) \<and> (a = AdbOnly \<longrightarrow> uid = AID_SHELL)"

lemma build_su_info_cases:
  assumes r: "reliable S view now" "conn_db S (pk_conn s) = Some db" "tables_ok (view db)"
    and g: "get_db_settings S (pe_emulator E) (pk_conn s) = (Some db1, Inr cfg)" "view db1 = view db"
    and b: "build_su_info S E t uid s = Some (Inr (info, s'))"
  obtains "eval_uid_of (multiuser_mode cfg) uid = None" "info = SuInfo_deny t uid"
  | eval mgr_uid mgr_pkg where "eval_uid_of (multiuser_mode cfg) uid = Some eval"
    "info = su_decision t uid eval cfg (access_of (now db1) eval (view db)) mgr_uid mgr_pkg"
    "mgr_uid = -1 \<or> (\<exists>s1 s2. get_manager S E (to_user_id eval) True s1 = Some (Inr ((mgr_uid, mgr_pkg), s2)))"
proof (cases "eval_uid_of (multiuser_mode cfg) uid")
  case None
  then show thesis using b that(1) by (simp add: build_su_info_def g)
next
  case (Some eval)
  have "tables_ok (view db1)" "conn_db S (Some db1) = Some db1" using r(3) g(2) by simp_all
  from get_root_settings_reliable[OF r(1) this(2,1)] obtain db2 where
    x: "get_root_settings S eval root_settings_default (Some db1) = (Some db2, access_of (now db1) eval (view db), Inr ())"
    unfolding g(2) by blast
  let ?a = "access_of (now db1) eval (view db)"
  have "bindR (if rs_policy ?a = SuPolicy_Query \<or> rs_log ?a \<or> rs_notify ?a
          then get_manager S E (to_user_id eval) True else ret (-1, []))
      (\<lambda>(mgr_uid, mgr_pkg). ret (su_decision t uid eval cfg ?a mgr_uid mgr_pkg)) (s\<lparr>pk_conn := Some db2\<rparr>)
      = Some (Inr (info, s'))"
    using b by (simp add: build_su_info_def g(1) Some x)
  then obtain m u where m: "(if rs_policy ?a = SuPolicy_Query \<or> rs_log ?a \<or> rs_notify ?a
          then get_manager S E (to_user_id eval) True else ret (-1, [])) (s\<lparr>pk_conn := Some db2\<rparr>) = Some (Inr (m, u))"
    "(case m of (mgr_uid, mgr_pkg) \<Rightarrow> ret (su_decision t uid eval cfg ?a mgr_uid mgr_pkg)) u = Some (Inr (info, s'))"
    by (rule bindR_SomeE)
  obtain mgr_uid mgr_pkg where p: "m = (mgr_uid, mgr_pkg)" by (cases m)
  show thesis
    using m by (intro that(2)[OF Some, of mgr_uid mgr_pkg]) (auto simp: p split: if_splits)
qed

lemma uid_granted_root_reliable:
  assumes r: "reliable S view now" "conn_db S conn = Some db" "tables_ok (view db)"
    and g: "get_db_settings S e conn = (Some db1, Inr cfg)" "view db1 = view db" and u: "uid \<noteq> AID_ROOT"
  shows "snd (uid_granted_root S e uid conn) \<longleftrightarrow>
    access_allowed (root_access cfg) uid \<and>
    (case eval_uid_of (multiuser_mode cfg) uid of
       None \<Rightarrow> False | Some eval \<Rightarrow> rs_policy (access_of (now db1) eval (view db)) = SuPolicy_Allow)"
proof -
  have t: "tables_ok (view db1)" "conn_db S (Some db1) = Some db1" using r(3) g(2) by simp_all
  have q: "\<exists>db'. db_exec_with_rows S
      ''SELECT policy FROM policies WHERE uid=? AND (until=0 OR until>strftime('%s', 'now'))''
      [Integer eval] (\<lambda>_ _ values. get_int values 0 = SuPolicy_Allow) False (Some db1)
    = (Some db', rs_policy (access_of (now db1) eval (view db)) = SuPolicy_Allow, 0)" for eval
    using granted_query_reliable[OF r(1) t(2,1), of eval] unfolding g(2) .
  show ?thesis
  proof (cases "access_allowed (root_access cfg) uid")
    case True
    then have a: "\<not> (root_access cfg = Disabled \<or> (root_access cfg = AppsOnly \<and> uid = AID_SHELL)
               \<or> (root_access cfg = AdbOnly \<and> uid \<noteq> AID_SHELL))" by (auto simp: access_allowed_def)
    show ?thesis
      using q[of uid] q[of "to_app_id uid"] u True
      by (cases "multiuser_mode cfg") (auto simp: uid_granted_root_def g a eval_uid_of_def)
  next
    case False
    then show ?thesis using u by (auto simp: uid_granted_root_def g access_allowed_def)
  qed
qed

section \<open>Cached decisions\<close>

lemma su_decision_uid [simp]: "si_uid (su_decision t uid eval cfg a m k) = uid"
  by (simp add: su_decision_def SuInfo_allow_def SuInfo_deny_def su_info_with_def)

lemma build_su_info_uid:
  assumes "build_su_info S E t uid s = Some (Inr (info, s'))"
  shows "si_uid info = uid"
  using assms
  by (auto simp: build_su_info_def Let_def SuInfo_deny_def su_info_with_def bindR_def
      split: prod.splits sum.splits option.splits if_splits)

lemma get_su_info_object:
  assumes "get_su_info S E now uid st = Some (Inr (addr, st'))" "uid \<noteq> AID_ROOT"
    and "ss_cached st < length (ss_objs st)"
  shows "addr = ss_cached st'" "addr < length (ss_objs st')" "si_uid (ss_objs st' ! addr) = uid"
proof -
  have "addr = ss_cached st' \<and> addr < length (ss_objs st') \<and> si_uid (ss_objs st' ! addr) = uid"
  proof (cases "si_uid (ss_objs st ! ss_cached st) = uid \<and> is_fresh now (si_access (ss_objs st ! ss_cached st))")
    case True
    then show ?thesis using assms by (auto simp: get_su_info_def)
  next
    case False
    then obtain info pkg where b: "build_su_info S E now uid (ss_pkg st) = Some (Inr (info, pkg))"
      and r: "addr = length (ss_objs st)"
        "st' = st\<lparr>ss_pkg := pkg, ss_objs := ss_objs st @ [info], ss_cached := length (ss_objs st)\<rparr>"
      using assms(1,2)
      by (auto simp: get_su_info_def Let_def split: option.splits sum.splits)
    show ?thesis using build_su_info_uid[OF b] by (simp add: r)
  qed
  then show "addr = ss_cached st'" "addr < length (ss_objs st')" "si_uid (ss_objs st' ! addr) = uid" by auto
qed

lemma get_su_info_fresh:
  assumes "uid \<noteq> AID_ROOT" "si_uid (ss_objs st ! ss_cached st) = uid" "is_fresh now (si_access (ss_objs st ! ss_cached st))"
  shows "get_su_info S E now uid st = Some (Inr (ss_cached st, st))"
  using assms by (simp add: get_su_info_def ret_def)

text \<open>The steps of a handled request that was decoded.\<close>

lemma su_daemon_handler_steps:
  assumes h: "su_daemon_handler S E A now later child status received uid pid st = Some (Inr (out, st'))"
    and d: "decode_su_request received = Inr (req, rest)"
  obtains addr st1 settings call where "get_su_info S E now (as_i32 uid) st = Some (Inr (addr, st1))"
    and "connect_app A \<lparr>ac_uid = uid, ac_pid = pid, ac_request = req, ac_info = ss_objs st1 ! addr, ac_sdk_int = pe_sdk E\<rparr>
      (ai_settings (si_access (ss_objs st1 ! addr))) = Some (settings, call)"
    and "st' = st1\<lparr>ss_objs := (ss_objs st1)[addr :=
      (ss_objs st1 ! addr)\<lparr>si_access := \<lparr>ai_settings = settings, ai_timestamp = later\<rparr>\<rparr>]\<rparr>"
    and "so_shell out = (if rs_policy settings = SuPolicy_Deny \<or> child < 0 then None
      else Some (case pid of Some p \<Rightarrow> p | None \<Rightarrow> -1,
        if rs_policy settings = SuPolicy_Restrict then req\<lparr>rq_drop_cap := True\<rparr> else req,
        mnt_ns (si_cfg (ss_objs st1 ! addr))))"
proof -
  obtain addr st1 where g: "get_su_info S E now (as_i32 uid) st = Some (Inr (addr, st1))"
    using h by (auto simp: su_daemon_handler_def d elim!: bindR_SomeE)
  let ?ctx = "\<lparr>ac_uid = uid, ac_pid = pid, ac_request = req, ac_info = ss_objs st1 ! addr, ac_sdk_int = pe_sdk E\<rparr>"
  obtain settings call where c: "connect_app A ?ctx (ai_settings (si_access (ss_objs st1 ! addr))) = Some (settings, call)"
    using h by (auto simp: su_daemon_handler_def d g bindR_def Let_def split: option.splits)
  show thesis
    by (rule that[OF g c])
      (use h in \<open>auto simp: su_daemon_handler_def d g bindR_def c Let_def rejected_def su_start_def split: if_splits\<close>)
qed

section \<open>Pruning\<close>

lemma fold_uid_list:
  "fold (\<lambda>(columns, values) out. uid_list_on_row out columns values)
     (map (\<lambda>r. int_row [''uid''] [p_uid r]) rs) acc = acc @ map p_uid rs"
  by (induction rs arbitrary: acc) (simp_all add: uid_list_on_row_def int_row_def)

lemma delete_policies:
  assumes "reliable S view now"
  shows "\<exists>db'. fold (\<lambda>uid conn. fst (db_exec S ''DELETE FROM policies WHERE uid=?'' [Integer uid] conn)) uids (Some db) = Some db'
    \<and> view db' = (view db)\<lparr>t_policies := filter (\<lambda>r. p_uid r \<notin> set uids) (t_policies (view db))\<rparr>"
proof (induction uids arbitrary: db)
  case (Cons uid uids)
  have "ref_exec (now db) (view db) ''DELETE FROM policies WHERE uid=?'' [Integer uid]
      = Some ((view db)\<lparr>t_policies := filter (\<lambda>r. p_uid r \<noteq> uid) (t_policies (view db))\<rparr>, [])"
    by (simp add: ref_exec_def)
  from reliable_exec[OF assms this] obtain db1 where
    x: "sql_exec_impl S db ''DELETE FROM policies WHERE uid=?'' [Integer uid] = (db1, [], 0)"
    "view db1 = (view db)\<lparr>t_policies := filter (\<lambda>r. p_uid r \<noteq> uid) (t_policies (view db))\<rparr>" by blast
  have e: "fst (db_exec S ''DELETE FROM policies WHERE uid=?'' [Integer uid] (Some db)) = Some db1"
    by (simp add: db_exec_def db_exec_impl_Some[OF conn_db_Some x(1)])
  show ?case using Cons.IH[of db1] by (simp add: e x(2) conj_commute)
qed simp

lemma prune_su_access_result:
  assumes "reliable S view now" "conn_db S conn = Some db"
  shows "\<exists>db'. prune_su_access S app_list conn = Some db'
    \<and> view db' = (view db)\<lparr>t_policies := filter (\<lambda>r. \<not> uninstalled app_list (p_uid r)) (t_policies (view db))\<rparr>"
proof -
  let ?rows = "map (\<lambda>r. int_row [''uid''] [p_uid r]) (t_policies (view db))"
  have "ref_exec (now db) (view db) ''SELECT uid FROM policies'' [] = Some (view db, ?rows)"
    by (simp add: ref_exec_def)
  from reliable_exec[OF assms(1) this] obtain db1 where
    x: "sql_exec_impl S db ''SELECT uid FROM policies'' [] = (db1, ?rows, 0)" "view db1 = view db" by blast
  let ?uids = "filter (uninstalled app_list) (map p_uid (t_policies (view db)))"
  have p: "prune_su_access S app_list conn
      = fold (\<lambda>uid conn. fst (db_exec S ''DELETE FROM policies WHERE uid=?'' [Integer uid] conn)) ?uids (Some db1)"
    by (simp add: prune_su_access_def db_exec_with_rows_def db_exec_impl_Some[OF assms(2) x(1)] fold_uid_list del: fold_map)
  have "filter (\<lambda>r. p_uid r \<notin> set ?uids) (t_policies (view db)) = filter (\<lambda>r. \<not> uninstalled app_list (p_uid r)) (t_policies (view db))"
    by (rule filter_cong[OF refl]) auto
  then show ?thesis unfolding p using delete_policies[OF assms(1), of ?uids db1] unfolding x(2) by simp
qed

section \<open>An example database\<close>

definition su_tables :: "int \<Rightarrow> tables" where
  "su_tables p = \<lparr>t_settings = [], t_strings = [],
     t_policies = [\<lparr>p_uid = 10001, p_policy = p, p_until = 0, p_logging = 0, p_notification = 0\<rparr>]\<rparr>"

definition su_demo :: "int \<Rightarrow> tables su_state" where
  "su_demo p = \<lparr>ss_pkg = \<lparr>pk_info = manager_info_default, pk_conn = Some (su_tables p), pk_events = []\<rparr>,
     ss_objs = [SuInfo_deny 0 (-1)], ss_cached = 0\<rparr>"

definition su_demo_request :: su_request where
  "su_demo_request = \<lparr>rq_target_uid = 0, rq_target_pid = -1, rq_login = False, rq_keep_env = False,
     rq_drop_cap = False, rq_shell = ''/system/bin/sh'', rq_command = [], rq_context = [], rq_gids = []\<rparr>"

lemma su_tables_ok: "tables_ok (su_tables p)"
  by (simp add: tables_ok_def su_tables_def)

lemma su_demo_settings: "settings_of (su_tables p) e = db_settings_default\<lparr>zygisk_setting := e\<rparr>"
  by (simp add: settings_of_def setting_of_def su_tables_def db_settings_default_def root_access_from_i32_def
      root_access_default_def multiuser_mode_from_i32_def multiuser_mode_default_def)

lemma su_demo_decode: "decode_su_request (encode_su_request su_demo_request) = Inr (su_demo_request, [])"
  using su_request.decode_encode[of su_demo_request "[]"]
  by (simp add: su_request_ok_def su_demo_request_def i32_ok_def utf8_valid_ascii)

lemma su_demo_uid: "as_i32 10001 = 10001" "to_user_id 10001 = 0" "to_app_id 10001 = 10001"
  by (simp_all add: as_i32_def to_user_id_def to_app_id_def AID_USER_OFFSET_def signed_divide_int_def signed_modulo_int_def)

lemma su_demo_build:
  assumes "p \<noteq> SuPolicy_Query"
  shows "\<exists>s'. build_su_info (mem_sqlite 0 (su_tables p)) demo_env 7 10001 (ss_pkg (su_demo p))
    = Some (Inr (su_decision 7 10001 10001 db_settings_default \<lparr>rs_policy = p, rs_log = False, rs_notify = False\<rparr> (-1) [], s'))"
proof -
  have c: "conn_db (mem_sqlite 0 (su_tables p)) (Some (su_tables p)) = Some (su_tables p)" by simp
  have e: "pe_emulator demo_env = False" by (simp add: demo_env_def)
  have g: "get_db_settings (mem_sqlite 0 (su_tables p)) False (Some (su_tables p)) = (Some (su_tables p), Inr db_settings_default)"
    by (rule get_db_settings_reliable[OF mem_sqlite_reliable c su_tables_ok, of False])
      (simp add: su_demo_settings db_settings_default_def)
  have a: "access_of 0 10001 (su_tables p) = \<lparr>rs_policy = p, rs_log = False, rs_notify = False\<rparr>"
    by (simp add: access_of_def live_policies_def su_tables_def settings_of_row_def)
  have r: "get_root_settings (mem_sqlite 0 (su_tables p)) 10001 root_settings_default (Some (su_tables p))
      = (Some (su_tables p), \<lparr>rs_policy = p, rs_log = False, rs_notify = False\<rparr>, Inr ())"
    by (rule get_root_settings_reliable[OF mem_sqlite_reliable c su_tables_ok, of 10001]) (simp add: a)
  have m: "multiuser_mode db_settings_default = OwnerOnly"
    by (simp add: db_settings_default_def multiuser_mode_default_def)
  show ?thesis using assms
    by (simp add: build_su_info_def su_demo_def e g m eval_uid_of_def su_demo_uid r bindR_def ret_def)
qed

section \<open>Properties\<close>



text \<open>
  A decision is kept for three seconds from its last use, whatever happens to the database, the
  manager or the file system in between: a request of the same user within that time is decided by
  the same object, and by the policy that decided the request before.
\<close>
theorem su_decision_is_cached:
  assumes "su_daemon_handler S E A now later child status received uid pid st = Some (Inr (out, st'))"
    and "decode_su_request received = Inr (req, rest)" "as_i32 uid \<noteq> AID_ROOT"
    and "ss_cached st < length (ss_objs st)" "0 \<le> child" "again - later < 3 * 10 ^ 9"
  shows "get_su_info S' E' again (as_i32 uid) (st'\<lparr>ss_pkg := pkg\<rparr>)
      = Some (Inr (ss_cached st', st'\<lparr>ss_pkg := pkg\<rparr>))
    \<and> (policy_of (ss_objs st' ! ss_cached st') = SuPolicy_Deny \<longleftrightarrow> so_shell out = None)"
proof (rule su_daemon_handler_steps[OF assms(1,2)])
  fix addr st1 settings call
  assume g: "get_su_info S E now (as_i32 uid) st = Some (Inr (addr, st1))"
    and st': "st' = st1\<lparr>ss_objs := (ss_objs st1)[addr :=
      (ss_objs st1 ! addr)\<lparr>si_access := \<lparr>ai_settings = settings, ai_timestamp = later\<rparr>\<rparr>]\<rparr>"
    and sh: "so_shell out = (if rs_policy settings = SuPolicy_Deny \<or> child < 0 then None
      else Some (case pid of Some p \<Rightarrow> p | None \<Rightarrow> -1,
        if rs_policy settings = SuPolicy_Restrict then req\<lparr>rq_drop_cap := True\<rparr> else req,
        mnt_ns (si_cfg (ss_objs st1 ! addr))))"
  note o = get_su_info_object[OF g assms(3,4)]
  have c: "ss_objs st' ! ss_cached st' =
      (ss_objs st1 ! addr)\<lparr>si_access := \<lparr>ai_settings = settings, ai_timestamp = later\<rparr>\<rparr>"
    using o by (simp add: st')
  have "get_su_info S' E' again (as_i32 uid) (st'\<lparr>ss_pkg := pkg\<rparr>)
      = Some (Inr (ss_cached (st'\<lparr>ss_pkg := pkg\<rparr>), st'\<lparr>ss_pkg := pkg\<rparr>))"
    using o(3) assms(6) by (intro get_su_info_fresh[OF assms(3)]) (simp_all add: c is_fresh_def)
  moreover have "policy_of (ss_objs st' ! ss_cached st') = SuPolicy_Deny \<longleftrightarrow> so_shell out = None"
    unfolding c sh using assms(5) by simp
  ultimately show ?thesis by simp
qed

theorem su_decision_is_cached_witness:
  "\<exists>out st'. su_daemon_handler (mem_sqlite 0 (su_tables 2)) demo_env silent_manager 7 8 5 (Some 0)
        (encode_su_request su_demo_request) 10001 None (su_demo 2) = Some (Inr (out, st'))
    \<and> get_su_info (mem_sqlite 0 (su_tables 1)) demo_env (2 * 10 ^ 9) 10001 (st'\<lparr>ss_pkg := ss_pkg (su_demo 1)\<rparr>)
        = Some (Inr (ss_cached st', st'\<lparr>ss_pkg := ss_pkg (su_demo 1)\<rparr>))
    \<and> (policy_of (ss_objs st' ! ss_cached st') = SuPolicy_Deny \<longleftrightarrow> so_shell out = None)"
proof -
  obtain s' where b: "build_su_info (mem_sqlite 0 (su_tables 2)) demo_env 7 10001 (ss_pkg (su_demo 2))
      = Some (Inr (su_decision 7 10001 10001 db_settings_default \<lparr>rs_policy = 2, rs_log = False, rs_notify = False\<rparr> (-1) [], s'))"
    using su_demo_build[of 2] by (auto simp: su_policy_defs)
  have n: "\<not> to_app_id 10001 = to_app_id (-1)" by (simp add: su_demo_uid to_app_id_minus1)
  have "\<exists>out st'. su_daemon_handler (mem_sqlite 0 (su_tables 2)) demo_env silent_manager 7 8 5 (Some 0)
        (encode_su_request su_demo_request) 10001 None (su_demo 2) = Some (Inr (out, st'))"
    using b n by (simp add: su_daemon_handler_def su_demo_decode get_su_info_def su_demo_uid AID_ROOT_def su_demo_def
        SuInfo_deny_def su_info_with_def bindR_def ret_def Let_def connect_app_def su_decision_def
        db_settings_default_def root_access_default_def su_policy_defs)
  then obtain out st' where h: "su_daemon_handler (mem_sqlite 0 (su_tables 2)) demo_env silent_manager 7 8 5 (Some 0)
        (encode_su_request su_demo_request) 10001 None (su_demo 2) = Some (Inr (out, st'))" by blast
  from su_decision_is_cached[OF h su_demo_decode, of "2 * 10 ^ 9" "mem_sqlite 0 (su_tables 1)" demo_env "ss_pkg (su_demo 1)"] h
  show ?thesis by (simp add: su_demo_uid AID_ROOT_def su_demo_def)
qed



text \<open>
  Pruning deletes exactly the policies of applications whose number is not in the list of
  installed applications.  The list is what could be read: when the data directory cannot be opened,
  the policies of all applications are deleted.
\<close>
theorem prune_su_access_spec:
  assumes "reliable S view now" "conn_db S conn = Some db"
  shows "\<exists>db'. prune_su_access S (get_app_no_list opens dir) conn = Some db'
    \<and> t_policies (view db') = filter (\<lambda>r. \<not> uninstalled (get_app_no_list opens dir) (p_uid r)) (t_policies (view db))
    \<and> (dir = None \<longrightarrow> list_all (\<lambda>r. \<not> (AID_APP_START \<le> to_app_id (p_uid r) \<and> to_app_id (p_uid r) \<le> AID_APP_END)) (t_policies (view db')))"
proof -
  obtain db' where d: "prune_su_access S (get_app_no_list opens dir) conn = Some db'"
    "view db' = (view db)\<lparr>t_policies := filter (\<lambda>r. \<not> uninstalled (get_app_no_list opens dir) (p_uid r)) (t_policies (view db))\<rparr>"
    using prune_su_access_result[OF assms] by blast
  then show ?thesis
    by (auto simp: list_all_iff get_app_no_list_def uninstalled_def Let_def)
qed

theorem prune_su_access_spec_witness:
  "\<exists>db'. prune_su_access (mem_sqlite 0 (su_tables 2)) (get_app_no_list (\<lambda>_. True) None) None = Some db' \<and> t_policies db' = []"
  using prune_su_access_spec[OF mem_sqlite_reliable, of 0 "su_tables 2" None "su_tables 2" "\<lambda>_. True" None]
  by (auto simp: conn_db_def mem_sqlite_def get_app_no_list_def uninstalled_def su_tables_def su_demo_uid AID_APP_START_def AID_APP_END_def)

end
