(* ===== verification/ResetProp.thy ===== *)
theory ResetProp
  imports Dir BTreeMap "HOL-Library.Option_ord"
begin

text \<open>
  System properties (core/resetprop/cli.rs, mod.rs, persist.rs).  The property area belongs to the C
  library and is the parameter \<open>sys_prop\<close> with what the code relies on in \<open>sys_prop_ok\<close>.  Persistent
  properties are kept in a protobuf file, whose codec is a parameter, or in one file per property.
  Waiting for a property takes the list of the area's states that the waiter observes, one per wake-up.
\<close>

section \<open>Persistent properties\<close>

record prop_record =
  pr_name :: "string option"
  pr_value :: "string option"

record persist_fs =
  pf_proto :: "bytes option"
  pf_files :: "string \<Rightarrow> bytes option"

text \<open>
  The protobuf codec, the entries of the property directory, and whether writing the protobuf file or
  a property file succeeds.
\<close>

record persist_env =
  pv_read :: "bytes \<Rightarrow> prop_record list option"
  pv_write :: "prop_record list \<Rightarrow> bytes"
  pv_entries :: "persist_fs \<Rightarrow> unit entries option"
  pv_write_ok :: bool
  pv_file_ok :: bool

text \<open>
  Binary search in a list sorted by name: where the name is, or where it belongs.  The library leaves
  open which of several records of the same name it finds; here it is the first.
\<close>

definition find_index :: "prop_record list \<Rightarrow> string \<Rightarrow> nat + nat" where
  "find_index props name =
     (let i = length (takeWhile (\<lambda>p. pr_name p < Some name) props)
      in if i < length props \<and> pr_name (props ! i) = Some name then Inr i else Inl i)"

definition find_record :: "prop_record list \<Rightarrow> string \<Rightarrow> prop_record option" where
  "find_record props name = (case find_index props name of Inr i \<Rightarrow> Some (props ! i) | Inl _ \<Rightarrow> None)"

definition check_proto :: "persist_fs \<Rightarrow> bool" where
  "check_proto fs \<longleftrightarrow> pf_proto fs \<noteq> None"

definition prop_path :: "string \<Rightarrow> string" where
  "prop_path name =
     fixed_as_str (append_path_impl fixed_ops (append_path_impl fixed_ops (arr_new 4096) ''/data/property'') name)"

definition file_get_prop :: "persist_fs \<Rightarrow> string \<Rightarrow> string res" where
  "file_get_prop fs name =
     bindE (ok_or LoggedError (pf_files fs (prop_path name))) (\<lambda>s. if utf8_valid s then Inr s else Inl LoggedError)"

definition file_set_prop :: "persist_env \<Rightarrow> persist_fs \<Rightarrow> string \<Rightarrow> string option \<Rightarrow> persist_fs \<times> unit res" where
  "file_set_prop V fs name val =
     (case val of
        Some v \<Rightarrow>
          if pv_file_ok V then (fs\<lparr>pf_files := (pf_files fs)(prop_path name \<mapsto> v)\<rparr>, Inr ()) else (fs, Inl LoggedError)
      | None \<Rightarrow>
          if pf_files fs (prop_path name) = None then (fs, Inl LoggedError)
          else (fs\<lparr>pf_files := (pf_files fs)(prop_path name := None)\<rparr>, Inr ()))"

definition proto_read_props :: "persist_env \<Rightarrow> persist_fs \<Rightarrow> prop_record list res" where
  "proto_read_props V fs =
     bindE (ok_or LoggedError (pf_proto fs)) (\<lambda>m.
     bindE (ok_or LoggedError (pv_read V m)) (\<lambda>props.
     Inr (sort_key pr_name props)))"

definition proto_write_props :: "persist_env \<Rightarrow> persist_fs \<Rightarrow> prop_record list \<Rightarrow> persist_fs \<times> unit res" where
  "proto_write_props V fs props =
     (if pv_write_ok V then (fs\<lparr>pf_proto := Some (pv_write V props)\<rparr>, Inr ()) else (fs, Inl LoggedError))"

definition persist_get_prop :: "persist_env \<Rightarrow> persist_fs \<Rightarrow> string \<Rightarrow> string res" where
  "persist_get_prop V fs key =
     (if check_proto fs then
        bindE (proto_read_props V fs) (\<lambda>props.
        bindE (ok_or LoggedError (find_record props key)) (\<lambda>prop.
        case (pr_name prop, pr_value prop) of (Some _, Some v) \<Rightarrow> Inr v | _ \<Rightarrow> Inl LoggedError))
      else file_get_prop fs key)"

definition put_str :: "string \<Rightarrow> string \<Rightarrow> (string, string) btree \<Rightarrow> (string, string) btree" where
  "put_str key val m = bt_insert key val m"

definition persist_visit :: "persist_fs \<Rightarrow> (unit, (string, string) btree) visitor" where
  "persist_visit fs m p = (\<lambda>(name, x).
     (case x of
        NFile a bs \<Rightarrow> (case file_get_prop fs name of Inr v \<Rightarrow> put_str name v m | Inl _ \<Rightarrow> m)
      | _ \<Rightarrow> m, Inr Skip))"

definition persist_get_all_props :: "persist_env \<Rightarrow> persist_fs \<Rightarrow> (string, string) btree \<Rightarrow> (string, string) btree \<times> unit res" where
  "persist_get_all_props V fs m =
     (if check_proto fs then
        (case proto_read_props V fs of
           Inl e \<Rightarrow> (m, Inl e)
         | Inr props \<Rightarrow>
             (fold (\<lambda>prop m. case (pr_name prop, pr_value prop) of (Some n, Some v) \<Rightarrow> put_str n v m | _ \<Rightarrow> m) props m, Inr ()))
      else
        (case pv_entries V fs of
           None \<Rightarrow> (m, Inl LoggedError)
         | Some es \<Rightarrow>
             (let (m, r) = pre_order_walk_impl (\<lambda>_. True) (persist_visit fs) m [] es
              in (m, bindE r (\<lambda>_. Inr ())))))"

definition persist_delete_prop :: "persist_env \<Rightarrow> persist_fs \<Rightarrow> string \<Rightarrow> persist_fs \<times> unit res" where
  "persist_delete_prop V fs key =
     (if check_proto fs then
        (case proto_read_props V fs of
           Inl e \<Rightarrow> (fs, Inl e)
         | Inr props \<Rightarrow>
             (case find_index props key of
                Inl _ \<Rightarrow> (fs, Inl LoggedError)
              | Inr i \<Rightarrow> proto_write_props V fs (take i props @ drop (Suc i) props)))
      else file_set_prop V fs key None)"

definition persist_set_prop :: "persist_env \<Rightarrow> persist_fs \<Rightarrow> string \<Rightarrow> string \<Rightarrow> persist_fs \<times> unit res" where
  "persist_set_prop V fs key val =
     (if check_proto fs then
        (case proto_read_props V fs of
           Inl e \<Rightarrow> (fs, Inl e)
         | Inr props \<Rightarrow>
             proto_write_props V fs
               (case find_index props key of
                  Inr i \<Rightarrow> props[i := (props ! i)\<lparr>pr_value := Some val\<rparr>]
                | Inl i \<Rightarrow> take i props @ \<lparr>pr_name = Some key, pr_value = Some val\<rparr> # drop i props))
      else file_set_prop V fs key (Some val))"

section \<open>The property area\<close>

definition PROP_VALUE_MAX :: nat where "PROP_VALUE_MAX = 92"

text \<open>
  \<open>sp_find\<close> and \<open>sp_find_mut\<close> look a property up for reading and for writing, the second also tells
  whether the property is long; \<open>sp_read\<close> is the value read through what the lookup of a key returned.
\<close>

record 'a sys_prop =
  sp_find :: "'a \<Rightarrow> string \<Rightarrow> bool"
  sp_find_mut :: "'a \<Rightarrow> string \<Rightarrow> bool option"
  sp_read :: "'a \<Rightarrow> string \<Rightarrow> string"
  sp_set :: "'a \<Rightarrow> string \<Rightarrow> string \<Rightarrow> 'a"
  sp_add :: "'a \<Rightarrow> string \<Rightarrow> string \<Rightarrow> 'a"
  sp_update :: "'a \<Rightarrow> string \<Rightarrow> string \<Rightarrow> 'a"
  sp_delete :: "'a \<Rightarrow> string \<Rightarrow> bool \<Rightarrow> 'a \<times> bool"
  sp_context :: "'a \<Rightarrow> string \<Rightarrow> string"
  sp_for_each :: "'a \<Rightarrow> (string \<times> string) list"

record reset_prop =
  rp_verbose :: bool
  rp_wait_mode :: bool
  rp_persist :: bool
  rp_persist_only :: bool
  rp_context :: bool
  rp_skip_svc :: bool
  rp_file :: "string option"
  rp_delete_key :: "string option"
  rp_args :: "string list"

definition reset_prop_default :: reset_prop where
  "reset_prop_default =
     \<lparr>rp_verbose = False, rp_wait_mode = False, rp_persist = False, rp_persist_only = False, rp_context = False,
      rp_skip_svc = False, rp_file = None, rp_delete_key = None, rp_args = []\<rparr>"

record 'a prop_state =
  ps_area :: 'a
  ps_fs :: persist_fs

definition rp_get :: "'a sys_prop \<Rightarrow> persist_env \<Rightarrow> reset_prop \<Rightarrow> 'a prop_state \<Rightarrow> string \<Rightarrow> string option" where
  "rp_get P V rp s key =
     (if rp_context rp then Some (sp_context P (ps_area s) key)
      else
        let val = (if \<not> rp_persist_only rp \<and> sp_find P (ps_area s) key then Some (sp_read P (ps_area s) key) else None)
        in if val = None \<and> (rp_persist rp \<or> rp_persist_only rp) \<and> prefix ''persist.'' key
           then (case persist_get_prop V (ps_fs s) key of Inr v \<Rightarrow> Some v | Inl _ \<Rightarrow> None)
           else val)"

definition rp_print_all :: "'a sys_prop \<Rightarrow> persist_env \<Rightarrow> reset_prop \<Rightarrow> 'a prop_state \<Rightarrow> string list" where
  "rp_print_all P V rp s =
     (let m = (if rp_persist_only rp then [] else fold (\<lambda>(k, v). put_str k v) (sp_for_each P (ps_area s)) []);
          m = (if rp_persist rp \<or> rp_persist_only rp then fst (persist_get_all_props V (ps_fs s) m) else m)
      in map (\<lambda>(k, v). ''['' @ k @ '']: ['' @ (if rp_context rp then sp_context P (ps_area s) k else v) @ '']'') m)"

definition rp_set :: "'a sys_prop \<Rightarrow> persist_env \<Rightarrow> reset_prop \<Rightarrow> 'a prop_state \<Rightarrow> string \<Rightarrow> string \<Rightarrow> 'a prop_state" where
  "rp_set P V rp s key val =
     (let info = sp_find_mut P (ps_area s) key;
          ro = prefix ''ro.'' key;
          skip_svc = (rp_skip_svc rp \<or> ro);
          remove = (ro \<and> (case info of Some is_long \<Rightarrow> is_long \<or> PROP_VALUE_MAX \<le> length val | None \<Rightarrow> False));
          area = (if remove then fst (sp_delete P (ps_area s) key False) else ps_area s);
          info = (if remove then None else info);
          area = (if info \<noteq> None then (if skip_svc then sp_update P area key val else sp_set P area key val)
                  else (if skip_svc then sp_add P area key val else sp_set P area key val));
          fs = (if skip_svc \<and> rp_persist rp \<and> prefix ''persist.'' key
                then fst (persist_set_prop V (ps_fs s) key val) else ps_fs s)
      in s\<lparr>ps_area := area, ps_fs := fs\<rparr>)"

definition rp_delete :: "'a sys_prop \<Rightarrow> persist_env \<Rightarrow> reset_prop \<Rightarrow> 'a prop_state \<Rightarrow> string \<Rightarrow> 'a prop_state \<times> bool" where
  "rp_delete P V rp s key =
     (let (area, r) = sp_delete P (ps_area s) key True in
      if rp_persist rp \<and> prefix ''persist.'' key then
        (let (fs, pr) = persist_delete_prop V (ps_fs s) key
         in (s\<lparr>ps_area := area, ps_fs := fs\<rparr>, r \<or> pr = Inr ()))
      else (s\<lparr>ps_area := area\<rparr>, r))"

text \<open>
  Waiting.  The list holds the states of the area seen at each wake-up; \<open>None\<close> when the wait is not
  over at its end.  The result are the states from the one that ends the wait.
\<close>

fun wait_exists :: "'a sys_prop \<Rightarrow> string \<Rightarrow> 'a list \<Rightarrow> 'a list option" where
  "wait_exists P key [] = None"
| "wait_exists P key (a # as) = (if sp_find P a key then Some (a # as) else wait_exists P key as)"

fun wait_differs :: "'a sys_prop \<Rightarrow> string \<Rightarrow> string \<Rightarrow> 'a list \<Rightarrow> 'a list option" where
  "wait_differs P key val [] = None"
| "wait_differs P key val (a # as) = (if val \<noteq> sp_read P a key then Some (a # as) else wait_differs P key val as)"

definition rp_wait :: "'a sys_prop \<Rightarrow> reset_prop \<Rightarrow> 'a list \<Rightarrow> 'a list option res" where
  "rp_wait P rp seen =
     (case rp_args rp of
        [] \<Rightarrow> Inl Panic
      | key # rest \<Rightarrow>
          Inr (case wait_exists P key seen of
                 None \<Rightarrow> None
               | Some seen \<Rightarrow> (case rest of [] \<Rightarrow> Some seen | val # _ \<Rightarrow> wait_differs P key val seen)))"

definition rp_load_file :: "'a sys_prop \<Rightarrow> persist_env \<Rightarrow> reset_prop \<Rightarrow> 'a prop_state \<Rightarrow> bytes option \<Rightarrow> 'a prop_state \<times> unit res" where
  "rp_load_file P V rp s file =
     (case file of
        None \<Rightarrow> (s, Inl LoggedError)
      | Some content \<Rightarrow> (for_each_prop (\<lambda>s k v. (rp_set P V rp s k v, True)) s content, Inr ()))"

section \<open>Helpers of the daemon\<close>

definition set_prop :: "'a sys_prop \<Rightarrow> persist_env \<Rightarrow> 'a prop_state \<Rightarrow> string \<Rightarrow> string \<Rightarrow> 'a prop_state" where
  "set_prop P V s key val = rp_set P V (reset_prop_default\<lparr>rp_skip_svc := True\<rparr>) s key val"

definition load_prop_file :: "'a sys_prop \<Rightarrow> persist_env \<Rightarrow> 'a prop_state \<Rightarrow> bytes option \<Rightarrow> 'a prop_state" where
  "load_prop_file P V s file = fst (rp_load_file P V (reset_prop_default\<lparr>rp_skip_svc := True\<rparr>) s file)"

definition get_prop :: "'a sys_prop \<Rightarrow> persist_env \<Rightarrow> 'a prop_state \<Rightarrow> string \<Rightarrow> string" where
  "get_prop P V s key =
     (case rp_get P V (reset_prop_default\<lparr>rp_persist := prefix ''persist.'' key\<rparr>) s key of Some v \<Rightarrow> v | None \<Rightarrow> [])"

section \<open>The command line\<close>

datatype cli_error = MissingName | MultipleModes | Unrecognized string

definition check_args :: "reset_prop \<Rightarrow> cli_error + reset_prop" where
  "check_args cli =
     (if rp_wait_mode cli \<and> rp_args cli = [] then Inl MissingName
      else if (if rp_wait_mode cli then 1 else 0) + (if rp_file cli \<noteq> None then 1 else 0)
              + (if rp_delete_key cli \<noteq> None then 1 else 0) > (1 :: nat) then Inl MultipleModes
      else if 2 < length (rp_args cli) then Inl (Unrecognized (rp_args cli ! 2))
      else Inr cli)"

text \<open>The lines printed, the state left and the result; \<open>None\<close> while the wait mode still waits.\<close>

definition rp_run :: "'a sys_prop \<Rightarrow> persist_env \<Rightarrow> reset_prop \<Rightarrow> (string \<Rightarrow> bytes option) \<Rightarrow> 'a list \<Rightarrow> 'a prop_state \<Rightarrow> (string list \<times> 'a prop_state \<times> unit res) option" where
  "rp_run P V rp files seen s =
     (if rp_wait_mode rp then
        (case rp_wait P rp seen of
           Inl e \<Rightarrow> Some ([], s, Inl e)
         | Inr None \<Rightarrow> None
         | Inr (Some _) \<Rightarrow> Some ([], s, Inr ()))
      else
        Some
          (case rp_file rp of
             Some file \<Rightarrow> ([], rp_load_file P V rp s (files file))
           | None \<Rightarrow>
               (case rp_delete_key rp of
                  Some key \<Rightarrow> (let (s, ok) = rp_delete P V rp s key in ([], s, if ok then Inr () else Inl LoggedError))
                | None \<Rightarrow>
                    (case rp_args rp of
                       [] \<Rightarrow> (rp_print_all P V rp s, s, Inr ())
                     | [key] \<Rightarrow> (case rp_get P V rp s key of Some v \<Rightarrow> ([v], s, Inr ()) | None \<Rightarrow> ([], s, Inl LoggedError))
                     | [key, val] \<Rightarrow> ([], rp_set P V rp s key val, Inr ())
                     | _ \<Rightarrow> ([], s, Inl Panic)))))"

text \<open>\<open>Inl\<close> is the outcome of the argument parser when it does not give the arguments: whether help was asked for.\<close>

definition resetprop_main :: "'a sys_prop \<Rightarrow> persist_env \<Rightarrow> (string \<Rightarrow> bytes option) \<Rightarrow> 'a list \<Rightarrow> bool + reset_prop \<Rightarrow> 'a prop_state \<Rightarrow> (string list \<times> 'a prop_state \<times> int res) option" where
  "resetprop_main P V files seen args s =
     (case args of
        Inl is_help \<Rightarrow> Some ([], s, Inl (Exit (if is_help then 0 else 1)))
      | Inr cli \<Rightarrow>
          (case check_args cli of
             Inl e \<Rightarrow> Some ([], s, Inl (Exit 1))
           | Inr cli \<Rightarrow>
               map_option (\<lambda>(out, s, r). (out, s, case r of Inr _ \<Rightarrow> Inr 0 | Inl Panic \<Rightarrow> Inl Panic | Inl _ \<Rightarrow> Inr 1))
                 (rp_run P V cli files seen s)))"

section \<open>The property area as a map\<close>

text \<open>What the area holds, and the laws of its operations that the code relies on.\<close>

definition area_map :: "'a sys_prop \<Rightarrow> 'a \<Rightarrow> string \<Rightarrow> string option" where
  "area_map P a k = (if sp_find P a k then Some (sp_read P a k) else None)"

definition sys_prop_ok :: "'a sys_prop \<Rightarrow> bool" where
  "sys_prop_ok P \<longleftrightarrow>
     (\<forall>a k. sp_find_mut P a k = None \<longleftrightarrow> \<not> sp_find P a k) \<and>
     (\<forall>a k. sp_find_mut P a k = Some True \<longrightarrow> prefix ''ro.'' k) \<and>
     (\<forall>a k v. sp_find_mut P a k = None \<longrightarrow> length v < PROP_VALUE_MAX \<or> prefix ''ro.'' k \<longrightarrow>
        area_map P (sp_add P a k v) = (area_map P a)(k \<mapsto> v)) \<and>
     (\<forall>a k v. sp_find_mut P a k = Some False \<longrightarrow> length v < PROP_VALUE_MAX \<longrightarrow>
        area_map P (sp_update P a k v) = (area_map P a)(k \<mapsto> v)) \<and>
     (\<forall>a k prune. sp_find_mut P a k \<noteq> None \<longrightarrow>
        area_map P (fst (sp_delete P a k prune)) = (area_map P a)(k := None))"

lemma sys_prop_okD:
  assumes "sys_prop_ok P"
  shows "sp_find_mut P a k = None \<longleftrightarrow> area_map P a k = None"
    and "sp_find_mut P a k = Some True \<Longrightarrow> prefix ''ro.'' k"
    and "area_map P a k = None \<Longrightarrow> length v < PROP_VALUE_MAX \<or> prefix ''ro.'' k \<Longrightarrow>
           area_map P (sp_add P a k v) = (area_map P a)(k \<mapsto> v)"
    and "sp_find_mut P a k = Some False \<Longrightarrow> length v < PROP_VALUE_MAX \<Longrightarrow>
           area_map P (sp_update P a k v) = (area_map P a)(k \<mapsto> v)"
    and "sp_find_mut P a k = Some l \<Longrightarrow> area_map P (fst (sp_delete P a k prune)) = (area_map P a)(k := None)"
  using assms unfolding sys_prop_ok_def area_map_def [of P a k] by (auto split: if_splits)

lemma set_prop_map:
  assumes ok: "sys_prop_ok P" and fits: "prefix ''ro.'' key \<or> length val < PROP_VALUE_MAX"
  shows "area_map P (ps_area (set_prop P V s key val)) = (area_map P (ps_area s))(key \<mapsto> val)"
proof (cases "sp_find_mut P (ps_area s) key")
  case None
  then have "area_map P (ps_area s) key = None" using sys_prop_okD(1) [OF ok] by blast
  with None fits show ?thesis
    by (auto simp: set_prop_def rp_set_def reset_prop_default_def sys_prop_okD(3) [OF ok])
next
  case (Some is_long)
  let ?d = "fst (sp_delete P (ps_area s) key False)"
  have d: "area_map P ?d = (area_map P (ps_area s))(key := None)" by (rule sys_prop_okD(5) [OF ok Some])
  show ?thesis
  proof (cases "prefix ''ro.'' key \<and> (is_long \<or> PROP_VALUE_MAX \<le> length val)")
    case True
    then have "area_map P (sp_add P ?d key val) = (area_map P ?d)(key \<mapsto> val)"
      by (intro sys_prop_okD(3) [OF ok]) (auto simp: d)
    with True Some d show ?thesis by (simp add: set_prop_def rp_set_def reset_prop_default_def)
  next
    case False
    with Some fits have "sp_find_mut P (ps_area s) key = Some False" "length val < PROP_VALUE_MAX"
      using sys_prop_okD(2) [OF ok, of "ps_area s" key] by (cases is_long; auto)+
    from sys_prop_okD(4) [OF ok this] False Some show ?thesis
      by (auto simp: set_prop_def rp_set_def reset_prop_default_def Let_def)
  qed
qed

lemma set_prop_fs [simp]: "ps_fs (set_prop P V s key val) = ps_fs s"
  by (simp add: set_prop_def rp_set_def reset_prop_default_def Let_def)

lemma get_prop_map:
  "get_prop P V s key =
     (case area_map P (ps_area s) key of
        Some v \<Rightarrow> v
      | None \<Rightarrow>
          if prefix ''persist.'' key then (case persist_get_prop V (ps_fs s) key of Inr v \<Rightarrow> v | Inl _ \<Rightarrow> []) else [])"
  by (simp add: get_prop_def rp_get_def area_map_def reset_prop_default_def split: sum.split)

lemma get_set_prop:
  assumes "sys_prop_ok P" "prefix ''ro.'' key \<or> length val < PROP_VALUE_MAX"
  shows "get_prop P V (set_prop P V s key val) k = (if k = key then val else get_prop P V s k)"
  by (simp add: get_prop_map set_prop_map [OF assms] split: option.split)

section \<open>An area in memory\<close>

definition mem_fits :: "string \<Rightarrow> string \<Rightarrow> bool" where
  "mem_fits k v \<longleftrightarrow> prefix ''ro.'' k \<or> length v < PROP_VALUE_MAX"

definition mem_area :: "(string \<times> string) list sys_prop" where
  "mem_area =
     \<lparr>sp_find = (\<lambda>a k. map_of a k \<noteq> None),
      sp_find_mut = (\<lambda>a k. map_option (\<lambda>v. prefix ''ro.'' k \<and> PROP_VALUE_MAX \<le> length v) (map_of a k)),
      sp_read = (\<lambda>a k. case map_of a k of Some v \<Rightarrow> v | None \<Rightarrow> []),
      sp_set = (\<lambda>a k v. a),
      sp_add = (\<lambda>a k v. if mem_fits k v then (k, v) # a else a),
      sp_update = (\<lambda>a k v. if length v < PROP_VALUE_MAX then (k, v) # a else a),
      sp_delete = (\<lambda>a k prune. (filter (\<lambda>p. fst p \<noteq> k) a, map_of a k \<noteq> None)),
      sp_context = (\<lambda>a k. ''u:object_r:default_prop:s0''),
      sp_for_each = (\<lambda>a. a)\<rparr>"

lemma map_of_filter_neq: "map_of (filter (\<lambda>p. fst p \<noteq> k) a) = (map_of a)(k := None)"
  by (induction a) auto

lemma mem_area_map: "area_map mem_area a = map_of a"
  by (auto simp: area_map_def mem_area_def fun_eq_iff)

lemma mem_area_ok: "sys_prop_ok mem_area"
  unfolding sys_prop_ok_def mem_area_map
  by (auto simp: mem_area_def mem_fits_def map_of_filter_neq)

section \<open>The persistent store as a map\<close>

definition persist_map :: "persist_env \<Rightarrow> persist_fs \<Rightarrow> string \<Rightarrow> string option" where
  "persist_map V fs k = (case persist_get_prop V fs k of Inr v \<Rightarrow> Some v | Inl _ \<Rightarrow> None)"

text \<open>The protobuf file can be read and names no property twice.\<close>

definition persist_ok :: "persist_env \<Rightarrow> persist_fs \<Rightarrow> bool" where
  "persist_ok V fs \<longleftrightarrow>
     (case pf_proto fs of
        None \<Rightarrow> False
      | Some m \<Rightarrow> (case pv_read V m of None \<Rightarrow> False | Some ps \<Rightarrow> distinct (map pr_name ps)))"

definition codec_ok :: "persist_env \<Rightarrow> bool" where
  "codec_ok V \<longleftrightarrow> (\<forall>ps. pv_read V (pv_write V ps) = Some ps)"

definition ordered :: "prop_record list \<Rightarrow> bool" where
  "ordered ps \<longleftrightarrow> sorted_wrt (<) (map pr_name ps)"

definition rec_get :: "prop_record list \<Rightarrow> string \<Rightarrow> string option" where
  "rec_get ps k = (case find_record ps k of Some p \<Rightarrow> pr_value p | None \<Rightarrow> None)"

text \<open>A list in order is what is before a name, the record of the name if there is one, and what is after.\<close>

definition before :: "string \<Rightarrow> prop_record list \<Rightarrow> prop_record list" where
  "before k ps = filter (\<lambda>p. pr_name p < Some k) ps"

definition after :: "string \<Rightarrow> prop_record list \<Rightarrow> prop_record list" where
  "after k ps = filter (\<lambda>p. Some k < pr_name p) ps"

lemma ordered_takeWhile: "ordered ps \<Longrightarrow> takeWhile (\<lambda>p. pr_name p < Some k) ps = before k ps"
  unfolding before_def ordered_def
proof (induction ps)
  case (Cons p ps)
  show ?case
  proof (cases "pr_name p < Some k")
    case False
    with Cons.prems have "\<forall>q \<in> set ps. \<not> pr_name q < Some k" by force
    then have "filter (\<lambda>p. pr_name p < Some k) ps = []" by simp
    with False show ?thesis by simp
  qed (use Cons in simp)
qed simp

lemma ordered_split:
  assumes "ordered ps"
  shows "(\<exists>p. pr_name p = Some k \<and> ps = before k ps @ p # after k ps) \<or> ps = before k ps @ after k ps"
  using assms unfolding before_def after_def ordered_def
proof (induction ps)
  case (Cons p ps)
  consider "pr_name p < Some k" | "pr_name p = Some k" | "Some k < pr_name p" by fastforce
  then show ?case
  proof cases
    case 1
    with Cons show ?thesis by auto
  next
    case 2
    with Cons.prems have "\<forall>q \<in> set ps. Some k < pr_name q" by simp
    then have "filter (\<lambda>p. Some k < pr_name p) ps = ps" "filter (\<lambda>p. pr_name p < Some k) ps = []"
      by (auto simp: filter_id_conv filter_empty_conv)
    with 2 show ?thesis by simp
  next
    case 3
    with Cons.prems have "\<forall>q \<in> set ps. Some k < pr_name q" by force
    then have "filter (\<lambda>p. Some k < pr_name p) ps = ps" "filter (\<lambda>p. pr_name p < Some k) ps = []"
      by (auto simp: filter_id_conv filter_empty_conv)
    with 3 show ?thesis by (simp add: less_not_sym)
  qed
qed simp

lemma find_index_ordered:
  assumes "ordered ps"
  obtains (present) p where "pr_name p = Some k" "ps = before k ps @ p # after k ps"
      "find_index ps k = Inr (length (before k ps))"
  | (absent) "ps = before k ps @ after k ps" "find_index ps k = Inl (length (before k ps))"
proof -
  have idx: "find_index ps k =
      (if length (before k ps) < length ps \<and> pr_name (ps ! length (before k ps)) = Some k
       then Inr (length (before k ps)) else Inl (length (before k ps)))"
    by (simp add: find_index_def ordered_takeWhile [OF assms] Let_def)
  from ordered_split [OF assms, of k] show thesis
  proof
    assume "\<exists>p. pr_name p = Some k \<and> ps = before k ps @ p # after k ps"
    then obtain p where p: "pr_name p = Some k" "ps = before k ps @ p # after k ps" by blast
    have "length (before k ps) < length ps" "ps ! length (before k ps) = p"
      by (subst (2) p(2), simp, subst p(2), simp add: nth_append)
    with p idx present show thesis by simp
  next
    assume eq: "ps = before k ps @ after k ps"
    have "\<not> (length (before k ps) < length ps \<and> pr_name (ps ! length (before k ps)) = Some k)"
    proof
      assume a: "length (before k ps) < length ps \<and> pr_name (ps ! length (before k ps)) = Some k"
      then have "after k ps \<noteq> []" using eq by (metis append_Nil2 less_irrefl)
      then have "ps ! length (before k ps) \<in> set (after k ps)"
        by (subst eq) (simp add: nth_append hd_conv_nth [symmetric])
      with a show False by (simp add: after_def)
    qed
    with eq idx absent show thesis by simp
  qed
qed

text \<open>The records as entries of a sorted map, whose operations the store's are.\<close>

definition kv :: "prop_record list \<Rightarrow> (string option, string option) btree" where
  "kv ps = map (\<lambda>p. (pr_name p, pr_value p)) ps"

lemma ordered_kv: "ordered ps \<longleftrightarrow> bt_inv (kv ps)"
  by (simp add: ordered_def bt_inv_def kv_def comp_def)

lemma kv_before: "kv (before k ps) = filter (\<lambda>q. fst q < Some k) (kv ps)"
  by (simp add: kv_def before_def filter_map comp_def)

lemma kv_after: "kv (after k ps) = filter (\<lambda>q. Some k < fst q) (kv ps)"
  by (simp add: kv_def after_def filter_map comp_def)

lemma kv_insert:
  "pr_name p = Some k \<Longrightarrow> pr_value p = v \<Longrightarrow> kv (before k ps @ p # after k ps) = bt_insert (Some k) v (kv ps)"
  by (simp add: bt_insert_def kv_before [symmetric] kv_after [symmetric]) (simp add: kv_def)

lemma before_after_neq [simp]:
  "filter (\<lambda>p. pr_name p \<noteq> Some k) (before k ps) = before k ps"
  "filter (\<lambda>p. pr_name p \<noteq> Some k) (after k ps) = after k ps"
  by (auto simp: before_def after_def intro: filter_cong)

lemma kv_remove:
  assumes "ordered ps"
  shows "kv (before k ps @ after k ps) = bt_remove (Some k) (kv ps)"
proof -
  have "filter (\<lambda>p. pr_name p \<noteq> Some k) ps = before k ps @ after k ps"
    using assms
  proof (cases rule: find_index_ordered [where k = k])
    case (present p)
    have "filter (\<lambda>p. pr_name p \<noteq> Some k) (before k ps @ p # after k ps) = before k ps @ after k ps"
      using present(1) by simp
    with present(2) show ?thesis by metis
  next
    case absent
    have "filter (\<lambda>p. pr_name p \<noteq> Some k) (before k ps @ after k ps) = before k ps @ after k ps"
      by simp
    with absent(1) show ?thesis by metis
  qed
  moreover have "bt_remove (Some k) (kv ps) = kv (filter (\<lambda>p. pr_name p \<noteq> Some k) ps)"
    by (simp add: bt_remove_def kv_def filter_map comp_def)
  ultimately show ?thesis by simp
qed

definition flat :: "'a option option \<Rightarrow> 'a option" where
  "flat x = (case x of Some y \<Rightarrow> y | None \<Rightarrow> None)"

lemma rec_get_kv:
  assumes "ordered ps"
  shows "rec_get ps k = flat (bt_get (kv ps) (Some k))"
  using assms
proof (cases rule: find_index_ordered [where k = k])
  case (present p)
  have "bt_get (kv ps) (Some k) = bt_get (bt_insert (Some k) (pr_value p) (kv ps)) (Some k)"
    by (subst present(2)) (simp add: kv_insert present(1))
  also have "\<dots> = Some (pr_value p)" using assms by (simp add: ordered_kv bt.get_ins)
  finally have "bt_get (kv ps) (Some k) = Some (pr_value p)" .
  moreover have "ps ! length (before k ps) = p" by (subst present(2)) simp
  ultimately show ?thesis by (simp add: rec_get_def find_record_def present(3) flat_def)
next
  case absent
  have "bt_get (kv ps) (Some k) = bt_get (bt_remove (Some k) (kv ps)) (Some k)"
    by (subst absent(1)) (simp add: kv_remove assms)
  also have "\<dots> = None" using assms by (simp add: ordered_kv bt.get_del)
  finally show ?thesis by (simp add: rec_get_def find_record_def absent(2) flat_def)
qed

lemma persist_okE:
  assumes "persist_ok V fs"
  obtains ps where "proto_read_props V fs = Inr ps" "ordered ps" "check_proto fs"
proof -
  from assms obtain m ps where m: "pf_proto fs = Some m" "pv_read V m = Some ps" "distinct (map pr_name ps)"
    by (auto simp: persist_ok_def split: option.splits)
  have "distinct (map pr_name (sort_key pr_name ps))"
    using m(3) by (simp add: distinct_map)
  then have "ordered (sort_key pr_name ps)" by (simp add: ordered_def strict_sorted_iff)
  with m that show thesis by (simp add: proto_read_props_def check_proto_def)
qed

lemma persist_map_rec:
  assumes "proto_read_props V fs = Inr ps" "ordered ps" "check_proto fs"
  shows "persist_map V fs k = flat (bt_get (kv ps) (Some k))"
proof -
  have "persist_map V fs k = rec_get ps k"
    using assms(2)
  proof (cases rule: find_index_ordered [where k = k])
    case (present p)
    have "ps ! length (before k ps) = p" by (subst present(2)) simp
    with assms present show ?thesis
      by (simp add: persist_map_def persist_get_prop_def rec_get_def find_record_def split: option.split)
  next
    case absent
    with assms show ?thesis
      by (simp add: persist_map_def persist_get_prop_def rec_get_def find_record_def)
  qed
  then show ?thesis by (simp add: rec_get_kv assms(2))
qed

lemma proto_write_read:
  assumes "codec_ok V" "pv_write_ok V" "ordered ps"
  shows "snd (proto_write_props V fs ps) = Inr ()"
    and "proto_read_props V (fst (proto_write_props V fs ps)) = Inr ps"
    and "check_proto (fst (proto_write_props V fs ps))"
    and "persist_ok V (fst (proto_write_props V fs ps))"
proof -
  have "sorted (map pr_name ps)" "distinct (map pr_name ps)"
    using assms(3) by (simp_all add: ordered_def strict_sorted_iff)
  then show "snd (proto_write_props V fs ps) = Inr ()"
    "proto_read_props V (fst (proto_write_props V fs ps)) = Inr ps"
    "check_proto (fst (proto_write_props V fs ps))"
    "persist_ok V (fst (proto_write_props V fs ps))"
    using assms(1,2)
    by (simp_all add: proto_write_props_def proto_read_props_def check_proto_def persist_ok_def codec_ok_def
        sort_key_id_if_sorted)
qed

lemma persist_set_written:
  assumes "proto_read_props V fs = Inr ps" "ordered ps" "check_proto fs"
  obtains ps' where "persist_set_prop V fs key val = proto_write_props V fs ps'"
    "kv ps' = bt_insert (Some key) (Some val) (kv ps)"
  using assms(2)
proof (cases rule: find_index_ordered [where k = key])
  case (present p)
  have "ps[length (before key ps) := (ps ! length (before key ps))\<lparr>pr_value := Some val\<rparr>] =
        before key ps @ p\<lparr>pr_value := Some val\<rparr> # after key ps"
    by (subst (1 3) present(2)) simp
  with assms present that show thesis by (simp add: persist_set_prop_def kv_insert)
next
  case absent
  have "take (length (before key ps)) ps = before key ps" "drop (length (before key ps)) ps = after key ps"
    by (subst (2) absent(1), simp)+
  with assms absent that show thesis by (simp add: persist_set_prop_def kv_insert)
qed

lemma persist_delete_written:
  assumes "proto_read_props V fs = Inr ps" "ordered ps" "check_proto fs" "find_index ps key = Inr i"
  obtains ps' where "persist_delete_prop V fs key = proto_write_props V fs ps'"
    "kv ps' = bt_remove (Some key) (kv ps)"
  using assms(2)
proof (cases rule: find_index_ordered [where k = key])
  case (present p)
  have "take (length (before key ps)) ps @ drop (Suc (length (before key ps))) ps = before key ps @ after key ps"
    by (subst (2 4) present(2)) simp
  with assms present that show thesis by (simp add: persist_delete_prop_def kv_remove)
next
  case absent
  with assms(4) show thesis by simp
qed

lemma persist_set_result:
  assumes "persist_ok V fs" "codec_ok V" "pv_write_ok V"
  shows "snd (persist_set_prop V fs key val) = Inr ()"
    and "persist_ok V (fst (persist_set_prop V fs key val))"
    and "persist_map V (fst (persist_set_prop V fs key val)) = (persist_map V fs)(key \<mapsto> val)"
proof -
  obtain ps where ps: "proto_read_props V fs = Inr ps" "ordered ps" "check_proto fs"
    by (rule persist_okE [OF assms(1)])
  obtain ps' where w: "persist_set_prop V fs key val = proto_write_props V fs ps'"
    and kv: "kv ps' = bt_insert (Some key) (Some val) (kv ps)"
    by (rule persist_set_written [OF ps])
  have ord: "ordered ps'" using ps(2) by (simp add: ordered_kv kv bt.inv_ins)
  note r = proto_write_read [OF assms(2,3) ord, of fs]
  show "snd (persist_set_prop V fs key val) = Inr ()"
    "persist_ok V (fst (persist_set_prop V fs key val))" using r(1,4) by (simp_all add: w)
  show "persist_map V (fst (persist_set_prop V fs key val)) = (persist_map V fs)(key \<mapsto> val)"
    using ps(2) by (auto simp: w fun_eq_iff persist_map_rec [OF r(2) ord r(3)] persist_map_rec [OF ps] kv
        ordered_kv bt.get_ins flat_def)
qed

lemma persist_delete_result:
  assumes "persist_ok V fs" "codec_ok V" "pv_write_ok V"
  shows "persist_ok V (fst (persist_delete_prop V fs key))"
    and "persist_map V (fst (persist_delete_prop V fs key)) = (persist_map V fs)(key := None)"
proof -
  obtain ps where ps: "proto_read_props V fs = Inr ps" "ordered ps" "check_proto fs"
    by (rule persist_okE [OF assms(1)])
  have "persist_ok V (fst (persist_delete_prop V fs key)) \<and>
        persist_map V (fst (persist_delete_prop V fs key)) = (persist_map V fs)(key := None)"
  proof (cases "find_index ps key")
    case (Inl i)
    then have "persist_map V fs key = None"
      using ps by (simp add: persist_map_def persist_get_prop_def find_record_def)
    with Inl ps assms(1) show ?thesis by (simp add: persist_delete_prop_def fun_upd_idem)
  next
    case (Inr i)
    obtain ps' where w: "persist_delete_prop V fs key = proto_write_props V fs ps'"
      and kv: "kv ps' = bt_remove (Some key) (kv ps)"
      by (rule persist_delete_written [OF ps Inr])
    have ord: "ordered ps'" using ps(2) by (simp add: ordered_kv kv bt.inv_del)
    note r = proto_write_read [OF assms(2,3) ord, of fs]
    show ?thesis
      using ps(2) r(4) by (auto simp: w fun_eq_iff persist_map_rec [OF r(2) ord r(3)] persist_map_rec [OF ps] kv
          ordered_kv bt.get_del flat_def)
  qed
  then show "persist_ok V (fst (persist_delete_prop V fs key))"
    "persist_map V (fst (persist_delete_prop V fs key)) = (persist_map V fs)(key := None)" by simp_all
qed

section \<open>Properties\<close>


text \<open>A codec for the witnesses: a field is a presence mark and then each character after a plus, up to a full stop.\<close>

definition field_bytes :: "string option \<Rightarrow> bytes" where
  "field_bytes x = (case x of None \<Rightarrow> ''N'' | Some s \<Rightarrow> ''S'' @ concat (map (\<lambda>c. [CHR ''+'', c]) s) @ ''.'')"

fun text_field :: "bytes \<Rightarrow> (string \<times> bytes) option" where
  "text_field (x # y # r) =
     (if x = CHR ''+'' then map_option (\<lambda>(s, r). (y # s, r)) (text_field r)
      else if x = CHR ''.'' then Some ([], y # r) else None)"
| "text_field [x] = (if x = CHR ''.'' then Some ([], []) else None)"
| "text_field [] = None"

fun field_of :: "bytes \<Rightarrow> (string option \<times> bytes) option" where
  "field_of [] = None"
| "field_of (x # r) =
     (if x = CHR ''N'' then Some (None, r)
      else if x = CHR ''S'' then map_option (\<lambda>(s, r). (Some s, r)) (text_field r) else None)"

lemma text_field_bytes: "text_field (concat (map (\<lambda>c. [CHR ''+'', c]) s) @ ''.'' @ r) = Some (s, r)"
  by (induction s) (auto simp: neq_Nil_conv split: list.split, cases r, auto)

lemma field_of_bytes: "field_of (field_bytes x @ r) = Some (x, r)"
  using text_field_bytes [of _ r] by (simp add: field_bytes_def split: option.split)

fun records_of :: "nat \<Rightarrow> bytes \<Rightarrow> prop_record list option" where
  "records_of 0 bs = None"
| "records_of (Suc n) bs =
     (if bs = [] then Some []
      else Option.bind (field_of bs) (\<lambda>(k, r). Option.bind (field_of r) (\<lambda>(v, r).
           map_option ((#) \<lparr>pr_name = k, pr_value = v\<rparr>) (records_of n r))))"

definition record_bytes :: "prop_record \<Rightarrow> bytes" where
  "record_bytes p = field_bytes (pr_name p) @ field_bytes (pr_value p)"

definition text_codec :: persist_env where
  "text_codec =
     \<lparr>pv_read = (\<lambda>bs. records_of (Suc (length bs)) bs), pv_write = (\<lambda>ps. concat (map record_bytes ps)),
      pv_entries = (\<lambda>_. None), pv_write_ok = True, pv_file_ok = True\<rparr>"

lemma field_bytes_nonempty [simp]: "field_bytes x \<noteq> []"
  by (simp add: field_bytes_def split: option.split)

lemma record_bytes_nonempty: "record_bytes p \<noteq> []"
  by (simp add: record_bytes_def)

lemma records_of_bytes: "length ps < n \<Longrightarrow> records_of n (concat (map record_bytes ps)) = Some ps"
proof (induction ps arbitrary: n)
  case (Cons p ps)
  then obtain m where "n = Suc m" "length ps < m" by (cases n) auto
  with Cons.IH [of m] show ?case
    by (simp add: record_bytes_def field_of_bytes)
qed (auto simp: gr0_conv_Suc)

lemma length_records: "length ps \<le> length (concat (map record_bytes ps))"
proof (induction ps)
  case (Cons p ps)
  with record_bytes_nonempty [of p] show ?case by (cases "record_bytes p") auto
qed simp

lemma text_codec_ok: "codec_ok text_codec"
  by (simp add: codec_ok_def text_codec_def records_of_bytes length_records less_Suc_eq_le del: records_of.simps)

definition demo_fs :: persist_fs where
  "demo_fs =
     \<lparr>pf_proto = Some (pv_write text_codec [\<lparr>pr_name = Some ''persist.b'', pr_value = Some ''1''\<rparr>,
        \<lparr>pr_name = Some ''persist.a'', pr_value = Some ''2''\<rparr>]), pf_files = (\<lambda>_. None)\<rparr>"

lemma demo_fs_ok: "persist_ok text_codec demo_fs"
  using text_codec_ok by (simp add: persist_ok_def demo_fs_def codec_ok_def)


text \<open>
  \<open>set_prop\<close>, through which the daemon writes properties, makes \<open>get_prop\<close> return the value it
  wrote and leaves every other property as it was.  The value may be of any length for a read-only
  property, which is removed and added again when it is or becomes long, and shorter than
  \<open>PROP_VALUE_MAX\<close> for the others.
\<close>

theorem set_prop_get_prop:
  assumes "sys_prop_ok P" "prefix ''ro.'' key \<or> length val < PROP_VALUE_MAX"
  shows "get_prop P V (set_prop P V s key val) key = val \<and>
    (\<forall>k. k \<noteq> key \<longrightarrow> get_prop P V (set_prop P V s key val) k = get_prop P V s k) \<and>
    ps_fs (set_prop P V s key val) = ps_fs s"
  using get_set_prop [OF assms] by simp

definition demo_props :: "(string \<times> string) list prop_state" where
  "demo_props = \<lparr>ps_area = [(''ro.a'', ''1''), (''b'', ''2'')], ps_fs = demo_fs\<rparr>"

theorem set_prop_get_prop_witness:
  "get_prop mem_area text_codec (set_prop mem_area text_codec demo_props ''ro.a'' (replicate 100 CHR ''x'')) ''ro.a'' =
     replicate 100 CHR ''x''"
  using set_prop_get_prop [OF mem_area_ok, of "''ro.a''" "replicate 100 CHR ''x''"] by simp

text \<open>
  The wait mode with a name only ends at the first observation in which the property exists.  When
  it exists already nothing is waited for, whatever its value does later.
\<close>

theorem wait_name_only:
  assumes "rp_args rp = [key]" "sp_find P a key"
  shows "rp_wait P rp (a # later) = Inr (Some (a # later))"
  using assms by (simp add: rp_wait_def)

theorem wait_name_only_witness:
  "rp_wait mem_area (reset_prop_default\<lparr>rp_wait_mode := True, rp_args := [''b'']\<rparr>) [[(''b'', ''2'')]] =
     Inr (Some [[(''b'', ''2'')]])"
  by (rule wait_name_only) (simp_all add: mem_area_def)

end
