(* ===== verification/Zygisk.thy ===== *)
theory Zygisk
  imports Su ResetProp "HOL-Library.Word"
begin

unbundle bit_operations_syntax

text \<open>
  Zygisk in the daemon (core/zygisk/daemon.rs): the native bridge property through which the loader
  enters zygote, its roll-back when zygote keeps crashing, and the requests of the injected code.
  The deny list is C++ and a parameter; so are the system calls on sockets.
\<close>

section \<open>Constants\<close>

definition NBPROP :: string where "NBPROP = ''ro.dalvik.vm.native.bridge''"
definition ZYGISKLDR :: string where "ZYGISKLDR = ''libzygisk.so''"
definition MAPLE :: string where "MAPLE = ''ro.maple.enable''"
definition MODULEROOT :: string where "MODULEROOT = ''/data/adb/modules''"

definition ProcessGrantedRoot :: "32 word" where "ProcessGrantedRoot = 0x00000001"
definition ProcessOnDenyList :: "32 word" where "ProcessOnDenyList = 0x00000002"
definition DenyListEnforced :: "32 word" where "DenyListEnforced = 0x40000000"
definition ProcessIsMagiskApp :: "32 word" where "ProcessIsMagiskApp = 0x80000000"

definition UNMOUNT_MASK :: "32 word" where
  "UNMOUNT_MASK = ProcessOnDenyList OR DenyListEnforced"

lemmas flag_defs = ProcessGrantedRoot_def ProcessOnDenyList_def DenyListEnforced_def ProcessIsMagiskApp_def UNMOUNT_MASK_def

definition zygisk_should_load_module :: "32 word \<Rightarrow> bool" where
  "zygisk_should_load_module flags \<longleftrightarrow> flags AND UNMOUNT_MASK \<noteq> UNMOUNT_MASK \<and> flags AND ProcessIsMagiskApp = 0"

section \<open>The native bridge\<close>

record zygisk_state =
  zy_lib_name :: string
  zy_sockets :: "int option \<times> int option"
  zy_start_count :: "32 word"

definition zygisk_default :: zygisk_state where
  "zygisk_default = \<lparr>zy_lib_name = [], zy_sockets = (None, None), zy_start_count = 1\<rparr>"

type_synonym 'a zygisk_props = "zygisk_state \<times> 'a prop_state"

definition zygisk_set_prop :: "'a sys_prop \<Rightarrow> persist_env \<Rightarrow> 'a zygisk_props \<Rightarrow> 'a zygisk_props" where
  "zygisk_set_prop P V = (\<lambda>(z, s).
     if zy_lib_name z \<noteq> [] then (z, s)
     else
       let orig = get_prop P V s NBPROP;
           lib_name = (if orig = [] \<or> orig = ''0'' then ZYGISKLDR else ZYGISKLDR @ orig);
           s = set_prop P V s NBPROP lib_name;
           s = (if get_prop P V s MAPLE = ''1'' then set_prop P V s MAPLE ''0'' else s)
       in (z\<lparr>zy_lib_name := lib_name\<rparr>, s))"

definition restore_prop :: "'a sys_prop \<Rightarrow> persist_env \<Rightarrow> 'a zygisk_props \<Rightarrow> 'a zygisk_props" where
  "restore_prop P V = (\<lambda>(z, s).
     let orig = (if length ZYGISKLDR < length (zy_lib_name z) then drop (length ZYGISKLDR) (zy_lib_name z) else ''0'')
     in (z\<lparr>zy_lib_name := []\<rparr>, set_prop P V s NBPROP orig))"

definition zygisk_reset :: "'a sys_prop \<Rightarrow> persist_env \<Rightarrow> bool \<Rightarrow> 'a zygisk_props \<Rightarrow> 'a zygisk_props" where
  "zygisk_reset P V restore = (\<lambda>(z, s).
     let z = (if restore then z\<lparr>zy_start_count := 1\<rparr>
              else z\<lparr>zy_sockets := (None, None), zy_start_count := zy_start_count z + 1\<rparr>);
         restore = (restore \<or> 3 < zy_start_count z)
     in if restore then restore_prop P V (z, s) else zygisk_set_prop P V (z, s))"

section \<open>Modules\<close>

record module_info =
  mo_name :: string
  mo_z32 :: int
  mo_z64 :: int

definition STDOUT_FILENO :: int where "STDOUT_FILENO = 1"

definition get_module_fds :: "module_info list option \<Rightarrow> bool \<Rightarrow> int list option" where
  "get_module_fds module_list is_64_bit =
     map_option (map (\<lambda>m. let fd = (if is_64_bit then mo_z64 m else mo_z32 m) in if fd < 0 then STDOUT_FILENO else fd))
       module_list"

text \<open>\<open>list.get(id as usize)\<close>: the cast makes a negative number larger than any list.\<close>

definition module_at :: "module_info list option \<Rightarrow> int \<Rightarrow> module_info option" where
  "module_at module_list i =
     Option.bind module_list (\<lambda>ms. if 0 \<le> i \<and> nat i < length ms then Some (ms ! nat i) else None)"

definition module_path :: "module_info \<Rightarrow> string list \<Rightarrow> string" where
  "module_path m rest =
     fixed_as_str (fold (\<lambda>c b. append_path_impl fixed_ops b c) ([MODULEROOT, mo_name m] @ rest) (arr_new 4096))"

section \<open>The companion\<close>

text \<open>
  The system's answers: whether the peer of a socket is alive, whether descriptors can be sent over a
  socket, the socket pair, and what the new companion process writes.
\<close>

record companion_env =
  ce_alive :: "int \<Rightarrow> bool"
  ce_send :: "int \<Rightarrow> int list \<Rightarrow> bool"
  ce_pair :: "int option"
  ce_answer :: bytes

definition get_socket :: "bool \<Rightarrow> zygisk_state \<Rightarrow> int option" where
  "get_socket is_64_bit z = (if is_64_bit then snd (zy_sockets z) else fst (zy_sockets z))"

definition put_socket :: "bool \<Rightarrow> int option \<Rightarrow> zygisk_state \<Rightarrow> zygisk_state" where
  "put_socket is_64_bit fd z =
     z\<lparr>zy_sockets := (if is_64_bit then (fst (zy_sockets z), fd) else (fd, snd (zy_sockets z)))\<rparr>"

definition start_companion :: "companion_env \<Rightarrow> module_info list option \<Rightarrow> int \<Rightarrow> bool \<Rightarrow> zygisk_state \<Rightarrow> zygisk_state \<times> unit res" where
  "start_companion C module_list client is_64_bit z =
     (case ce_pair C of
        None \<Rightarrow> (z, Inl LoggedError)
      | Some local \<Rightarrow>
          if (case get_module_fds module_list is_64_bit of Some fds \<Rightarrow> \<not> ce_send C local fds | None \<Rightarrow> False)
          then (z, Inl LoggedError)
          else
            (case decode_i32 (ce_answer C) of
               Inl e \<Rightarrow> (z, Inl e)
             | Inr (answer, _) \<Rightarrow>
                 if answer \<noteq> 0 \<or> \<not> ce_send C local [client] then (z, Inl LoggedError)
                 else (put_socket is_64_bit (Some local) z, Inr ())))"

definition connect_zygiskd :: "companion_env \<Rightarrow> module_info list option \<Rightarrow> int \<Rightarrow> bytes \<Rightarrow> zygisk_state \<Rightarrow> zygisk_state \<times> unit res" where
  "connect_zygiskd C module_list client received z =
     (case decode_bool received of
        Inl e \<Rightarrow> (z, Inl e)
      | Inr (is_64_bit, _) \<Rightarrow>
          let z = (case get_socket is_64_bit z of
                     Some fd \<Rightarrow> if ce_alive C fd then z else put_socket is_64_bit None z
                   | None \<Rightarrow> z)
          in case get_socket is_64_bit z of
               Some fd \<Rightarrow> (z, if ce_send C fd [client] then Inr () else Inl LoggedError)
             | None \<Rightarrow> start_companion C module_list client is_64_bit z)"

section \<open>Requests of the injected code\<close>

text \<open>
  What a request gets: the bytes and the descriptors sent, the directory whose descriptor is sent, and
  the marker files created.
\<close>

record zygisk_out =
  zo_bytes :: bytes
  zo_fds :: "int list option"
  zo_dir :: "string option"
  zo_markers :: "string list"

definition no_out :: zygisk_out where
  "no_out = \<lparr>zo_bytes = [], zo_fds = None, zo_dir = None, zo_markers = []\<rparr>"

record zygisk_env =
  ze_deny_flags :: "int \<Rightarrow> string \<Rightarrow> 32 word \<Rightarrow> 32 word"
  ze_sent :: bool
  ze_fds_sent :: bool
  ze_opens :: "string \<Rightarrow> bool"
  ze_creates :: "string \<Rightarrow> bool"

text \<open>A panic ends the daemon; any other error ends the request with what was sent before it.\<close>

definition attempt :: "'o \<Rightarrow> 'a res \<Rightarrow> ('a \<Rightarrow> ('s, 'o \<times> unit res) run) \<Rightarrow> ('s, 'o \<times> unit res) run" where
  "attempt out r f s =
     (case r of Inl Panic \<Rightarrow> Some (Inl Panic) | Inl e \<Rightarrow> ret (out, Inl e) s | Inr x \<Rightarrow> f x s)"

definition process_flags :: "'db sqlite \<Rightarrow> pkg_env \<Rightarrow> zygisk_env \<Rightarrow> int \<Rightarrow> string \<Rightarrow> ('db pkg_state, 32 word) run" where
  "process_flags S E Z uid process =
     bindR (get_manager_uid S E (to_user_id uid)) (\<lambda>mgr s.
       let flags = ze_deny_flags Z uid process 0;
           flags = (if mgr = uid then flags OR ProcessIsMagiskApp else flags);
           (conn, granted) = uid_granted_root S (pe_emulator E) uid (pk_conn s)
       in ret (if granted then flags OR ProcessGrantedRoot else flags) (s\<lparr>pk_conn := conn\<rparr>))"

definition failed_markers :: "zygisk_env \<Rightarrow> module_info list option \<Rightarrow> int list \<Rightarrow> string list" where
  "failed_markers Z module_list ids =
     concat (map (\<lambda>i. case module_at module_list i of
                        None \<Rightarrow> []
                      | Some m \<Rightarrow>
                          let path = module_path m [''zygisk'']
                          in if ze_opens Z path \<and> ze_creates Z path then [path @ ''/unloaded''] else []) ids)"

definition get_process_info :: "'db sqlite \<Rightarrow> pkg_env \<Rightarrow> zygisk_env \<Rightarrow> module_info list option \<Rightarrow> bytes \<Rightarrow> ('db pkg_state, zygisk_out \<times> unit res) run" where
  "get_process_info S E Z module_list received =
     attempt no_out (decode_i32 received) (\<lambda>(uid, received).
     attempt no_out (decode_string received) (\<lambda>(process, received).
     attempt no_out (decode_bool received) (\<lambda>(is_64_bit, received).
     bindR (process_flags S E Z uid process) (\<lambda>flags.
       if \<not> ze_sent Z then ret (no_out, Inl LoggedError)
       else
         let out = no_out\<lparr>zo_bytes := encode_u32 (unat flags)\<rparr>;
             fds = (if zygisk_should_load_module flags then get_module_fds module_list is_64_bit else None)
         in if fds \<noteq> None \<and> \<not> ze_fds_sent Z then ret (out, Inl LoggedError)
            else
              let out = out\<lparr>zo_fds := fds\<rparr>
              in if uid \<noteq> 1000 \<or> process \<noteq> ''system_server'' then ret (out, Inr ())
                 else attempt out (decode_vec decode_i32 received) (\<lambda>(failed_ids, _).
                        ret (out\<lparr>zo_markers := failed_markers Z module_list failed_ids\<rparr>, Inr ()))))))"

definition get_mod_dir :: "zygisk_env \<Rightarrow> module_info list option \<Rightarrow> bytes \<Rightarrow> zygisk_out \<times> unit res" where
  "get_mod_dir Z module_list received =
     (case decode_i32 received of
        Inl e \<Rightarrow> (no_out, Inl e)
      | Inr (i, _) \<Rightarrow>
          (case module_at module_list i of
             None \<Rightarrow> (no_out, Inr ())
           | Some m \<Rightarrow>
               let dir = module_path m []
               in if \<not> ze_opens Z dir \<or> \<not> ze_fds_sent Z then (no_out, Inl LoggedError)
                  else (no_out\<lparr>zo_dir := Some dir\<rparr>, Inr ())))"

definition ZygiskRequest_GetInfo :: int where "ZygiskRequest_GetInfo = 0"
definition ZygiskRequest_ConnectCompanion :: int where "ZygiskRequest_ConnectCompanion = 1"
definition ZygiskRequest_GetModDir :: int where "ZygiskRequest_GetModDir = 2"

definition zygisk_handler :: "'db sqlite \<Rightarrow> pkg_env \<Rightarrow> zygisk_env \<Rightarrow> companion_env \<Rightarrow> module_info list option \<Rightarrow> int \<Rightarrow> bytes \<Rightarrow> zygisk_state \<Rightarrow> ('db pkg_state, zygisk_state \<times> zygisk_out) run" where
  "zygisk_handler S E Z C module_list client received z s =
     (case decode_i32 received of
        Inl _ \<Rightarrow> ret (z, no_out) s
      | Inr (code, received) \<Rightarrow>
          if code = ZygiskRequest_GetInfo then
            bindR (get_process_info S E Z module_list received) (\<lambda>(out, _). ret (z, out)) s
          else if code = ZygiskRequest_ConnectCompanion then
            ret (fst (connect_zygiskd C module_list client received z), no_out) s
          else if code = ZygiskRequest_GetModDir then ret (z, fst (get_mod_dir Z module_list received)) s
          else ret (z, no_out) s)"

section \<open>The property through a boot\<close>

text \<open>What the native bridge property stands for: no bridge is the value \<open>0\<close>, or none.\<close>

definition bridge :: "string \<Rightarrow> string" where
  "bridge v = (if v = [] then ''0'' else v)"

lemma nb_props [simp]: "prefix ''ro.'' NBPROP" "prefix ''ro.'' MAPLE" "NBPROP \<noteq> MAPLE" "MAPLE \<noteq> NBPROP"
  by (simp_all add: NBPROP_def MAPLE_def)

lemma get_set_ro:
  "sys_prop_ok P \<Longrightarrow> prefix ''ro.'' key \<Longrightarrow>
     get_prop P V (set_prop P V s key val) k = (if k = key then val else get_prop P V s k)"
  by (simp add: get_set_prop)

lemma restore_prop_value:
  assumes "sys_prop_ok P" "restore_prop P V (z, s) = (z', s')"
  shows "zy_lib_name z' = []" "zy_start_count z' = zy_start_count z"
    and "get_prop P V s' NBPROP =
      (if length ZYGISKLDR < length (zy_lib_name z) then drop (length ZYGISKLDR) (zy_lib_name z) else ''0'')"
    and "k \<noteq> NBPROP \<Longrightarrow> get_prop P V s' k = get_prop P V s k"
  using assms by (auto simp: restore_prop_def Let_def get_set_ro)

lemma zygisk_set_value:
  assumes "sys_prop_ok P" "zygisk_set_prop P V (z, s) = (z', s')" "zy_lib_name z = []"
  shows "zy_lib_name z' = ZYGISKLDR @ (if get_prop P V s NBPROP = ''0'' then [] else get_prop P V s NBPROP)"
    and "get_prop P V s' NBPROP = zy_lib_name z'" "zy_start_count z' = zy_start_count z"
    and "k \<noteq> NBPROP \<Longrightarrow> k \<noteq> MAPLE \<Longrightarrow> get_prop P V s' k = get_prop P V s k"
  using assms by (auto simp: zygisk_set_prop_def Let_def get_set_ro split: if_splits)

lemma zygisk_set_again: "zy_lib_name z \<noteq> [] \<Longrightarrow> zygisk_set_prop P V (z, s) = (z, s)"
  by (simp add: zygisk_set_prop_def)

lemma ldr_nonempty [simp]: "ZYGISKLDR \<noteq> []"
  by (simp add: ZYGISKLDR_def)

lemma set_then_restore:
  assumes "sys_prop_ok P" "zy_lib_name z = []"
    "zygisk_set_prop P V (z, s) = (z1, s1)" "restore_prop P V (z1, s1) = (z2, s2)"
  shows "get_prop P V s2 NBPROP = bridge (get_prop P V s NBPROP)" "zy_lib_name z2 = []"
    and "k \<noteq> NBPROP \<Longrightarrow> k \<noteq> MAPLE \<Longrightarrow> get_prop P V s2 k = get_prop P V s k"
  using zygisk_set_value [OF assms(1,3,2)] restore_prop_value [OF assms(1,4)] by (simp_all add: bridge_def)

section \<open>Properties\<close>

text \<open>
  C20. Entering zygote through the native bridge and leaving it again restores the property: setting it
  and then restoring it brings the original bridge back, of any length, with no bridge written as
  \<open>0\<close>, and touches no other property than the switch of the Maple compiler.
\<close>

theorem native_bridge_restored:
  assumes "sys_prop_ok P" "zy_lib_name z = []"
  shows "get_prop P V (snd (restore_prop P V (zygisk_set_prop P V (z, s)))) NBPROP = bridge (get_prop P V s NBPROP) \<and>
    get_prop P V (snd (zygisk_set_prop P V (z, s))) NBPROP =
      ZYGISKLDR @ (if get_prop P V s NBPROP = ''0'' then [] else get_prop P V s NBPROP) \<and>
    (\<forall>k. k \<noteq> NBPROP \<longrightarrow> k \<noteq> MAPLE \<longrightarrow>
       get_prop P V (snd (restore_prop P V (zygisk_set_prop P V (z, s)))) k = get_prop P V s k)"
proof -
  obtain z1 s1 where 1: "zygisk_set_prop P V (z, s) = (z1, s1)" by fastforce
  obtain z2 s2 where 2: "restore_prop P V (z1, s1) = (z2, s2)" by fastforce
  show ?thesis
    using set_then_restore [OF assms 1 2] zygisk_set_value(1,2) [OF assms(1) 1 assms(2)] by (simp add: 1 2)
qed

definition bridge_props :: "(string \<times> string) list prop_state" where
  "bridge_props = \<lparr>ps_area = [(NBPROP, ''libnb.so'')], ps_fs = demo_fs\<rparr>"

lemma bridge_props_get: "get_prop mem_area V bridge_props NBPROP = ''libnb.so''"
  by (simp add: get_prop_map mem_area_map bridge_props_def)

theorem native_bridge_restored_witness:
  "get_prop mem_area text_codec
     (snd (restore_prop mem_area text_codec (zygisk_set_prop mem_area text_codec (zygisk_default, bridge_props)))) NBPROP = ''libnb.so''"
  using native_bridge_restored [OF mem_area_ok, of zygisk_default text_codec bridge_props]
  by (simp add: zygisk_default_def bridge_props_get bridge_def)

text \<open>
  When zygote restarts after the loader was installed and boot does not complete, the loader stays
  for two restarts and is rolled back at the third.  A fourth restart overwrites the bridge that was
  brought back: the name it was kept in is gone, and the property becomes \<open>0\<close>.
\<close>

theorem zygote_crash_rollback:
  assumes "sys_prop_ok P" "zy_lib_name z = []" "zy_start_count z = 1"
  shows "let start = zygisk_set_prop P V (z, s);
             nb = (\<lambda>n. get_prop P V (snd ((zygisk_reset P V False ^^ n) start)) NBPROP)
         in nb 1 = nb 0 \<and> nb 2 = nb 0 \<and> prefix ZYGISKLDR (nb 0) \<and>
            nb 3 = bridge (get_prop P V s NBPROP) \<and> nb 4 = ''0''"
proof -
  obtain z0 s0 where 0: "zygisk_set_prop P V (z, s) = (z0, s0)" by fastforce
  note v = zygisk_set_value [OF assms(1) 0 assms(2)]
  have l0: "zy_lib_name z0 \<noteq> []" using v(1) by simp
  define up where "up n = z0\<lparr>zy_sockets := (None, None), zy_start_count := n\<rparr>" for n
  have r1: "zygisk_reset P V False (z0, s0) = (up 2, s0)"
    using l0 v(3) assms(3) by (simp add: zygisk_reset_def Let_def zygisk_set_again up_def)
  have r2: "zygisk_reset P V False (up 2, s0) = (up 3, s0)"
    using l0 by (simp add: zygisk_reset_def Let_def zygisk_set_again up_def)
  obtain z3 s3 where 3: "restore_prop P V (up 4, s0) = (z3, s3)" by fastforce
  have r3: "zygisk_reset P V False (up 3, s0) = (z3, s3)"
    using 3 by (simp add: zygisk_reset_def Let_def up_def)
  note w = restore_prop_value [OF assms(1) 3]
  let ?z4 = "z3\<lparr>zy_sockets := (None, None), zy_start_count := 5\<rparr>"
  obtain z4 s4 where 4: "restore_prop P V (?z4, s3) = (z4, s4)" by fastforce
  have r4: "zygisk_reset P V False (z3, s3) = (z4, s4)"
    using 4 w(2) by (simp add: zygisk_reset_def Let_def up_def)
  have "get_prop P V s3 NBPROP = bridge (get_prop P V s NBPROP)" using w(3) v(1) by (simp add: up_def bridge_def)
  moreover have "get_prop P V s4 NBPROP = ''0''" using restore_prop_value(3) [OF assms(1) 4] w(1) by simp
  ultimately show ?thesis
    using v(1,2) by (simp add: Let_def 0 r1 r2 r3 r4 eval_nat_numeral)
qed

theorem zygote_crash_rollback_witness:
  "get_prop mem_area text_codec
     (snd ((zygisk_reset mem_area text_codec False ^^ 4) (zygisk_set_prop mem_area text_codec (zygisk_default, bridge_props)))) NBPROP = ''0''"
  using zygote_crash_rollback [OF mem_area_ok, of zygisk_default text_codec bridge_props]
  by (simp add: zygisk_default_def Let_def)

lemma or_keeps_mask: "f AND m = m \<Longrightarrow> (f OR g) AND m = m" for f g m :: "32 word"
  by (simp add: bit_eq_iff bit_simps) blast

lemma or_meets: "g \<noteq> 0 \<Longrightarrow> (f OR g) AND g \<noteq> 0" for f g :: "32 word"
proof -
  have "(f OR g) AND g = g" by (simp add: bit_eq_iff bit_simps)
  then show "g \<noteq> 0 \<Longrightarrow> (f OR g) AND g \<noteq> 0" by simp
qed

lemma process_flags_result:
  assumes "process_flags S E Z uid process s = Some (Inr (flags, t))"
  obtains mgr t' where "get_manager_uid S E (to_user_id uid) s = Some (Inr (mgr, t'))"
    "\<exists>g. flags = ze_deny_flags Z uid process 0 OR g"
    "mgr = uid \<longrightarrow> (\<exists>g. flags = g OR ProcessIsMagiskApp)"
proof -
  obtain mgr t' where m: "get_manager_uid S E (to_user_id uid) s = Some (Inr (mgr, t'))"
    using assms by (auto simp: process_flags_def bindR_def split: option.splits sum.splits)
  define base where "base = ze_deny_flags Z uid process 0"
  consider "flags = base \<and> mgr \<noteq> uid" | "flags = base OR ProcessGrantedRoot \<and> mgr \<noteq> uid"
    | "flags = base OR ProcessIsMagiskApp" | "flags = (base OR ProcessIsMagiskApp) OR ProcessGrantedRoot"
    using assms m by (auto simp: process_flags_def bindR_def ret_def Let_def base_def split: prod.splits if_splits)
  then have "(\<exists>g. flags = base OR g) \<and> (mgr = uid \<longrightarrow> (\<exists>g. flags = g OR ProcessIsMagiskApp))"
  proof cases
    case 1
    then have "flags = base OR 0" by simp
    with 1 show ?thesis by blast
  next
    case 4
    then have "flags = base OR (ProcessIsMagiskApp OR ProcessGrantedRoot)"
      "flags = (base OR ProcessGrantedRoot) OR ProcessIsMagiskApp" by (simp_all add: ac_simps)
    then show ?thesis by blast
  qed blast+
  with m that show thesis unfolding base_def by blast
qed

text \<open>
  C23. Modules are kept away from the processes they must not enter.  A process on an enforced deny
  list, and a process with the user id of the manager, is never sent the descriptors of the modules.
\<close>

theorem modules_withheld:
  assumes "decode_i32 received = Inr (uid, r1)" "decode_string r1 = Inr (process, r2)"
    and "get_process_info S E Z module_list received s = Some (Inr ((out, res), t))"
    and "ze_deny_flags Z uid process 0 AND UNMOUNT_MASK = UNMOUNT_MASK \<or>
         (\<exists>t'. get_manager_uid S E (to_user_id uid) s = Some (Inr (uid, t')))"
  shows "zo_fds out = None"
proof (cases "decode_bool r2")
  case (Inl e)
  with assms(1-3) show ?thesis
    by (cases e) (auto simp: get_process_info_def attempt_def ret_def no_out_def)
next
  case (Inr b)
  obtain is_64_bit r3 where b: "decode_bool r2 = Inr (is_64_bit, r3)" using Inr by (cases b) auto
  obtain flags t1 where f: "process_flags S E Z uid process s = Some (Inr (flags, t1))"
    using assms(3) by (auto simp: get_process_info_def attempt_def assms(1,2) b elim: bindR_SomeE)
  obtain mgr t' where m: "get_manager_uid S E (to_user_id uid) s = Some (Inr (mgr, t'))"
    "\<exists>g. flags = ze_deny_flags Z uid process 0 OR g" "mgr = uid \<longrightarrow> (\<exists>g. flags = g OR ProcessIsMagiskApp)"
    by (rule process_flags_result [OF f])
  have "\<not> zygisk_should_load_module flags"
    using assms(4) m or_keeps_mask or_meets [of ProcessIsMagiskApp]
    by (auto simp: zygisk_should_load_module_def ProcessIsMagiskApp_def)
  with assms(3) f show ?thesis
    by (auto simp: get_process_info_def attempt_def assms(1,2) b bindR_def ret_def no_out_def Let_def
        split: if_splits sum.splits error.splits)
qed

definition demo_zygisk :: zygisk_env where
  "demo_zygisk = \<lparr>ze_deny_flags = (\<lambda>_ _ f. f), ze_sent = True, ze_fds_sent = True, ze_opens = (\<lambda>_. True), ze_creates = (\<lambda>_. True)\<rparr>"

definition demo_info_request :: bytes where
  "demo_info_request = encode_i32 10001 @ encode_str ''app'' @ encode_bool True"

lemma demo_info_decode:
  "decode_i32 demo_info_request = Inr (10001, encode_str ''app'' @ encode_bool True)"
  "decode_string (encode_str ''app'' @ encode_bool True) = Inr (''app'', encode_bool True)"
  "decode_bool (encode_bool True) = Inr (True, [])"
  using i32.decode_encode [of 10001] str.decode_encode [of "''app''"] bool.decode_encode [of True "[]"]
  by (simp_all add: demo_info_request_def i32_ok_def utf8_valid_ascii)

theorem modules_withheld_witness:
  "\<exists>out res t. get_process_info (mem_sqlite 0 demo_tables) demo_env demo_zygisk (Some [\<lparr>mo_name = ''m'', mo_z32 = 5, mo_z64 = 6\<rparr>])
      demo_info_request demo_state = Some (Inr ((out, res), t)) \<and> zo_fds out = None"
proof -
  let ?ms = "Some [\<lparr>mo_name = ''m'', mo_z32 = 5, mo_z64 = 6\<rparr>]"
  obtain t' where m: "get_manager_uid (mem_sqlite 0 demo_tables) demo_env (to_user_id 10001) demo_state = Some (Inr (10001, t'))"
    using demo_manager by (auto simp: get_manager_uid_def bindR_def ret_def su_demo_uid)
  have "\<exists>out res t. get_process_info (mem_sqlite 0 demo_tables) demo_env demo_zygisk ?ms demo_info_request demo_state
      = Some (Inr ((out, res), t))"
    by (simp add: get_process_info_def attempt_def demo_info_decode process_flags_def bindR_def m ret_def Let_def
        demo_zygisk_def split: prod.split)
  then obtain out res t where g: "get_process_info (mem_sqlite 0 demo_tables) demo_env demo_zygisk ?ms demo_info_request demo_state
      = Some (Inr ((out, res), t))" by blast
  have "zo_fds out = None"
    by (rule modules_withheld [OF demo_info_decode(1,2) g]) (use m in blast)
  with g show ?thesis by blast
qed

end
