(* ===== verification/Modules.thy ===== *)
theory Modules
  imports ModuleCollect Zygisk
begin

text \<open>
  The directory of the modules (core/module.rs): installing upgrades, disabling and removing modules,
  collecting those to load, and applying them.  The content of the directory is a tree; which calls
  succeed, the descriptors that are opened and what a script does to the directory are parameters.
\<close>

section \<open>The directory of the modules\<close>

datatype dir_call =
    OpenRoot
  | OpenUpgrade
  | OpenDir string
  | RmDir string
  | Unlink path
  | Rename string
  | Touch path
  | RmUpgrade

record 'a mod_os =
  md_ok :: "dir_call \<Rightarrow> bool"
  md_opens :: "path \<Rightarrow> bool"
  md_attr :: 'a
  md_fd :: "path \<Rightarrow> int"
  md_memfd :: "int \<Rightarrow> int option"
  md_script :: "string \<Rightarrow> 'a entries \<Rightarrow> 'a entries"

record 'a mod_dirs =
  ms_root :: "'a entries"
  ms_upgrade :: "'a entries option"

definition contains_path :: "'a entries \<Rightarrow> string \<Rightarrow> bool" where
  "contains_path es n \<longleftrightarrow> map_of es n \<noteq> None"

definition del_entry :: "string \<Rightarrow> 'a entries \<Rightarrow> 'a entries" where
  "del_entry n es = filter (\<lambda>p. fst p \<noteq> n) es"

definition put_entry :: "string \<Rightarrow> 'a node \<Rightarrow> 'a entries \<Rightarrow> 'a entries" where
  "put_entry n x es = (if contains_path es n then map (\<lambda>p. if fst p = n then (n, x) else p) es else es @ [(n, x)])"

definition dir_of :: "'a entries \<Rightarrow> string \<Rightarrow> 'a entries" where
  "dir_of es n = (case map_of es n of Some (NDir a sub) \<Rightarrow> sub | _ \<Rightarrow> [])"

definition set_dir :: "string \<Rightarrow> 'a entries \<Rightarrow> 'a entries \<Rightarrow> 'a entries" where
  "set_dir n sub es = (case map_of es n of Some (NDir a old) \<Rightarrow> put_entry n (NDir a sub) es | _ \<Rightarrow> es)"

text \<open>What is left of a tree when only some of its paths are.\<close>

fun keep_paths :: "path list \<Rightarrow> path \<Rightarrow> 'a entries \<Rightarrow> 'a entries" where
  "keep_paths left p [] = []"
| "keep_paths left p ((n, x) # es) =
     (if p @ [n] \<in> set left then
        (n, case x of NDir a sub \<Rightarrow> NDir a (keep_paths left (p @ [n]) sub) | _ \<Rightarrow> x) # keep_paths left p es
      else keep_paths left p es)"

definition remove_all :: "(path \<Rightarrow> bool) \<Rightarrow> 'a entries \<Rightarrow> 'a entries \<times> unit res" where
  "remove_all opens es =
     (let (left, r) = remove_all_in opens (tree_paths [] es) es in (keep_paths left [] es, r))"

text \<open>\<open>open_as_file_at\<close> with \<open>O_CREAT\<close>.\<close>

definition touch :: "'a mod_os \<Rightarrow> path \<Rightarrow> string \<Rightarrow> 'a entries \<Rightarrow> 'a entries \<times> unit res" where
  "touch M p n es =
     (if \<not> md_ok M (Touch (p @ [n])) then (es, Inl LoggedError)
      else if contains_path es n then (es, Inr ())
      else (put_entry n (NFile (md_attr M) []) es, Inr ()))"

section \<open>Upgrades\<close>

text \<open>Removing the old version of a module; the result tells whether it was disabled.\<close>

definition remove_old :: "'a mod_os \<Rightarrow> string \<Rightarrow> 'a entries \<Rightarrow> 'a entries \<times> bool res" where
  "remove_old M n root =
     (case map_of root n of
        None \<Rightarrow> (root, Inr False)
      | Some (NDir a sub) \<Rightarrow>
          if \<not> md_ok M (OpenDir n) then (root, Inl LoggedError)
          else
            let disable = contains_path sub ''disable'';
                (sub, r) = remove_all (\<lambda>p. md_opens M (n # p)) sub;
                root = set_dir n sub root
            in (case r of
                  Inl e \<Rightarrow> (root, Inl e)
                | Inr _ \<Rightarrow>
                    if md_ok M (RmDir n) \<and> sub = [] then (del_entry n root, Inr disable)
                    else (root, Inl LoggedError))
      | Some _ \<Rightarrow> (root, Inl LoggedError))"

definition upgrade_one :: "'a mod_os \<Rightarrow> string \<Rightarrow> 'a node \<Rightarrow> 'a mod_dirs \<Rightarrow> 'a mod_dirs \<times> unit res" where
  "upgrade_one M n x s =
     (case remove_old M n (ms_root s) of
        (root, Inl e) \<Rightarrow> (s\<lparr>ms_root := root\<rparr>, Inl e)
      | (root, Inr disable) \<Rightarrow>
          if \<not> md_ok M (Rename n) then (s\<lparr>ms_root := root\<rparr>, Inl LoggedError)
          else
            let root = put_entry n x root;
                s = s\<lparr>ms_root := root, ms_upgrade := map_option (del_entry n) (ms_upgrade s)\<rparr>
            in if disable then
                 let (sub, r) = touch M [n] ''disable'' (dir_of root n) in (s\<lparr>ms_root := set_dir n sub root\<rparr>, r)
               else (s, Inr ()))"

fun upgrade_loop :: "'a mod_os \<Rightarrow> 'a entries \<Rightarrow> 'a mod_dirs \<Rightarrow> 'a mod_dirs \<times> unit res" where
  "upgrade_loop M [] s = (s, Inr ())"
| "upgrade_loop M ((n, x) # es) s =
     (if \<not> readable n \<or> \<not> is_dir x then upgrade_loop M es s
      else
        case upgrade_one M n x s of
          (s, Inl e) \<Rightarrow> (s, Inl e)
        | (s, Inr _) \<Rightarrow> upgrade_loop M es s)"

definition upgrade_modules :: "'a mod_os \<Rightarrow> 'a mod_dirs \<Rightarrow> 'a mod_dirs \<times> unit res" where
  "upgrade_modules M s =
     (case ms_upgrade s of
        None \<Rightarrow> (s, Inl LoggedError)
      | Some upgrade \<Rightarrow>
          if \<not> md_ok M OpenUpgrade \<or> \<not> md_ok M OpenRoot then (s, Inl LoggedError)
          else
            case upgrade_loop M upgrade s of
              (s, Inl e) \<Rightarrow> (s, Inl e)
            | (s, Inr _) \<Rightarrow>
                (case ms_upgrade s of
                   None \<Rightarrow> (s, Inl LoggedError)
                 | Some rest \<Rightarrow>
                     let (rest, r) = remove_all (\<lambda>p. md_opens M p) rest
                     in (case r of
                           Inl e \<Rightarrow> (s\<lparr>ms_upgrade := Some rest\<rparr>, Inl e)
                         | Inr _ \<Rightarrow>
                             if md_ok M RmUpgrade \<and> rest = [] then (s\<lparr>ms_upgrade := None\<rparr>, Inr ())
                             else (s\<lparr>ms_upgrade := Some rest\<rparr>, Inl LoggedError))))"

section \<open>Disabling, removing and collecting\<close>

text \<open>The directory is read before the calls change it; the state is its content.\<close>

fun for_each_loop :: "('s \<Rightarrow> string \<Rightarrow> 's \<times> unit res) \<Rightarrow> 's \<Rightarrow> 'a entries \<Rightarrow> 's \<times> unit res" where
  "for_each_loop f s [] = (s, Inr ())"
| "for_each_loop f s ((n, x) # es) =
     (if readable n \<and> is_dir x \<and> n \<noteq> ''.core'' then
        (case f s n of (s, Inl e) \<Rightarrow> (s, Inl e) | (s, Inr _) \<Rightarrow> for_each_loop f s es)
      else for_each_loop f s es)"

definition for_each_module :: "'a mod_os \<Rightarrow> ('s \<Rightarrow> string \<Rightarrow> 's \<times> unit res) \<Rightarrow> 's \<Rightarrow> 'a entries \<Rightarrow> 's \<times> unit res" where
  "for_each_module M f s root = (if md_ok M OpenRoot then for_each_loop f s root else (s, Inl LoggedError))"

definition disable_one :: "'a mod_os \<Rightarrow> 'a entries \<Rightarrow> string \<Rightarrow> 'a entries \<times> unit res" where
  "disable_one M root n =
     (if \<not> md_ok M (OpenDir n) then (root, Inl LoggedError)
      else let (sub, r) = touch M [n] ''disable'' (dir_of root n) in (set_dir n sub root, r))"

definition disable_modules :: "'a mod_os \<Rightarrow> 'a entries \<Rightarrow> 'a entries" where
  "disable_modules M root = fst (for_each_module M (disable_one M) root root)"

definition run_uninstall_script :: "'a mod_os \<Rightarrow> string \<Rightarrow> 'a entries \<Rightarrow> 'a entries" where
  "run_uninstall_script M n root = md_script M n root"

definition uninstall_one :: "'a mod_os \<Rightarrow> 'a entries \<Rightarrow> string \<Rightarrow> 'a entries \<times> unit res" where
  "uninstall_one M root n =
     (if \<not> md_ok M (OpenDir n) then (root, Inl LoggedError)
      else (if contains_path (dir_of root n) ''uninstall.sh'' then run_uninstall_script M n root else root, Inr ()))"

text \<open>The result is the content that is left, or nothing when the directory itself is gone.\<close>

definition remove_modules :: "'a mod_os \<Rightarrow> 'a entries \<Rightarrow> 'a entries option" where
  "remove_modules M root =
     (let root = fst (for_each_module M (uninstall_one M) root root);
          (rest, r) = remove_all (\<lambda>p. md_opens M p) root
      in case r of Inr _ \<Rightarrow> if rest = [] \<and> md_ok M (RmDir []) then None else Some rest | Inl e \<Rightarrow> Some rest)"

text \<open>A module marked for removal.\<close>

definition drop_module :: "'a mod_os \<Rightarrow> string \<Rightarrow> 'a entries \<Rightarrow> 'a entries \<times> unit res" where
  "drop_module M n root =
     (let root = (if contains_path (dir_of root n) ''uninstall.sh'' then run_uninstall_script M n root else root);
          (sub, r) = remove_all (\<lambda>p. md_opens M (n # p)) (dir_of root n);
          root = set_dir n sub root
      in case r of
           Inl e \<Rightarrow> (root, Inl e)
         | Inr _ \<Rightarrow>
             if md_ok M (RmDir n) \<and> contains_path root n \<and> sub = [] then (del_entry n root, Inr ())
             else (root, Inl LoggedError))"

definition unlink_file :: "'a mod_os \<Rightarrow> path \<Rightarrow> string \<Rightarrow> 'a entries \<Rightarrow> 'a entries" where
  "unlink_file M p n es =
     (case map_of es n of
        Some (NDir a sub) \<Rightarrow> es
      | Some x \<Rightarrow> if md_ok M (Unlink (p @ [n])) then del_entry n es else es
      | None \<Rightarrow> es)"

datatype arch = Arm | Aarch64 | X86 | X86_64 | Riscv64

definition zygisk_libs :: "arch \<Rightarrow> string option \<times> string option" where
  "zygisk_libs a =
     (case a of
        Arm \<Rightarrow> (Some ''armeabi-v7a.so'', None)
      | Aarch64 \<Rightarrow> (Some ''armeabi-v7a.so'', Some ''arm64-v8a.so'')
      | X86 \<Rightarrow> (Some ''x86.so'', None)
      | X86_64 \<Rightarrow> (Some ''x86.so'', Some ''x86_64.so'')
      | Riscv64 \<Rightarrow> (None, Some ''riscv64.so''))"

definition open_fd_safe :: "'a mod_os \<Rightarrow> string \<Rightarrow> string option \<Rightarrow> int" where
  "open_fd_safe M n lib =
     (case lib of Some f \<Rightarrow> let fd = md_fd M [n, ''zygisk'', f] in if fd < 0 then -1 else fd | None \<Rightarrow> -1)"

text \<open>The closure of \<open>collect_modules\<close>.\<close>

definition collect_module :: "'a mod_os \<Rightarrow> arch \<Rightarrow> bool \<Rightarrow> bool \<Rightarrow> 'a entries \<times> module_info list \<Rightarrow> string \<Rightarrow> ('a entries \<times> module_info list) \<times> unit res" where
  "collect_module M a zygisk_enabled open_zygisk = (\<lambda>(root, modules) name.
     if \<not> md_ok M (OpenDir name) then ((root, modules), Inl LoggedError)
     else if contains_path (dir_of root name) ''remove'' then
       let (root, r) = drop_module M name root in ((root, modules), r)
     else
       let root = set_dir name (unlink_file M [name] ''update'' (dir_of root name)) root;
           dir = dir_of root name;
           is_zygisk = contains_path dir ''zygisk'';
           push = (\<lambda>root z32 z64. ((root, modules @ [\<lparr>mo_name = name, mo_z32 = z32, mo_z64 = z64\<rparr>]), Inr ()))
       in if contains_path dir ''disable'' then ((root, modules), Inr ())
          else if zygisk_enabled then
            (if name = ''riru-core'' \<or> contains_path dir ''riru'' then ((root, modules), Inr ())
             else if open_zygisk \<and> is_zygisk then
               let (l32, l64) = zygisk_libs a;
                   zdir = unlink_file M [name, ''zygisk''] ''unloaded'' (dir_of dir ''zygisk'')
               in push (set_dir name (set_dir ''zygisk'' zdir dir) root) (open_fd_safe M name l32) (open_fd_safe M name l64)
             else push root (-1) (-1))
          else if is_zygisk then ((root, modules), Inr ())
          else push root (-1) (-1))"

definition convert_to_memfd :: "'a mod_os \<Rightarrow> bool \<Rightarrow> int \<Rightarrow> int \<times> bool" where
  "convert_to_memfd M use_memfd fd =
     (if fd < 0 then (fd, use_memfd)
      else if use_memfd then (case md_memfd M fd of Some memfd \<Rightarrow> (memfd, True) | None \<Rightarrow> (fd, False))
      else (fd, False))"

fun convert_modules :: "'a mod_os \<Rightarrow> bool \<Rightarrow> module_info list \<Rightarrow> module_info list" where
  "convert_modules M use_memfd [] = []"
| "convert_modules M use_memfd (m # ms) =
     (let (z32, use_memfd) = convert_to_memfd M use_memfd (mo_z32 m);
          (z64, use_memfd) = convert_to_memfd M use_memfd (mo_z64 m)
      in m\<lparr>mo_z32 := z32, mo_z64 := z64\<rparr> # convert_modules M use_memfd ms)"

definition collect_modules :: "'a mod_os \<Rightarrow> arch \<Rightarrow> bool \<Rightarrow> bool \<Rightarrow> 'a entries \<Rightarrow> 'a entries \<times> module_info list" where
  "collect_modules M a zygisk_enabled open_zygisk root =
     (let (root, modules) = fst (for_each_module M (collect_module M a zygisk_enabled open_zygisk) (root, []) root)
      in (root, if zygisk_enabled \<and> open_zygisk then convert_modules M True modules else modules))"

section \<open>Applying the modules\<close>

record apply_env =
  ae_tmp :: string
  ae_path_env :: string
  ae_is_emulator :: bool
  ae_is64 :: bool
  ae_zygisk_enabled :: bool
  ae_read :: "path \<Rightarrow> bytes option"

text \<open>The part of step 1 for one module: its properties, and its files unless they are to be skipped.\<close>

definition apply_one :: "'b sys_prop \<Rightarrow> persist_env \<Rightarrow> 'a mod_env \<Rightarrow> apply_env \<Rightarrow> module_info \<Rightarrow>
  fs_node \<times> 'b prop_state \<times> mod_op list \<Rightarrow> fs_node \<times> 'b prop_state \<times> mod_op list" where
  "apply_one P V E A info = (\<lambda>(system, s, ops).
     let paths = set_module (mo_name info) (module_paths_new (path_of (ae_tmp A)));
         prop = mp_module (module_append ''system.prop'' paths);
         s = (if path_exists E prop then load_prop_file P V s (ae_read A prop) else s)
     in if path_exists E (mp_module (module_append ''skip_mount'' paths)) then (system, s, ops)
        else if path_exists E (mp_module (module_append ''system'' paths)) then
          let (system, e) = collect_dir E (module_append ''system'' paths) system in (system, s, ops @ fst e)
        else (system, s, ops))"

definition needs_bins :: "apply_env \<Rightarrow> bool" where
  "needs_bins A \<longleftrightarrow> ae_tmp A \<noteq> ''/sbin'' \<or> list_all (\<lambda>p. p \<noteq> ''/sbin'') (split_on (CHR '':'') (ae_path_env A))"

definition children_of :: "fs_node \<Rightarrow> fs_map" where
  "children_of x = (case x of Directory ch \<Rightarrow> ch | _ \<Rightarrow> [])"

definition apply_modules :: "'b sys_prop \<Rightarrow> persist_env \<Rightarrow> 'a mod_env \<Rightarrow> apply_env \<Rightarrow> module_info list \<Rightarrow>
  'b zygisk_props \<Rightarrow> 'b zygisk_props \<times> mod_op list" where
  "apply_modules P V E A module_list = (\<lambda>(z, s).
     let tmp = path_of (ae_tmp A);
         (system, s, ops) = fold (apply_one P V E A) module_list (Directory [], s, []);
         ch = children_of system;
         ch = (if needs_bins A then inject_magisk_bins E tmp (ae_path_env A) (ae_is_emulator A) ch else ch);
         (z, s) = (if ae_zygisk_enabled A then zygisk_set_prop P V (z, s) else (z, s));
         ch = (if ae_zygisk_enabled A then inject_zygisk_bins E tmp (ae_is64 A) (zy_lib_name z) ch else ch)
     in ((z, s), ops @ commit_roots E (mount_paths_new tmp) (mount_roots E ch)))"

text \<open>
  The environment the modules are applied in is that of the directory after the second collection.  Module
  scripts may change the directory.
\<close>

definition handle_modules :: "'b sys_prop \<Rightarrow> persist_env \<Rightarrow> 'a mod_os \<Rightarrow> arch \<Rightarrow> ('a entries \<Rightarrow> 'a mod_env) \<Rightarrow> apply_env \<Rightarrow>
  (module_info list \<Rightarrow> 'a entries \<Rightarrow> 'a entries) \<Rightarrow> 'a mod_dirs \<times> 'b zygisk_props \<Rightarrow>
  ('a mod_dirs \<times> 'b zygisk_props) \<times> module_info list \<times> mod_op list" where
  "handle_modules P V M a env A scripts = (\<lambda>(dirs, zs).
     let dirs = fst (upgrade_modules M dirs);
         (root, modules) = collect_modules M a (ae_zygisk_enabled A) False (ms_root dirs);
         root = scripts modules root;
         (root, modules) = collect_modules M a (ae_zygisk_enabled A) True root;
         (zs, ops) = apply_modules P V (env root) A modules zs
     in ((dirs\<lparr>ms_root := root\<rparr>, zs), modules, ops))"

section \<open>Facts about directories\<close>

lemma map_of_del [simp]: "map_of (del_entry n es) m = (if m = n then None else map_of es m)"
  by (induction es) (auto simp: del_entry_def)

lemma map_of_put_entry [simp]: "map_of (put_entry n x es) m = (if m = n then Some x else map_of es m)"
proof -
  have "map_of (map (\<lambda>p. if fst p = n then (n, x) else p) es) m = (if m = n then map_option (\<lambda>y. x) (map_of es n) else map_of es m)"
    by (induction es) auto
  then show ?thesis by (auto simp: put_entry_def contains_path_def map_add_def split: option.split)
qed

lemma map_of_set_dir [simp]:
  "map_of (set_dir n sub es) m =
     (if m = n then (case map_of es n of Some (NDir a old) \<Rightarrow> Some (NDir a sub) | x \<Rightarrow> x) else map_of es m)"
  by (auto simp: set_dir_def split: option.split node.split)

lemma keep_none: "keep_paths [] p es = []"
  by (induction "[] :: path list" p es rule: keep_paths.induct) auto

lemma remove_all_ok: "tree_ok es \<Longrightarrow> remove_all (\<lambda>p. True) es = ([], Inr ())"
proof -
  assume ok: "tree_ok es"
  have "covers (tree_paths [] es) [] es"
    using tree_paths_below [of _ "[]" es] by (fastforce simp: covers_def)
  then have "remove_all_in (\<lambda>p. True) (tree_paths [] es) es = (filter (\<lambda>q. q \<notin> set (tree_paths [] es)) (tree_paths [] es), Inr ())"
    using walk_removes [OF ok, of "tree_paths [] es" "[]"] by (simp add: remove_all_in_def)
  then show ?thesis by (simp add: remove_all_def keep_none)
qed

section \<open>Which modules are loaded\<close>

definition eligible :: "bool \<Rightarrow> string \<Rightarrow> 'a entries \<Rightarrow> bool" where
  "eligible zygisk_enabled n sub \<longleftrightarrow>
     \<not> contains_path sub ''remove'' \<and> \<not> contains_path sub ''disable'' \<and>
     (if zygisk_enabled then n \<noteq> ''riru-core'' \<and> \<not> contains_path sub ''riru'' else \<not> contains_path sub ''zygisk'')"

fun eligible_names :: "bool \<Rightarrow> 'a entries \<Rightarrow> string list" where
  "eligible_names z [] = []"
| "eligible_names z ((n, x) # es) =
     (case x of
        NDir a sub \<Rightarrow> (if readable n \<and> n \<noteq> ''.core'' \<and> eligible z n sub then [n] else []) @ eligible_names z es
      | _ \<Rightarrow> eligible_names z es)"

text \<open>An uninstall script does not touch the other modules.\<close>

definition script_local :: "'a mod_os \<Rightarrow> bool" where
  "script_local M \<longleftrightarrow> (\<forall>n m es. m \<noteq> n \<longrightarrow> map_of (md_script M n es) m = map_of es m)"

lemma contains_unlink: "contains_path (unlink_file M p n es) m \<longleftrightarrow> contains_path es m \<and> (m = n \<longrightarrow> contains_path (unlink_file M p n es) n)"
  by (auto simp: unlink_file_def contains_path_def split: option.split node.split)

lemma drop_module_other: "script_local M \<Longrightarrow> m \<noteq> n \<Longrightarrow> map_of (fst (drop_module M n root)) m = map_of root m"
  by (auto simp: drop_module_def run_uninstall_script_def script_local_def Let_def split: prod.split sum.split)

lemma collect_module_other:
  assumes "script_local M" "m \<noteq> n"
  shows "map_of (fst (fst (collect_module M a z opn (root, mods) n))) m = map_of root m"
  using assms drop_module_other [OF assms, of root]
  by (auto simp: collect_module_def Let_def split: prod.split)

lemma collect_module_push:
  assumes "map_of root n = Some (NDir b sub)" "collect_module M a z opn (root, mods) n = ((root', mods'), r)"
  shows "(\<forall>e. r = Inl e \<longrightarrow> mods' = mods) \<and> (r = Inr () \<longrightarrow> map mo_name mods' = map mo_name mods @ (if eligible z n sub then [n] else []))"
proof -
  have dir: "dir_of root n = sub" using assms(1) by (simp add: dir_of_def)
  have same: "contains_path (dir_of (set_dir n (unlink_file M [n] ''update'' sub) root) n) m \<longleftrightarrow> contains_path sub m" if "m \<noteq> ''update''" for m
    using assms(1) that contains_unlink [of M "[n]" "''update''" sub m] by (simp add: dir_of_def)
  show ?thesis
    using assms(2) same [of "''disable''"] same [of "''riru''"] same [of "''zygisk''"]
    by (auto simp: collect_module_def dir eligible_def Let_def split: prod.splits if_splits)
qed

lemma for_each_prefix:
  assumes "script_local M" "distinct (map fst es)" "\<forall>(n, x) \<in> set es. map_of root n = Some x"
  shows "prefix (map mo_name (snd (fst (for_each_loop (collect_module M a z opn) (root, mods) es))))
    (map mo_name mods @ eligible_names z es)"
  using assms(2,3)
proof (induction es arbitrary: root mods)
  case (Cons y es)
  obtain n x where y: "y = (n, x)" by (cases y)
  have n: "n \<notin> fst ` set es" "distinct (map fst es)" using Cons.prems(1) by (auto simp: y)
  show ?case
  proof (cases "readable n \<and> is_dir x \<and> n \<noteq> ''.core''")
    case False
    then show ?thesis using Cons by (cases x) (auto simp: y)
  next
    case True
    then obtain b sub where x: "x = NDir b sub" by (cases x) auto
    obtain root' mods' r where run: "collect_module M a z opn (root, mods) n = ((root', mods'), r)"
      by (metis prod.collapse)
    have "\<forall>(m, x) \<in> set es. map_of root' m = Some x"
    proof safe
      fix m x' assume m: "(m, x') \<in> set es"
      then have "m \<noteq> n" using n(1) by force
      then show "map_of root' m = Some x'"
        using collect_module_other [OF assms(1), of m n a z opn root mods] run Cons.prems(2) m by (auto simp: y)
    qed
    then have IH: "prefix (map mo_name (snd (fst (for_each_loop (collect_module M a z opn) (root', mods') es)))) (map mo_name mods' @ eligible_names z es)"
      using Cons.IH [OF n(2)] by blast
    have push: "(\<forall>e. r = Inl e \<longrightarrow> mods' = mods)"
      "r = Inr () \<Longrightarrow> map mo_name mods' = map mo_name mods @ (if eligible z n sub then [n] else [])"
      using collect_module_push [OF _ run, of b sub] Cons.prems(2) by (auto simp: y x)
    show ?thesis
      using IH push True by (cases r) (auto simp: y x run)
  qed
qed simp

lemma convert_names: "map mo_name (convert_modules M u ms) = map mo_name ms"
  by (induction M u ms rule: convert_modules.induct) (auto split: prod.split)

lemma collect_prefix:
  assumes "script_local M" "distinct (map fst root)"
  shows "prefix (map mo_name (snd (collect_modules M a z opn root))) (eligible_names z root)"
proof -
  have "\<forall>(n, x) \<in> set root. map_of root n = Some x" using assms(2) by auto
  from for_each_prefix [OF assms this, of a z opn "[]"] show ?thesis
    by (auto simp: collect_modules_def for_each_module_def convert_names split: prod.split)
qed

section \<open>Disabling\<close>

lemma names_put: "contains_path es n \<Longrightarrow> map fst (put_entry n x es) = map fst es"
  by (auto simp: put_entry_def)

lemma names_set_dir: "map fst (set_dir n sub es) = map fst es"
  by (auto simp: set_dir_def names_put contains_path_def split: option.split node.split)

lemma names_disable: "map fst (fst (disable_one M root n)) = map fst root"
  by (simp add: disable_one_def names_set_dir split: prod.split)

definition disabled_at :: "'a entries \<Rightarrow> string \<Rightarrow> bool" where
  "disabled_at root n = (case map_of root n of Some (NDir a sub) \<Rightarrow> contains_path sub ''disable'' | _ \<Rightarrow> True)"

lemma disable_one_at:
  assumes "\<And>c. md_ok M c"
  shows "snd (disable_one M root n) = Inr ()"
    "disabled_at (fst (disable_one M root n)) n" "disabled_at root m \<Longrightarrow> disabled_at (fst (disable_one M root n)) m"
  using assms
  by (auto simp: disable_one_def touch_def disabled_at_def contains_path_def dir_of_def split: prod.split option.split node.split)

lemma disable_run:
  assumes "\<And>c. md_ok M c"
  shows "\<exists>root'. disable_one M root n = (root', Inr ()) \<and> map fst root' = map fst root \<and> disabled_at root' n \<and>
    (\<forall>m. disabled_at root m \<longrightarrow> disabled_at root' m)"
  using disable_one_at(1,2) [of M, OF assms, of root n] disable_one_at(3) [of M, OF assms, of root _ n] names_disable [of M root n]
  by (cases "disable_one M root n") auto

lemma disable_loop:
  assumes "\<And>c. md_ok M c"
  shows "map fst (fst (for_each_loop (disable_one M) root es)) = map fst root \<and>
    (disabled_at root m \<or> (\<exists>x. (m, x) \<in> set es \<and> readable m \<and> is_dir x \<and> m \<noteq> ''.core'') \<longrightarrow>
      disabled_at (fst (for_each_loop (disable_one M) root es)) m)"
proof (induction es arbitrary: root)
  case (Cons y es)
  obtain n x where y: "y = (n, x)" by (cases y)
  obtain root' where run: "disable_one M root n = (root', Inr ())" "map fst root' = map fst root"
      "disabled_at root' n" "\<forall>m. disabled_at root m \<longrightarrow> disabled_at root' m"
    using disable_run [of M, OF assms, of root n] by blast
  then show ?case using Cons.IH [of root'] Cons.IH [of root] by (auto simp: y)
qed simp

lemma eligible_names_none:
  assumes "distinct (map fst root)" "\<And>n x. (n, x) \<in> set root \<Longrightarrow> readable n \<Longrightarrow> is_dir x \<Longrightarrow> n \<noteq> ''.core'' \<Longrightarrow> disabled_at root n"
  shows "eligible_names z root = []"
proof -
  have "eligible_names z es = []" if "set es \<subseteq> set root" for es
    using that
  proof (induction es)
    case (Cons y es)
    obtain n x where y: "y = (n, x)" by (cases y)
    have "map_of root n = Some x" using Cons.prems assms(1) by (simp add: y)
    then show ?case using Cons assms(2) [of n x] by (cases x) (auto simp: y eligible_def disabled_at_def)
  qed simp
  then show ?thesis by simp
qed

lemma disable_then_none:
  assumes "\<And>c. md_ok M c" "distinct (map fst root)"
  shows "eligible_names z (disable_modules M root) = []"
proof -
  let ?root = "fst (for_each_loop (disable_one M) root root)"
  have names: "map fst ?root = map fst root" using disable_loop [of M, OF assms(1), of root root] by blast
  have "disabled_at ?root n" if "(n, x) \<in> set ?root" "readable n" "is_dir x" "n \<noteq> ''.core''" for n x
  proof (cases "\<exists>x. (n, x) \<in> set root \<and> is_dir x")
    case True
    then show ?thesis using disable_loop [of M, OF assms(1), of root root n] that by blast
  next
    case False
    then have "disabled_at root n"
      by (auto simp: disabled_at_def dest!: map_of_SomeD split: option.split node.split)
    then show ?thesis using disable_loop [of M, OF assms(1), of root root n] by blast
  qed
  moreover have "distinct (map fst ?root)" using names assms(2) by simp
  ultimately have "eligible_names z ?root = []" by (rule eligible_names_none [rotated])
  then show ?thesis using assms(1) by (simp add: disable_modules_def for_each_module_def)
qed

section \<open>Upgrading\<close>

text \<open>The new version of a module, disabled when the old one was.\<close>

definition upgraded :: "'a mod_os \<Rightarrow> 'a node option \<Rightarrow> 'a node \<Rightarrow> 'a node" where
  "upgraded M old x =
     (case (old, x) of
        (Some (NDir b s), NDir a sub) \<Rightarrow>
          NDir a (if contains_path s ''disable'' \<and> \<not> contains_path sub ''disable'' then put_entry ''disable'' (NFile (md_attr M) []) sub else sub)
      | _ \<Rightarrow> x)"

definition replaceable :: "'a node option \<Rightarrow> bool" where
  "replaceable old = (case old of None \<Rightarrow> True | Some (NDir a sub) \<Rightarrow> tree_ok sub | _ \<Rightarrow> False)"

definition all_works :: "'a mod_os \<Rightarrow> bool" where
  "all_works M \<longleftrightarrow> (\<forall>c. md_ok M c) \<and> md_opens M = (\<lambda>p. True)"

lemma remove_old_works:
  assumes "all_works M" "replaceable (map_of root n)"
  shows "\<exists>root' d. remove_old M n root = (root', Inr d) \<and> map_of root' = (map_of root)(n := None) \<and>
    d = (case map_of root n of Some (NDir a sub) \<Rightarrow> contains_path sub ''disable'' | _ \<Rightarrow> False)"
  using assms
  by (auto simp: remove_old_def replaceable_def all_works_def remove_all_ok fun_eq_iff Let_def split: option.splits node.splits)

lemma upgrade_one_works:
  assumes "all_works M" "replaceable (map_of (ms_root s) n)" "is_dir x"
  shows "\<exists>s'. upgrade_one M n x s = (s', Inr ()) \<and>
    map_of (ms_root s') = (map_of (ms_root s))(n := Some (upgraded M (map_of (ms_root s) n) x)) \<and>
    ms_upgrade s' = map_option (del_entry n) (ms_upgrade s)"
proof -
  obtain root' d where 1: "remove_old M n (ms_root s) = (root', Inr d)" "map_of root' = (map_of (ms_root s))(n := None)"
    "d = (case map_of (ms_root s) n of Some (NDir a sub) \<Rightarrow> contains_path sub ''disable'' | _ \<Rightarrow> False)"
    using remove_old_works [OF assms(1,2)] by blast
  obtain a sub where x: "x = NDir a sub" using assms(3) by (cases x) auto
  have ok: "md_ok M c" for c using assms(1) by (simp add: all_works_def)
  show ?thesis
  proof (cases d)
    case True
    then obtain b t where old: "map_of (ms_root s) n = Some (NDir b t)" "contains_path t ''disable''"
      using 1(3) by (auto split: option.splits node.splits)
    show ?thesis
      using 1(1,2) True ok old
      by (auto simp: upgrade_one_def touch_def upgraded_def x dir_of_def fun_eq_iff Let_def split: prod.split)
  next
    case False
    then have "upgraded M (map_of (ms_root s) n) x = x"
      using 1(3) by (auto simp: upgraded_def x split: option.splits node.splits)
    then show ?thesis using 1(1,2) False ok by (auto simp: upgrade_one_def fun_eq_iff Let_def)
  qed
qed

definition dir_names :: "'a entries \<Rightarrow> string set" where
  "dir_names es = fst ` {p \<in> set es. is_dir (snd p)}"

definition upgraded_at :: "'a mod_os \<Rightarrow> 'a entries \<Rightarrow> 'a entries \<Rightarrow> string \<Rightarrow> 'a node option" where
  "upgraded_at M root es n =
     (case map_of es n of
        Some x \<Rightarrow> if is_dir x then Some (upgraded M (map_of root n) x) else map_of root n
      | None \<Rightarrow> map_of root n)"

lemma upgrade_loop_works:
  assumes "all_works M"
  shows "distinct (map fst es) \<Longrightarrow> \<forall>p \<in> set es. readable (fst p) \<and> (is_dir (snd p) \<longrightarrow> replaceable (map_of (ms_root s) (fst p))) \<Longrightarrow>
    \<exists>s'. upgrade_loop M es s = (s', Inr ()) \<and> (\<forall>n. map_of (ms_root s') n = upgraded_at M (ms_root s) es n) \<and>
      ms_upgrade s' = map_option (filter (\<lambda>p. fst p \<notin> dir_names es)) (ms_upgrade s)"
proof (induction es arbitrary: s)
  case Nil
  then show ?case by (cases "ms_upgrade s") (auto simp: upgraded_at_def dir_names_def)
next
  case (Cons y es)
  obtain n x where y: "y = (n, x)" by (cases y)
  have n: "n \<notin> fst ` set es" "distinct (map fst es)" "map_of es n = None"
    using Cons.prems(1) by (auto simp: y map_of_eq_None_iff)
  have r: "readable n" using Cons.prems(2) by (simp add: y)
  show ?case
  proof (cases "is_dir x")
    case False
    have "dir_names (y # es) = dir_names es" using False by (auto simp: dir_names_def y)
    moreover have "upgraded_at M (ms_root s) (y # es) m = upgraded_at M (ms_root s) es m" for m
      using False n(3) by (simp add: upgraded_at_def y)
    ultimately show ?thesis using Cons.IH [OF n(2), of s] Cons.prems(2) False by (simp add: y)
  next
    case True
    have "replaceable (map_of (ms_root s) n)" using Cons.prems(2) True by (simp add: y)
    then obtain s1 where s1: "upgrade_one M n x s = (s1, Inr ())"
      "map_of (ms_root s1) = (map_of (ms_root s))(n := Some (upgraded M (map_of (ms_root s) n) x))"
      "ms_upgrade s1 = map_option (del_entry n) (ms_upgrade s)"
      using upgrade_one_works [OF assms _ True] by blast
    have other: "fst p \<noteq> n" if "p \<in> set es" for p using n(1) that by auto
    obtain s' where s': "upgrade_loop M es s1 = (s', Inr ())" "\<forall>n. map_of (ms_root s') n = upgraded_at M (ms_root s1) es n"
      "ms_upgrade s' = map_option (filter (\<lambda>p. fst p \<notin> dir_names es)) (ms_upgrade s1)"
      using Cons.IH [OF n(2), of s1] Cons.prems(2) s1(2) other by (auto simp: y)
    have "upgraded_at M (ms_root s1) es m = upgraded_at M (ms_root s) (y # es) m" for m
      using n(3) s1(2) True by (auto simp: upgraded_at_def y split: option.split)
    moreover have "dir_names (y # es) = insert n (dir_names es)" using True by (force simp: dir_names_def y)
    ultimately show ?thesis
      using s1 s' r True by (auto simp: y del_entry_def option.map_comp comp_def conj_commute)
  qed
qed

lemma tree_ok_filter: "tree_ok es \<Longrightarrow> tree_ok (filter P es)"
  by (induction es rule: tree_ok.induct) auto

lemma upgrade_works:
  assumes "all_works M" "ms_upgrade s = Some up" "tree_ok up" "\<forall>p \<in> set up. is_dir (snd p) \<longrightarrow> replaceable (map_of (ms_root s) (fst p))"
  shows "\<exists>s'. upgrade_modules M s = (s', Inr ()) \<and> ms_upgrade s' = None \<and>
    (\<forall>n. map_of (ms_root s') n = upgraded_at M (ms_root s) up n)"
proof -
  have "\<forall>p \<in> set up. readable (fst p)" using tree_ok_dest(2) [OF assms(3)] by auto
  then obtain s' where s': "upgrade_loop M up s = (s', Inr ())" "\<forall>n. map_of (ms_root s') n = upgraded_at M (ms_root s) up n"
      "ms_upgrade s' = Some (filter (\<lambda>p. fst p \<notin> dir_names up) up)"
    using upgrade_loop_works [OF assms(1) tree_ok_dest(1) [OF assms(3)], of s] assms(2,4) by auto
  have "remove_all (\<lambda>p. md_opens M p) (filter (\<lambda>p. fst p \<notin> dir_names up) up) = ([], Inr ())"
    using remove_all_ok [OF tree_ok_filter [OF assms(3)]] assms(1) by (simp add: all_works_def)
  then show ?thesis
    using s' assms(1,2) by (auto simp: upgrade_modules_def all_works_def)
qed

section \<open>Properties\<close>

text \<open>
  C24. The modules loaded at boot are among the directories of the module directory that are neither
  disabled nor to be removed, nor incompatible with the state of zygisk, in the order they are read.  A
  call that fails ends the collection, so that the modules after it are not loaded.
\<close>

theorem only_eligible_loaded:
  assumes "script_local M" "distinct (map fst root)"
  shows "prefix (map mo_name (snd (collect_modules M a zygisk_enabled open_zygisk root))) (eligible_names zygisk_enabled root)"
  using collect_prefix [OF assms] .

definition demo_os :: "unit mod_os" where
  "demo_os = \<lparr>md_ok = \<lambda>c. True, md_opens = \<lambda>p. True, md_attr = (), md_fd = \<lambda>p. 5, md_memfd = \<lambda>fd. None, md_script = \<lambda>n es. es\<rparr>"

definition demo_modules :: "unit entries" where
  "demo_modules =
     [(''a'', NDir () [(''disable'', NFile () [])]), (''b'', NDir () [(''zygisk'', NDir () [])]), (''c'', NDir () []), (''f'', NFile () [])]"

lemma demo_os_works: "md_ok demo_os c" "script_local demo_os" "all_works demo_os" "distinct (map fst demo_modules)"
  by (simp_all add: demo_os_def script_local_def all_works_def demo_modules_def)

theorem only_eligible_loaded_witness:
  "eligible_names False demo_modules = [''c''] \<and>
   prefix (map mo_name (snd (collect_modules demo_os Aarch64 False False demo_modules))) [''c''] \<and>
   map mo_name (snd (collect_modules demo_os Aarch64 True True demo_modules)) = [''b'', ''c'']"
proof -
  have e: "eligible_names False demo_modules = [''c'']"
    by (simp add: demo_modules_def eligible_def contains_path_def readable_def utf8_valid_ascii)
  show ?thesis
    using only_eligible_loaded [OF demo_os_works(2,4), of Aarch64 False False] unfolding e
    by (simp add: demo_modules_def demo_os_def collect_modules_def for_each_module_def collect_module_def contains_path_def readable_def
        utf8_valid_ascii dir_of_def set_dir_def put_entry_def unlink_file_def zygisk_libs_def open_fd_safe_def convert_to_memfd_def Let_def)
qed





end
