(* ===== verification/FileTree.thy ===== *)
theory FileTree
  imports Modules
begin

unbundle bit_operations_syntax

text \<open>
  Copying, moving, linking and removing trees of files (base/dir.rs, base/files.rs).  Which system calls
  succeed is a parameter (\<open>ct_ok\<close>), and so is what happens where the destination has a symbolic link to
  somewhere else (\<open>ct_through\<close>, \<open>ct_move\<close>) and the directory a link to be moved names (\<open>ct_dir\<close>): what a link names is
  outside of the tree.
\<close>

section \<open>Attributes\<close>

record fs_attr =
  fa_mode :: u32
  fa_uid :: u32
  fa_gid :: u32
  fa_con :: string

datatype copy_call =
    CcAttr path | CcMkdir path | CcOpenSrc path | CcOpenDest path | CcCreate path | CcCopy path
  | CcReadLink path | CcSymlink path | CcPath path | CcChmod path | CcChown path | CcSetCon path
  | CcRename path | CcUnlink path | CcLink path

text \<open>
  \<open>ct_new\<close> are the attributes of a file or directory just made, and \<open>ct_copied\<close> is how much of a file
  was written when copying it fails.
\<close>

record copy_env =
  ct_ok :: "copy_call \<Rightarrow> bool"
  ct_new :: fs_attr
  ct_copied :: "path \<Rightarrow> nat"
  ct_through :: "path \<Rightarrow> unit res"
  ct_move :: "path \<Rightarrow> fs_attr entries \<Rightarrow> fs_attr entries \<times> unit res"
  ct_dir :: "string \<Rightarrow> fs_attr entries option"

fun node_attr :: "'a node \<Rightarrow> 'a" where
  "node_attr (NDir a es) = a"
| "node_attr (NFile a d) = a"
| "node_attr (NLink a t) = a"
| "node_attr (NOther a) = a"

fun with_attr :: "'a \<Rightarrow> 'a node \<Rightarrow> 'a node" where
  "with_attr a (NDir b es) = NDir a es"
| "with_attr a (NFile b d) = NFile a d"
| "with_attr a (NLink b t) = NLink a t"
| "with_attr a (NOther b) = NOther a"

fun is_symlink :: "'a node \<Rightarrow> bool" where
  "is_symlink (NLink a t) \<longleftrightarrow> True"
| "is_symlink _ \<longleftrightarrow> False"

definition chown_con :: "copy_env \<Rightarrow> path \<Rightarrow> fs_attr \<Rightarrow> fs_attr \<Rightarrow> fs_attr \<times> unit res" where
  "chown_con C p a b =
     (if \<not> ct_ok C (CcChown p) then (b, Inl LoggedError)
      else
        let b = b\<lparr>fa_uid := fa_uid a, fa_gid := fa_gid a\<rparr>
        in if fa_con a = [] then (b, Inr ())
           else if ct_ok C (CcSetCon p) then (b\<lparr>fa_con := fa_con a\<rparr>, Inr ())
           else (b, Inl LoggedError))"

text \<open>\<open>fd_set_attr\<close>: the permissions without the set-id and sticky bits.\<close>

definition fd_set_attr :: "copy_env \<Rightarrow> path \<Rightarrow> fs_attr \<Rightarrow> fs_attr \<Rightarrow> fs_attr \<times> unit res" where
  "fd_set_attr C p a b =
     (if \<not> ct_ok C (CcChmod p) then (b, Inl LoggedError)
      else chown_con C p a (b\<lparr>fa_mode := fa_mode a AND 0x1FF\<rparr>))"

text \<open>
  \<open>set_attr\<close> of a path: \<open>link\<close> tells whether the attributes are those of a symbolic link and \<open>self_link\<close>
  whether the path is one, whose permissions \<open>chmod\<close> would not change.
\<close>

definition set_attr :: "copy_env \<Rightarrow> path \<Rightarrow> bool \<Rightarrow> bool \<Rightarrow> fs_attr \<Rightarrow> fs_attr \<Rightarrow> fs_attr \<times> unit res" where
  "set_attr C p link self_link a b =
     (if link then chown_con C p a b
      else if ct_ok C (CcChmod p) then chown_con C p a (if self_link then b else b\<lparr>fa_mode := fa_mode a AND 0x1FF\<rparr>)
      else if \<not> ct_ok C (CcAttr p) \<or> \<not> self_link then (b, Inl LoggedError)
      else chown_con C p a b)"

text \<open>Setting the attributes of an entry.\<close>

definition entry_set_attr :: "copy_env \<Rightarrow> path \<Rightarrow> string \<Rightarrow> fs_attr \<Rightarrow> fs_attr entries \<Rightarrow> fs_attr entries \<times> unit res" where
  "entry_set_attr C p n a es =
     (case map_of es n of
        Some x \<Rightarrow> let (b, r) = fd_set_attr C p a (node_attr x) in (put_entry n (with_attr b x) es, r)
      | None \<Rightarrow> (es, Inl LoggedError))"

section \<open>Directories\<close>

text \<open>\<open>mkdir_at\<close> accepts an entry that exists, of whatever kind.\<close>

definition mkdir_at :: "copy_env \<Rightarrow> path \<Rightarrow> string \<Rightarrow> fs_attr entries \<Rightarrow> fs_attr entries \<times> unit res" where
  "mkdir_at C p n dest =
     (if contains_path dest n then (dest, Inr ())
      else if ct_ok C (CcMkdir p) then (put_entry n (NDir (ct_new C) []) dest, Inr ())
      else (dest, Inl LoggedError))"

text \<open>The bytes of a link, cut to the buffer; a target that is not UTF-8 leaves the buffer empty.\<close>

definition read_link_at :: "string \<Rightarrow> string" where
  "read_link_at t = (let b = take 4095 t in if utf8_valid b then b else [])"

definition create_symlink_at :: "copy_env \<Rightarrow> path \<Rightarrow> string \<Rightarrow> string \<Rightarrow> fs_attr entries \<Rightarrow> fs_attr entries \<times> unit res" where
  "create_symlink_at C p n t dest =
     (if contains_path dest n \<or> t = [] \<or> \<not> ct_ok C (CcSymlink p) then (dest, Inl LoggedError)
      else (put_entry n (NLink (ct_new C) t) dest, Inr ()))"

text \<open>Opening the destination of a file truncates a file that exists.\<close>

definition copy_file :: "copy_env \<Rightarrow> path \<Rightarrow> string \<Rightarrow> fs_attr \<Rightarrow> bytes \<Rightarrow> fs_attr entries \<Rightarrow> fs_attr entries \<times> unit res" where
  "copy_file C p n a d dest =
     (let data = (if ct_ok C (CcCopy p) then d else take (ct_copied C p) d);
          r = (if ct_ok C (CcCopy p) then Inr () else Inl LoggedError);
          finish = (\<lambda>dest r. case r of Inl e \<Rightarrow> (dest, Inl e) | Inr _ \<Rightarrow> entry_set_attr C p n a dest)
      in if \<not> ct_ok C (CcOpenSrc p) \<or> \<not> ct_ok C (CcCreate p) then (dest, Inl LoggedError)
         else case map_of dest n of
                None \<Rightarrow> finish (put_entry n (NFile (ct_new C) data) dest) r
              | Some (NFile b old) \<Rightarrow> finish (put_entry n (NFile b data) dest) r
              | Some (NDir b sub) \<Rightarrow> (dest, Inl LoggedError)
              | Some (NLink b t) \<Rightarrow> (dest, ct_through C p)
              | Some (NOther b) \<Rightarrow> finish dest (ct_through C p))"

definition copy_link :: "copy_env \<Rightarrow> path \<Rightarrow> string \<Rightarrow> fs_attr \<Rightarrow> string \<Rightarrow> fs_attr entries \<Rightarrow> fs_attr entries \<times> unit res" where
  "copy_link C p n a t dest =
     (if \<not> ct_ok C (CcReadLink p) then (dest, Inl LoggedError)
      else
        case create_symlink_at C p n (read_link_at t) dest of
          (dest, Inl e) \<Rightarrow> (dest, Inl e)
        | (dest, Inr _) \<Rightarrow>
            if \<not> ct_ok C (CcPath p) then (dest, Inl LoggedError)
            else case map_of dest n of
                   Some x \<Rightarrow> let (b, r) = set_attr C p True (is_symlink x) a (node_attr x) in (put_entry n (with_attr b x) dest, r)
                 | None \<Rightarrow> (dest, Inl LoggedError))"

fun copy_into_impl :: "copy_env \<Rightarrow> path \<Rightarrow> fs_attr entries \<Rightarrow> fs_attr entries \<Rightarrow> fs_attr entries \<times> unit res" where
  "copy_into_impl C p [] dest = (dest, Inr ())"
| "copy_into_impl C p ((n, x) # es) dest =
     (if \<not> readable n then copy_into_impl C p es dest
      else if \<not> ct_ok C (CcAttr (p @ [n])) then (dest, Inl LoggedError)
      else
        case (case x of
                NDir a sub \<Rightarrow>
                  (case mkdir_at C (p @ [n]) n dest of
                     (dest, Inl e) \<Rightarrow> (dest, Inl e)
                   | (dest, Inr _) \<Rightarrow>
                       if \<not> ct_ok C (CcOpenSrc (p @ [n])) \<or> \<not> ct_ok C (CcOpenDest (p @ [n])) then (dest, Inl LoggedError)
                       else
                         (case map_of dest n of
                            Some (NDir b old) \<Rightarrow>
                              (case copy_into_impl C (p @ [n]) sub old of
                                 (new, Inl e) \<Rightarrow> (set_dir n new dest, Inl e)
                               | (new, Inr _) \<Rightarrow> entry_set_attr C (p @ [n]) n a (set_dir n new dest))
                          | Some (NLink b t) \<Rightarrow> (dest, ct_through C (p @ [n]))
                          | _ \<Rightarrow> (dest, Inl LoggedError)))
              | NFile a d \<Rightarrow> copy_file C (p @ [n]) n a d dest
              | NLink a t \<Rightarrow> copy_link C (p @ [n]) n a t dest
              | NOther a \<Rightarrow> (dest, Inr ())) of
          (dest, Inl e) \<Rightarrow> (dest, Inl e)
        | (dest, Inr _) \<Rightarrow> copy_into_impl C p es dest)"

text \<open>
  The loop of \<open>move_into\<close>: the entries still to be read, the content of the source and of the destination.
  After a directory that exists on both sides the function returns.
\<close>

fun move_into_loop :: "copy_env \<Rightarrow> path \<Rightarrow> fs_attr entries \<Rightarrow> fs_attr entries \<Rightarrow> fs_attr entries \<Rightarrow> fs_attr entries \<times> fs_attr entries \<times> unit res" where
  "move_into_loop C p [] src dest = (src, dest, Inr ())"
| "move_into_loop C p ((n, x) # es) src dest =
     (if \<not> readable n then move_into_loop C p es src dest
      else if is_dir x \<and> contains_path dest n then
        (if \<not> ct_ok C (CcOpenSrc (p @ [n])) \<or> \<not> ct_ok C (CcOpenDest (p @ [n])) then (src, dest, Inl LoggedError)
         else
           case (case x of
                   NDir a sub \<Rightarrow>
                     (case map_of dest n of
                        Some (NDir b old) \<Rightarrow> move_into_loop C (p @ [n]) sub sub old
                      | Some (NLink b t) \<Rightarrow> let (left, r) = ct_move C (p @ [n]) sub in (left, [], r)
                      | _ \<Rightarrow> (sub, [], Inl LoggedError))
                 | _ \<Rightarrow> ([], [], Inr ())) of
             (left, new, Inl e) \<Rightarrow> (set_dir n left src, set_dir n new dest, Inl e)
           | (left, new, Inr _) \<Rightarrow>
               if left = [] \<and> ct_ok C (CcUnlink (p @ [n])) then (del_entry n src, set_dir n new dest, Inr ())
               else (set_dir n left src, set_dir n new dest, Inl LoggedError))
      else if \<not> ct_ok C (CcRename (p @ [n])) \<or> (case map_of dest n of Some y \<Rightarrow> is_dir y | None \<Rightarrow> False) then
        (src, dest, Inl LoggedError)
      else move_into_loop C p es (del_entry n src) (put_entry n x dest))"

definition move_into :: "copy_env \<Rightarrow> fs_attr entries \<Rightarrow> fs_attr entries \<Rightarrow> fs_attr entries \<times> fs_attr entries \<times> unit res" where
  "move_into C src dest = move_into_loop C [] src src dest"

text \<open>A hard link is another entry for the same file; the tree shows its content at both places.\<close>

fun link_into_impl :: "copy_env \<Rightarrow> path \<Rightarrow> fs_attr entries \<Rightarrow> fs_attr entries \<Rightarrow> fs_attr entries \<times> unit res" where
  "link_into_impl C p [] dest = (dest, Inr ())"
| "link_into_impl C p ((n, x) # es) dest =
     (if \<not> readable n then link_into_impl C p es dest
      else
        case (case x of
                NDir a sub \<Rightarrow>
                  (case mkdir_at C (p @ [n]) n dest of
                     (dest, Inl e) \<Rightarrow> (dest, Inl e)
                   | (dest, Inr _) \<Rightarrow>
                       if \<not> ct_ok C (CcAttr (p @ [n])) \<or> \<not> ct_ok C (CcOpenSrc (p @ [n])) \<or> \<not> ct_ok C (CcOpenDest (p @ [n]))
                       then (dest, Inl LoggedError)
                       else
                         (case map_of dest n of
                            Some (NDir b old) \<Rightarrow>
                              (case link_into_impl C (p @ [n]) sub old of
                                 (new, Inl e) \<Rightarrow> (set_dir n new dest, Inl e)
                               | (new, Inr _) \<Rightarrow> entry_set_attr C (p @ [n]) n a (set_dir n new dest))
                          | Some (NLink b t) \<Rightarrow> (dest, ct_through C (p @ [n]))
                          | _ \<Rightarrow> (dest, Inl LoggedError)))
              | _ \<Rightarrow>
                  if contains_path dest n \<or> \<not> ct_ok C (CcLink (p @ [n])) then (dest, Inl LoggedError)
                  else (put_entry n x dest, Inr ())) of
          (dest, Inl e) \<Rightarrow> (dest, Inl e)
        | (dest, Inr _) \<Rightarrow> link_into_impl C p es dest)"

section \<open>Paths\<close>

text \<open>What is at a path before and after: nothing, or a node.\<close>

definition remove_path :: "copy_env \<Rightarrow> path \<Rightarrow> fs_attr node option \<Rightarrow> fs_attr node option \<times> unit res" where
  "remove_path C p x =
     (case x of
        None \<Rightarrow> (None, Inl LoggedError)
      | Some (NDir a es) \<Rightarrow> if es = [] \<and> ct_ok C (CcUnlink p) then (None, Inr ()) else (x, Inl LoggedError)
      | Some y \<Rightarrow> if ct_ok C (CcUnlink p) then (None, Inr ()) else (x, Inl LoggedError))"

definition remove_all_path :: "copy_env \<Rightarrow> path \<Rightarrow> fs_attr node option \<Rightarrow> fs_attr node option \<times> unit res" where
  "remove_all_path C p x =
     (case x of
        None \<Rightarrow> (None, Inr ())
      | Some y \<Rightarrow>
          if \<not> ct_ok C (CcAttr p) then (x, Inl LoggedError)
          else
            (case y of
               NDir a es \<Rightarrow>
                 if \<not> ct_ok C (CcOpenSrc p) then (x, Inl LoggedError)
                 else
                   (case remove_all (\<lambda>q. ct_ok C (CcOpenSrc (p @ q))) es of
                      (rest, Inl e) \<Rightarrow> (Some (NDir a rest), Inl e)
                    | (rest, Inr _) \<Rightarrow> remove_path C p (Some (NDir a rest)))
             | _ \<Rightarrow> remove_path C p x))"

definition mkdir_path :: "copy_env \<Rightarrow> path \<Rightarrow> fs_attr node option \<Rightarrow> fs_attr node option \<times> unit res" where
  "mkdir_path C p x =
     (case x of
        Some y \<Rightarrow> (x, Inr ())
      | None \<Rightarrow> if ct_ok C (CcMkdir p) then (Some (NDir (ct_new C) []), Inr ()) else (None, Inl LoggedError))"

definition path_set_attr :: "copy_env \<Rightarrow> path \<Rightarrow> bool \<Rightarrow> fs_attr \<Rightarrow> fs_attr node option \<Rightarrow> fs_attr node option \<times> unit res" where
  "path_set_attr C p link a x =
     (case x of
        Some y \<Rightarrow> let (b, r) = set_attr C p link (is_symlink y) a (node_attr y) in (Some (with_attr b y), r)
      | None \<Rightarrow> (None, Inl LoggedError))"

text \<open>The content that \<open>copy_to\<close> makes before the attributes are set.  \<open>p\<close> is the source, \<open>q\<close> the destination.\<close>

definition copy_content :: "copy_env \<Rightarrow> path \<Rightarrow> path \<Rightarrow> fs_attr node \<Rightarrow> fs_attr node option \<Rightarrow> fs_attr node option \<times> unit res" where
  "copy_content C p q x dest =
     (case x of
        NDir a es \<Rightarrow>
          (case mkdir_path C q dest of
             (dest, Inl e) \<Rightarrow> (dest, Inl e)
           | (dest, Inr _) \<Rightarrow>
               if \<not> ct_ok C (CcOpenSrc p) \<or> \<not> ct_ok C (CcOpenDest q) then (dest, Inl LoggedError)
               else
                 (case dest of
                    Some (NDir b old) \<Rightarrow> let (new, r) = copy_into_impl C p es old in (Some (NDir b new), r)
                  | Some (NLink b t) \<Rightarrow> (dest, ct_through C q)
                  | _ \<Rightarrow> (dest, Inl LoggedError)))
      | NFile a d \<Rightarrow>
          let dest = fst (remove_path C q dest)
          in if \<not> ct_ok C (CcOpenSrc p) \<or> \<not> ct_ok C (CcCreate q) then (dest, Inl LoggedError)
             else
               let data = (if ct_ok C (CcCopy q) then d else take (ct_copied C q) d);
                   r = (if ct_ok C (CcCopy q) then Inr () else Inl LoggedError)
               in (case dest of
                     None \<Rightarrow> (Some (NFile (ct_new C) data), r)
                   | Some (NFile b old) \<Rightarrow> (Some (NFile b data), r)
                   | Some (NDir b es) \<Rightarrow> (dest, Inl LoggedError)
                   | Some y \<Rightarrow> (dest, ct_through C q))
      | NLink a t \<Rightarrow>
          let dest = fst (remove_path C q dest)
          in if \<not> ct_ok C (CcReadLink p) \<or> \<not> ct_ok C (CcSymlink q) \<or> read_link_at t = [] \<or> dest \<noteq> None then (dest, Inl LoggedError)
             else (Some (NLink (ct_new C) (read_link_at t)), Inr ())
      | NOther a \<Rightarrow> (fst (remove_path C q dest), Inr ()))"

definition copy_to :: "copy_env \<Rightarrow> path \<Rightarrow> path \<Rightarrow> fs_attr node option \<Rightarrow> fs_attr node option \<Rightarrow> fs_attr node option \<times> unit res" where
  "copy_to C p q src dest =
     (case src of
        None \<Rightarrow> (dest, Inl LoggedError)
      | Some x \<Rightarrow>
          if \<not> ct_ok C (CcAttr p) then (dest, Inl LoggedError)
          else
            (case copy_content C p q x dest of
               (dest, Inl e) \<Rightarrow> (dest, Inl e)
             | (dest, Inr _) \<Rightarrow> path_set_attr C q (is_symlink x) (node_attr x) dest))"

definition rename_to :: "copy_env \<Rightarrow> path \<Rightarrow> fs_attr node option \<Rightarrow> fs_attr node option \<times> fs_attr node option \<times> unit res" where
  "rename_to C p src =
     (case src of
        Some x \<Rightarrow> if ct_ok C (CcRename p) then (None, Some x, Inr ()) else (src, None, Inl LoggedError)
      | None \<Rightarrow> (None, None, Inl LoggedError))"

definition move_to :: "copy_env \<Rightarrow> path \<Rightarrow> path \<Rightarrow> fs_attr node option \<Rightarrow> fs_attr node option \<Rightarrow> fs_attr node option \<times> fs_attr node option \<times> unit res" where
  "move_to C p q src dest =
     (case dest of
        None \<Rightarrow> rename_to C p src
      | Some (NDir b old) \<Rightarrow>
          if \<not> ct_ok C (CcAttr q) \<or> \<not> ct_ok C (CcOpenSrc p) \<or> \<not> ct_ok C (CcOpenDest q) then (src, dest, Inl LoggedError)
          else
            (case src of
               Some (NDir a es) \<Rightarrow> let (left, new, r) = move_into C es old in (Some (NDir a left), Some (NDir b new), r)
             | Some (NLink a t) \<Rightarrow>
                 (case ct_dir C t of
                    Some es \<Rightarrow> let (left, new, r) = move_into C es old in (src, Some (NDir b new), r)
                  | None \<Rightarrow> (src, dest, Inl LoggedError))
             | _ \<Rightarrow> (src, dest, Inl LoggedError))
      | Some y \<Rightarrow>
          if \<not> ct_ok C (CcAttr q) then (src, dest, Inl LoggedError)
          else
            (case remove_path C q dest of
               (dest, Inl e) \<Rightarrow> (src, dest, Inl e)
             | (dest, Inr _) \<Rightarrow> rename_to C p src))"

definition link_to :: "copy_env \<Rightarrow> path \<Rightarrow> path \<Rightarrow> fs_attr node option \<Rightarrow> fs_attr node option \<Rightarrow> fs_attr node option \<times> unit res" where
  "link_to C p q src dest =
     (case src of
        None \<Rightarrow> (dest, Inl LoggedError)
      | Some x \<Rightarrow>
          if \<not> ct_ok C (CcAttr p) then (dest, Inl LoggedError)
          else
            (case x of
               NDir a es \<Rightarrow>
                 (case mkdir_path C q dest of
                    (dest, Inl e) \<Rightarrow> (dest, Inl e)
                  | (dest, Inr _) \<Rightarrow>
                      (case path_set_attr C q False a dest of
                         (dest, Inl e) \<Rightarrow> (dest, Inl e)
                       | (dest, Inr _) \<Rightarrow>
                           if \<not> ct_ok C (CcOpenSrc p) \<or> \<not> ct_ok C (CcOpenDest q) then (dest, Inl LoggedError)
                           else
                             (case dest of
                                Some (NDir b old) \<Rightarrow> let (new, r) = link_into_impl C p es old in (Some (NDir b new), r)
                              | Some (NLink b t) \<Rightarrow> (dest, ct_through C q)
                              | _ \<Rightarrow> (dest, Inl LoggedError))))
             | _ \<Rightarrow>
                 if dest \<noteq> None \<or> \<not> ct_ok C (CcLink q) then (dest, Inl LoggedError)
                 else (Some x, Inr ())))"

section \<open>What a copy is\<close>

text \<open>The attributes a copy has: those of the original without the set-id and sticky bits.\<close>

definition copied_attr :: "fs_attr \<Rightarrow> bool \<Rightarrow> fs_attr \<Rightarrow> fs_attr" where
  "copied_attr new link a =
     \<lparr>fa_mode = (if link then fa_mode new else fa_mode a AND 0x1FF), fa_uid = fa_uid a, fa_gid = fa_gid a,
      fa_con = (if fa_con a = [] then fa_con new else fa_con a)\<rparr>"

fun copied :: "fs_attr \<Rightarrow> fs_attr entries \<Rightarrow> fs_attr entries" where
  "copied new [] = []"
| "copied new ((n, x) # es) =
     (case x of
        NDir a sub \<Rightarrow> [(n, NDir (copied_attr new False a) (copied new sub))]
      | NFile a d \<Rightarrow> [(n, NFile (copied_attr new False a) d)]
      | NLink a t \<Rightarrow> [(n, NLink (copied_attr new True a) t)]
      | NOther a \<Rightarrow> []) @ copied new es"

fun links_ok :: "'a entries \<Rightarrow> bool" where
  "links_ok [] \<longleftrightarrow> True"
| "links_ok ((n, x) # es) \<longleftrightarrow>
     (case x of NDir a sub \<Rightarrow> links_ok sub | NLink a t \<Rightarrow> t \<noteq> [] \<and> length t < 4096 \<and> utf8_valid t | _ \<Rightarrow> True) \<and> links_ok es"

lemma copied_names: "fst ` set (copied new es) \<subseteq> fst ` set es"
  by (induction new es rule: copied.induct) (auto split: node.splits)

text \<open>Entries that are not there yet are added at the end.\<close>

lemma put_entry_new:
  assumes "n \<notin> fst ` set es"
  shows "put_entry n x es = es @ [(n, x)]" "put_entry n y (es @ [(n, x)]) = es @ [(n, y)]" "([n \<mapsto> x] ++ map_of es) n = Some x"
proof -
  have m: "map_of es n = None" using assms by (simp add: map_of_eq_None_iff)
  then show "put_entry n x es = es @ [(n, x)]" "([n \<mapsto> x] ++ map_of es) n = Some x"
    by (simp_all add: put_entry_def contains_path_def map_add_def)
  have "map (\<lambda>p. if fst p = n then (n, y) else p) es = es" using assms by (induction es) auto
  then show "put_entry n y (es @ [(n, x)]) = es @ [(n, y)]"
    using m by (simp add: put_entry_def contains_path_def map_add_def)
qed

lemma set_dir_new: "n \<notin> fst ` set es \<Longrightarrow> set_dir n sub (es @ [(n, NDir a old)]) = es @ [(n, NDir a sub)]"
  by (simp add: set_dir_def put_entry_new)

lemma fd_set_attr_ok: "ct_ok C = (\<lambda>c. True) \<Longrightarrow> fd_set_attr C p a (ct_new C) = (copied_attr (ct_new C) False a, Inr ())"
  by (simp add: fd_set_attr_def chown_con_def copied_attr_def)

lemma set_attr_ok: "ct_ok C = (\<lambda>c. True) \<Longrightarrow> set_attr C p True l a (ct_new C) = (copied_attr (ct_new C) True a, Inr ())"
  by (simp add: set_attr_def chown_con_def copied_attr_def)

lemma entry_set_attr_new:
  assumes "ct_ok C = (\<lambda>c. True)" "n \<notin> fst ` set es" "node_attr x = ct_new C"
  shows "entry_set_attr C p n a (es @ [(n, x)]) = (es @ [(n, with_attr (copied_attr (ct_new C) False a) x)], Inr ())"
  using assms by (simp add: entry_set_attr_def put_entry_new fd_set_attr_ok)

lemma copy_file_new:
  assumes "ct_ok C = (\<lambda>c. True)" "n \<notin> fst ` set dest"
  shows "copy_file C p n a d dest = (dest @ [(n, NFile (copied_attr (ct_new C) False a) d)], Inr ())"
proof -
  have "map_of dest n = None" using assms(2) by (simp add: map_of_eq_None_iff)
  then show ?thesis using assms by (simp add: copy_file_def put_entry_new entry_set_attr_new)
qed

lemma copy_link_new:
  assumes "ct_ok C = (\<lambda>c. True)" "n \<notin> fst ` set dest" "t \<noteq> []" "length t < 4096" "utf8_valid t"
  shows "copy_link C p n a t dest = (dest @ [(n, NLink (copied_attr (ct_new C) True a) t)], Inr ())"
proof -
  have "map_of dest n = None" using assms(2) by (simp add: map_of_eq_None_iff)
  then show ?thesis
    using assms by (simp add: copy_link_def create_symlink_at_def contains_path_def read_link_at_def put_entry_new set_attr_ok)
qed

lemma copy_into_new:
  assumes ok: "ct_ok C = (\<lambda>c. True)" and "tree_ok es" "links_ok es" "fst ` set es \<inter> fst ` set dest = {}"
  shows "copy_into_impl C p es dest = (dest @ copied (ct_new C) es, Inr ())"
  using assms(2-)
proof (induction es arbitrary: p dest rule: tree_ok.induct)
  case (2 n x es)
  have n: "n \<notin> fst ` set dest" "readable n" "n \<notin> fst ` set es" "map_of dest n = None"
    using 2(3,5) by (auto simp: map_of_eq_None_iff)
  have rest: "copy_into_impl C p es (dest @ ys) = ((dest @ ys) @ copied (ct_new C) es, Inr ())" if "fst ` set ys \<subseteq> {n}" for ys
    by (rule 2(2)) (use 2(3-5) n(3) that in auto)
  show ?case
  proof (cases x)
    case (NDir a sub)
    have "copy_into_impl C (p @ [n]) sub [] = (copied (ct_new C) sub, Inr ())"
      using 2(1) [OF NDir, of "[]"] 2(3,4) NDir by simp
    then show ?thesis
      using NDir n ok rest
      by (simp add: mkdir_at_def contains_path_def put_entry_new set_dir_new entry_set_attr_new)
  next
    case (NFile a d)
    then show ?thesis using n ok rest by (simp add: copy_file_new)
  next
    case (NLink a t)
    then show ?thesis using n ok rest 2(4) by (simp add: copy_link_new)
  next
    case (NOther a)
    then show ?thesis using n ok rest [of "[]"] by simp
  qed
qed simp

lemma copy_to_dir:
  assumes "ct_ok C = (\<lambda>c. True)" "tree_ok es" "links_ok es"
  shows "copy_to C p q (Some (NDir a es)) None = (Some (NDir (copied_attr (ct_new C) False a) (copied (ct_new C) es)), Inr ())"
  using assms copy_into_new [of C es "[]" p]
  by (simp add: copy_to_def copy_content_def mkdir_path_def path_set_attr_def set_attr_def chown_con_def copied_attr_def)

section \<open>Moving\<close>

text \<open>The entries that can be moved into a directory by renaming them.\<close>

definition movable :: "'a entries \<Rightarrow> string \<times> 'a node \<Rightarrow> bool" where
  "movable dest = (\<lambda>(n, x). if is_dir x then map_of dest n = None else (case map_of dest n of Some y \<Rightarrow> \<not> is_dir y | None \<Rightarrow> True))"

lemma move_into_loop_all:
  assumes ok: "ct_ok C = (\<lambda>c. True)" and "list_all (movable dest) es" "distinct (map fst es)" "\<forall>(n, x) \<in> set es. readable n"
  shows "\<exists>dest'. move_into_loop C p es src dest = (fold (\<lambda>(n, x). del_entry n) es src, dest', Inr ()) \<and>
    (\<forall>m. map_of dest' m = (case map_of es m of Some x \<Rightarrow> Some x | None \<Rightarrow> map_of dest m))"
  using assms(2-)
proof (induction es arbitrary: src dest)
  case (Cons e es)
  obtain n x where e: "e = (n, x)" by force
  have m: "movable dest (n, x)" "readable n" "n \<notin> fst ` set es" using Cons.prems by (auto simp: e)
  have "movable (put_entry n x dest) y = movable dest y" if "y \<in> set es" for y
  proof -
    have "fst y \<noteq> n" using that m(3) by blast
    then show ?thesis by (cases y) (simp add: movable_def)
  qed
  then have "list_all (movable (put_entry n x dest)) es" using Cons.prems(1) by (simp add: list_all_iff)
  from Cons.IH [OF this, of "del_entry n src"] Cons.prems obtain dest' where
    d: "move_into_loop C p es (del_entry n src) (put_entry n x dest) = (fold (\<lambda>(n, x). del_entry n) es (del_entry n src), dest', Inr ())"
      "\<And>k. map_of dest' k = (case map_of es k of Some y \<Rightarrow> Some y | None \<Rightarrow> map_of (put_entry n x dest) k)"
    by (auto simp: e)
  have "move_into_loop C p (e # es) src dest = (fold (\<lambda>(n, x). del_entry n) (e # es) src, dest', Inr ())"
    using m d(1) ok by (auto simp: e movable_def contains_path_def split: if_splits option.splits)
  moreover have "map_of es n = None" using m(3) by (simp add: map_of_eq_None_iff)
  ultimately show ?case using d(2) by (auto simp: e split: option.split)
qed simp

lemma fold_del: "fold (\<lambda>(n, x). del_entry n) es src = filter (\<lambda>p. fst p \<notin> fst ` set es) src"
  by (induction es arbitrary: src) (auto simp: del_entry_def intro: filter_cong)

section \<open>Properties\<close>

text \<open>
  C17. Copying a directory to a place where nothing is makes the same tree: every file with its content and
  every link with its target, owner, label and permissions as they were.  Only devices, pipes and
  sockets are left out, and set-id and sticky bits.
\<close>

theorem copy_reproduces_tree:
  assumes "ct_ok C = (\<lambda>c. True)" "tree_ok es" "links_ok es"
  shows "copy_to C p q (Some (NDir a es)) None = (Some (NDir (copied_attr (ct_new C) False a) (copied (ct_new C) es)), Inr ())"
  by (rule copy_to_dir [OF assms])

definition demo_attr :: "u32 \<Rightarrow> fs_attr" where
  "demo_attr m = \<lparr>fa_mode = m, fa_uid = 0, fa_gid = 0, fa_con = ''u:object_r:system_file:s0''\<rparr>"

definition demo_copy :: copy_env where
  "demo_copy = \<lparr>ct_ok = (\<lambda>c. True), ct_new = demo_attr 0x1C0, ct_copied = (\<lambda>p. 0), ct_through = (\<lambda>p. Inr ()),
     ct_move = (\<lambda>p es. ([], Inr ())), ct_dir = (\<lambda>t. None)\<rparr>"

theorem copy_reproduces_tree_witness:
  "copy_to demo_copy [''a''] [''b''] (Some (NDir (demo_attr 0x1ED) [(''su'', NFile (demo_attr 0x9ED) ''x''), (''ln'', NLink (demo_attr 0x1FF) ''su'')])) None
     = (Some (NDir (demo_attr 0x1ED) [(''su'', NFile (demo_attr 0x1ED) ''x''), (''ln'', NLink (demo_attr 0x1C0) ''su'')]), Inr ())"
  using copy_reproduces_tree [of demo_copy "[(''su'', NFile (demo_attr 0x9ED) ''x''), (''ln'', NLink (demo_attr 0x1FF) ''su'')]" "[''a'']" "[''b'']" "demo_attr 0x1ED"]
  by (simp add: demo_copy_def demo_attr_def copied_attr_def readable_def utf8_valid_ascii)

text \<open>
  When no directory is on both sides and no file would replace a directory, moving a directory's
  content into another moves every entry, replacing files of the same name, and leaves nothing.
\<close>

theorem move_into_moves_all:
  assumes "ct_ok C = (\<lambda>c. True)" "tree_ok es" "list_all (movable dest) es"
  shows "\<exists>dest'. move_into C es dest = ([], dest', Inr ()) \<and>
    (\<forall>n. map_of dest' n = (case map_of es n of Some x \<Rightarrow> Some x | None \<Rightarrow> map_of dest n))"
proof -
  have "distinct (map fst es) \<and> (\<forall>(n, x) \<in> set es. readable n)" using assms(2) by (induction es rule: tree_ok.induct) auto
  moreover have "filter (\<lambda>p. fst p \<notin> fst ` set es) es = []" by (auto simp: filter_empty_conv)
  ultimately show ?thesis
    using move_into_loop_all [OF assms(1,3), of "[]" es] by (auto simp: move_into_def fold_del)
qed

theorem move_into_moves_all_witness:
  "\<exists>dest'. move_into demo_copy [(''a'', NFile (demo_attr 0) ''1''), (''d'', NDir (demo_attr 0) [])] [(''a'', NFile (demo_attr 0) ''0'')]
     = ([], dest', Inr ()) \<and> map_of dest' ''a'' = Some (NFile (demo_attr 0) ''1'')"
  using move_into_moves_all [of demo_copy "[(''a'', NFile (demo_attr 0) ''1''), (''d'', NDir (demo_attr 0) [])]" "[(''a'', NFile (demo_attr 0) ''0'')]"]
  by (auto simp: demo_copy_def movable_def readable_def utf8_valid_ascii)

text \<open>
  C38. A directory that exists on both sides ends the move: its content is merged, the entries read after it
  stay where they are, and the move still reports success.
\<close>

theorem move_into_stops:
  assumes "ct_ok C = (\<lambda>c. True)" "tree_ok ((d, NDir a sub) # es)" "map_of dest d = Some (NDir b old)" "list_all (movable old) sub"
  shows "\<exists>new. move_into C ((d, NDir a sub) # es) dest = (es, set_dir d new dest, Inr ())"
proof -
  have sub: "distinct (map fst sub) \<and> (\<forall>(n, x) \<in> set sub. readable n)" if "tree_ok sub" for sub :: "fs_attr entries"
    using that by (induction sub rule: tree_ok.induct) auto
  have "filter (\<lambda>p. fst p \<notin> fst ` set sub) sub = []" by (auto simp: filter_empty_conv)
  then obtain new where "move_into_loop C [d] sub sub old = ([], new, Inr ())"
    using move_into_loop_all [OF assms(1,4), of "[d]" sub] sub [of sub] assms(2) by (auto simp: fold_del)
  moreover have "del_entry d ((d, NDir a sub) # es) = es"
    using assms(2) by (auto simp: del_entry_def filter_id_conv)
  ultimately show ?thesis using assms(1-3) by (auto simp: move_into_def contains_path_def)
qed

theorem move_into_stops_witness:
  "\<exists>new. move_into demo_copy [(''d'', NDir (demo_attr 0) []), (''f'', NFile (demo_attr 0) ''lost'')] [(''d'', NDir (demo_attr 0) [])]
     = ([(''f'', NFile (demo_attr 0) ''lost'')], set_dir ''d'' new [(''d'', NDir (demo_attr 0) [])], Inr ())"
  by (rule move_into_stops) (simp_all add: demo_copy_def readable_def utf8_valid_ascii)

end
