(* ===== verification/Selinux.thy ===== *)
theory Selinux
  imports FileTree
begin

unbundle bit_operations_syntax

text \<open>
  The security labels the daemon restores (core/selinux.rs), on trees of files.  Which calls succeed is a
  parameter.
\<close>

section \<open>Labels\<close>

definition UNLABEL_CON :: string where "UNLABEL_CON = ''u:object_r:unlabeled:s0''"
definition SYSTEM_CON :: string where "SYSTEM_CON = ''u:object_r:system_file:s0''"
definition ADB_CON :: string where "ADB_CON = ''u:object_r:adb_data_file:s0''"
definition ROOT_CON :: string where "ROOT_CON = ''u:object_r:rootfs:s0''"
abbreviation MAGISK_LOG_CON :: string where "MAGISK_LOG_CON \<equiv> ''u:object_r:magisk_log_file:s0''"
abbreviation LOG_PIPE :: string where "LOG_PIPE \<equiv> ''.magisk/device/log''"

text \<open>Reading a label into a buffer: the attribute has a terminator and must fit.\<close>

definition get_secontext :: "copy_env \<Rightarrow> path \<Rightarrow> nat \<Rightarrow> fs_attr \<Rightarrow> string res" where
  "get_secontext C p cap a =
     (if \<not> ct_ok C (CcAttr p) \<or> cap \<le> length (fa_con a) then Inl LoggedError
      else Inr (if utf8_valid (fa_con a) then fa_con a else []))"

definition set_secontext :: "copy_env \<Rightarrow> path \<Rightarrow> string \<Rightarrow> fs_attr \<Rightarrow> fs_attr \<times> unit res" where
  "set_secontext C p con a = (if ct_ok C (CcSetCon p) then (a\<lparr>fa_con := con\<rparr>, Inr ()) else (a, Inl LoggedError))"

text \<open>The part both passes do for what has the label \<open>unlabeled\<close>.\<close>

definition relabel_one :: "copy_env \<Rightarrow> path \<Rightarrow> fs_attr \<Rightarrow> fs_attr \<times> unit res" where
  "relabel_one C p a = (if get_secontext C p 1024 a = Inr UNLABEL_CON then set_secontext C p SYSTEM_CON a else (a, Inr ()))"

fun restore_syscon_from_unlabeled :: "copy_env \<Rightarrow> path \<Rightarrow> fs_attr \<Rightarrow> fs_attr entries \<Rightarrow> (fs_attr \<times> fs_attr entries) \<times> unit res"
  and unlabeled_entries :: "copy_env \<Rightarrow> path \<Rightarrow> fs_attr entries \<Rightarrow> fs_attr entries \<times> unit res" where
  "restore_syscon_from_unlabeled C p a es =
     (case relabel_one C p a of
        (a, Inl e) \<Rightarrow> ((a, es), Inl e)
      | (a, Inr _) \<Rightarrow>
          if \<not> ct_ok C (CcOpenSrc p) then ((a, es), Inl LoggedError)
          else let (es, r) = unlabeled_entries C p es in ((a, es), r))"
| "unlabeled_entries C p [] = ([], Inr ())"
| "unlabeled_entries C p ((n, x) # es) =
     (let (x, r) =
        (if \<not> readable n then (x, Inr ())
         else
           case x of
             NDir a sub \<Rightarrow> let ((a, sub), r) = restore_syscon_from_unlabeled C (p @ [n]) a sub in (NDir a sub, r)
           | NFile a d \<Rightarrow> let (a, r) = relabel_one C (p @ [n]) a in (NFile a d, r)
           | NLink a t \<Rightarrow> let (a, r) = relabel_one C (p @ [n]) a in (NLink a t, r)
           | NOther a \<Rightarrow> (x, Inr ()))
      in case r of
           Inl e \<Rightarrow> ((n, x) # es, Inl e)
         | Inr _ \<Rightarrow> let (es, r) = unlabeled_entries C p es in ((n, x) # es, r))"

definition own_system :: "copy_env \<Rightarrow> path \<Rightarrow> fs_attr \<Rightarrow> fs_attr \<times> unit res" where
  "own_system C p a =
     (case set_secontext C p SYSTEM_CON a of
        (a, Inl e) \<Rightarrow> (a, Inl e)
      | (a, Inr _) \<Rightarrow> (if ct_ok C (CcChown p) then a\<lparr>fa_uid := 0, fa_gid := 0\<rparr> else a, Inr ()))"

fun restore_syscon :: "copy_env \<Rightarrow> path \<Rightarrow> fs_attr \<Rightarrow> fs_attr entries \<Rightarrow> (fs_attr \<times> fs_attr entries) \<times> unit res"
  and syscon_entries :: "copy_env \<Rightarrow> path \<Rightarrow> fs_attr entries \<Rightarrow> fs_attr entries \<times> unit res" where
  "restore_syscon C p a es =
     (case own_system C p a of
        (a, Inl e) \<Rightarrow> ((a, es), Inl e)
      | (a, Inr _) \<Rightarrow>
          if \<not> ct_ok C (CcOpenSrc p) then ((a, es), Inl LoggedError)
          else let (es, r) = syscon_entries C p es in ((a, es), r))"
| "syscon_entries C p [] = ([], Inr ())"
| "syscon_entries C p ((n, x) # es) =
     (let (x, r) =
        (if \<not> readable n then (x, Inr ())
         else
           case x of
             NDir a sub \<Rightarrow> let ((a, sub), r) = restore_syscon C (p @ [n]) a sub in (NDir a sub, r)
           | NFile a d \<Rightarrow> let (a, r) = own_system C (p @ [n]) a in (NFile a d, r)
           | NLink a t \<Rightarrow> let (a, r) = own_system C (p @ [n]) a in (NLink a t, r)
           | NOther a \<Rightarrow> (x, Inr ()))
      in case r of
           Inl e \<Rightarrow> ((n, x) # es, Inl e)
         | Inr _ \<Rightarrow> let (es, r) = syscon_entries C p es in ((n, x) # es, r))"

section \<open>Places in the file system\<close>

text \<open>
  What is at an absolute path, given by its components, and the tree with something else there.  A path
  whose directory does not exist names nothing and nothing can be put there.
\<close>

fun node_at :: "path \<Rightarrow> 'a node \<Rightarrow> 'a node option" where
  "node_at [] x = Some x"
| "node_at (n # p) x = (case x of NDir a es \<Rightarrow> (case map_of es n of Some y \<Rightarrow> node_at p y | None \<Rightarrow> None) | _ \<Rightarrow> None)"

fun set_at :: "path \<Rightarrow> 'a node option \<Rightarrow> 'a node \<Rightarrow> 'a node" where
  "set_at [] v x = (case v of Some y \<Rightarrow> y | None \<Rightarrow> x)"
| "set_at (n # p) v x =
     (case x of
        NDir a es \<Rightarrow>
          if p = [] then NDir a (case v of Some y \<Rightarrow> put_entry n y es | None \<Rightarrow> del_entry n es)
          else (case map_of es n of Some y \<Rightarrow> NDir a (put_entry n (set_at p v y) es) | None \<Rightarrow> x)
      | _ \<Rightarrow> x)"

definition change_at :: "path \<Rightarrow> ('a node option \<Rightarrow> 'a node option) \<Rightarrow> 'a node \<Rightarrow> 'a node" where
  "change_at p f root = set_at p (f (node_at p root)) root"

definition change_attr :: "path \<Rightarrow> ('a \<Rightarrow> 'a) \<Rightarrow> 'a node \<Rightarrow> 'a node" where
  "change_attr p f root = change_at p (map_option (\<lambda>x. with_attr (f (node_attr x)) x)) root"

definition SECURE_DIR :: path where "SECURE_DIR = [''data'', ''adb'']"
definition MODULEROOT_PATH :: path where "MODULEROOT_PATH = [''data'', ''adb'', ''modules'']"
definition DATABIN :: path where "DATABIN = [''data'', ''adb'', ''magisk'']"
definition MAGISKDB :: path where "MAGISKDB = [''data'', ''adb'', ''magisk.db'']"

definition chmod :: "copy_env \<Rightarrow> path \<Rightarrow> u32 \<Rightarrow> fs_attr node \<Rightarrow> fs_attr node" where
  "chmod C p mode root =
     (case node_at p root of
        Some x \<Rightarrow> if ct_ok C (CcChmod p) \<and> \<not> is_symlink x then change_attr p (\<lambda>a. a\<lparr>fa_mode := mode\<rparr>) root else root
      | None \<Rightarrow> root)"

text \<open>\<open>knows_adb\<close>: the policy accepts the label of the directory.\<close>

definition restorecon :: "copy_env \<Rightarrow> bool \<Rightarrow> fs_attr node \<Rightarrow> fs_attr node" where
  "restorecon C knows_adb root =
     (let root = (if knows_adb then change_attr SECURE_DIR (\<lambda>a. fst (set_secontext C SECURE_DIR ADB_CON a)) root else root);
          root = change_attr MODULEROOT_PATH (\<lambda>a. fst (set_secontext C MODULEROOT_PATH SYSTEM_CON a)) root;
          root = change_at MODULEROOT_PATH (map_option (\<lambda>x. case x of
                   NDir a es \<Rightarrow> let (a, es) = fst (restore_syscon_from_unlabeled C MODULEROOT_PATH a es) in NDir a es
                 | _ \<Rightarrow> with_attr (fst (relabel_one C MODULEROOT_PATH (node_attr x))) x)) root;
          root = change_at DATABIN (map_option (\<lambda>x. case x of
                   NDir a es \<Rightarrow> let (a, es) = fst (restore_syscon C DATABIN a es) in NDir a es
                 | _ \<Rightarrow> with_attr (fst (own_system C DATABIN (node_attr x))) x)) root
      in chmod C MAGISKDB 0 root)"

text \<open>The directory of Magisk itself; its entries are named by the paths of their descriptors.\<close>

fun label_entries :: "copy_env \<Rightarrow> path \<Rightarrow> fs_attr entries \<Rightarrow> fs_attr entries \<times> unit res" where
  "label_entries C p [] = ([], Inr ())"
| "label_entries C p ((n, x) # es) =
     (if \<not> readable n \<or> is_symlink x then let (es, r) = label_entries C p es in ((n, x) # es, r)
      else if \<not> ct_ok C (CcPath (p @ [n])) then ((n, x) # es, Inl LoggedError)
      else
        let x = with_attr (fst (set_secontext C (p @ [n]) SYSTEM_CON (node_attr x))) x;
            (es, r) = label_entries C p es
        in ((n, x) # es, r))"

definition restore_tmpcon :: "copy_env \<Rightarrow> path \<Rightarrow> path \<Rightarrow> fs_attr node \<Rightarrow> fs_attr node \<times> unit res" where
  "restore_tmpcon C tmp log_pipe root =
     (let (root, r) =
        (if tmp = [''sbin''] then
           (if node_at tmp root \<noteq> None \<and> ct_ok C (CcSetCon tmp)
            then (change_attr tmp (\<lambda>a. a\<lparr>fa_con := ROOT_CON\<rparr>) root, Inr ()) else (root, Inl LoggedError))
         else (chmod C tmp 0x1C9 root, Inr ()))
      in case r of
           Inl e \<Rightarrow> (root, Inl e)
         | Inr _ \<Rightarrow>
             (case node_at tmp root of
                Some (NDir a es) \<Rightarrow>
                  if \<not> ct_ok C (CcOpenSrc tmp) then (root, Inl LoggedError)
                  else
                    let (es, r) = label_entries C tmp es; root = set_at tmp (Some (NDir a es)) root
                    in (case r of
                          Inl e \<Rightarrow> (root, Inl e)
                        | Inr _ \<Rightarrow>
                            if node_at log_pipe root \<noteq> None \<and> ct_ok C (CcSetCon log_pipe)
                            then (change_attr log_pipe (\<lambda>a. a\<lparr>fa_con := MAGISK_LOG_CON\<rparr>) root, Inr ())
                            else (root, Inl LoggedError))
              | _ \<Rightarrow> (root, Inl LoggedError)))"

section \<open>Facts about places\<close>

lemma node_at_append: "node_at (p @ q) x = (case node_at p x of Some y \<Rightarrow> node_at q y | None \<Rightarrow> None)"
  by (induction p x rule: node_at.induct) (auto split: node.split option.split)

lemma node_at_set_same:
  assumes "p \<noteq> []" "node_at (butlast p) x = Some (NDir a es)"
  shows "node_at p (set_at p v x) = v"
  using assms
proof (induction p v x rule: set_at.induct)
  case (2 n p v x)
  then show ?case by (cases x; cases "p = []") (auto split: option.splits)
qed simp

lemma node_at_set_other:
  assumes "\<not> prefix p q" "\<not> prefix q p"
  shows "node_at q (set_at p v x) = node_at q x"
  using assms
proof (induction p v x arbitrary: q rule: set_at.induct)
  case (2 n p v x)
  then obtain m q' where q: "q = m # q'" by (cases q) auto
  show ?case
  proof (cases x)
    case (NDir a es)
    show ?thesis
    proof (cases "m = n")
      case True
      then have "p \<noteq> []" "\<not> prefix p q'" "\<not> prefix q' p" using "2.prems" q by auto
      then show ?thesis using "2.IH" [of a es] NDir True q by (auto split: option.split)
    next
      case False
      then show ?thesis using NDir q by (auto split: option.split)
    qed
  qed (simp_all add: q)
qed simp

lemmas place_simps = node_at_set_same node_at_set_other

section \<open>What the passes do\<close>

text \<open>A change of the attributes of all files, directories and links that have a readable name.\<close>

fun map_attrs :: "('a \<Rightarrow> 'a) \<Rightarrow> 'a entries \<Rightarrow> 'a entries" where
  "map_attrs f [] = []"
| "map_attrs f ((n, x) # es) =
     (n, if \<not> readable n then x
         else case x of NDir a sub \<Rightarrow> NDir (f a) (map_attrs f sub) | NOther a \<Rightarrow> x | _ \<Rightarrow> with_attr (f (node_attr x)) x) # map_attrs f es"

definition as_system :: "fs_attr \<Rightarrow> fs_attr" where
  "as_system a = a\<lparr>fa_con := SYSTEM_CON, fa_uid := 0, fa_gid := 0\<rparr>"

definition labelled :: "fs_attr \<Rightarrow> fs_attr" where
  "labelled a = (if fa_con a = UNLABEL_CON then a\<lparr>fa_con := SYSTEM_CON\<rparr> else a)"

lemma own_system_ok: "ct_ok C = (\<lambda>c. True) \<Longrightarrow> own_system C p a = (as_system a, Inr ())"
  by (simp add: own_system_def set_secontext_def as_system_def)

lemma relabel_one_ok: "ct_ok C = (\<lambda>c. True) \<Longrightarrow> relabel_one C p a = (labelled a, Inr ())"
  by (auto simp: relabel_one_def get_secontext_def set_secontext_def labelled_def UNLABEL_CON_def utf8_valid_ascii)

lemma syscon_entries_ok: "ct_ok C = (\<lambda>c. True) \<Longrightarrow> syscon_entries C p es = (map_attrs as_system es, Inr ())"
proof (induction as_system es arbitrary: p rule: map_attrs.induct)
  case (2 n x es)
  then show ?case by (cases x) (simp_all add: own_system_ok)
qed simp

lemma unlabeled_entries_ok: "ct_ok C = (\<lambda>c. True) \<Longrightarrow> unlabeled_entries C p es = (map_attrs labelled es, Inr ())"
proof (induction labelled es arbitrary: p rule: map_attrs.induct)
  case (2 n x es)
  then show ?case by (cases x) (simp_all add: relabel_one_ok)
qed simp

section \<open>Properties\<close>

text \<open>
  The restoration of the labels gives the directory of the programs and everything below it the system
  label and the owner root, and below the directory of the modules changes exactly the files that have no
  label; content, permissions and names stay, and special files and unreadable names are left alone.
\<close>

theorem labels_restored:
  assumes "ct_ok C = (\<lambda>c. True)"
  shows "restore_syscon C p a es = ((as_system a, map_attrs as_system es), Inr ()) \<and>
    restore_syscon_from_unlabeled C p a es = ((labelled a, map_attrs labelled es), Inr ())"
  by (simp add: assms own_system_ok relabel_one_ok syscon_entries_ok unlabeled_entries_ok)

theorem labels_restored_witness:
  "restore_syscon demo_copy [''d''] (demo_attr 0) [(''f'', NFile ((demo_attr 5)\<lparr>fa_con := UNLABEL_CON, fa_uid := 7\<rparr>) ''x'')]
     = ((demo_attr 0, [(''f'', NFile (demo_attr 5) ''x'')]), Inr ())"
  using labels_restored [of demo_copy "[''d'']" "demo_attr 0" "[(''f'', NFile ((demo_attr 5)\<lparr>fa_con := UNLABEL_CON, fa_uid := 7\<rparr>) ''x'')]"]
  by (simp add: demo_copy_def as_system_def demo_attr_def SYSTEM_CON_def readable_def utf8_valid_ascii)

end
