(* ===== verification/Mount.thy ===== *)
theory Mount
  imports ResetProp
begin

unbundle bit_operations_syntax

text \<open>
  The mount helpers (base/mount.rs) and the mounts the daemon makes itself (core/mount.rs): finding the
  preinit device and its directory, the mount of the modules, the clean-up after mounting, and undoing
  the mounts for a process on the deny list.  System calls are values, returned in order; which of them
  succeed, the C++ function that picks the preinit directory of a mount point and the mount table are
  parameters.
\<close>

section \<open>Mount calls\<close>

datatype sys_call =
    SysMount "string option" string u64 "string option"
  | SysUmount string u64
  | SysMkdir string u32
  | SysMkdirs string u32
  | SysRemove string
  | SysSymlink string string
  | SysMknod string u64

definition MS_RDONLY :: u64 where "MS_RDONLY = 0x1"
definition MS_REMOUNT :: u64 where "MS_REMOUNT = 0x20"
definition MS_BIND :: u64 where "MS_BIND = 0x1000"
definition MS_MOVE :: u64 where "MS_MOVE = 0x2000"
definition MS_REC :: u64 where "MS_REC = 0x4000"
definition MS_PRIVATE :: u64 where "MS_PRIVATE = 0x40000"
definition MNT_DETACH :: u64 where "MNT_DETACH = 0x2"

definition bind_mount_to :: "string \<Rightarrow> string \<Rightarrow> bool \<Rightarrow> sys_call" where
  "bind_mount_to src path rec = SysMount (Some src) path ((if rec then MS_REC else 0) OR MS_BIND) None"

definition remount_mount_point_flags :: "string \<Rightarrow> u64 \<Rightarrow> sys_call" where
  "remount_mount_point_flags path flags = SysMount None path (MS_BIND OR MS_REMOUNT OR flags) None"

definition remount_mount_flags :: "string \<Rightarrow> u64 \<Rightarrow> sys_call" where
  "remount_mount_flags path flags = SysMount None path (MS_REMOUNT OR flags) None"

definition remount_with_data :: "string \<Rightarrow> string \<Rightarrow> sys_call" where
  "remount_with_data path data = SysMount None path MS_REMOUNT (Some data)"

definition move_mount_to :: "string \<Rightarrow> string \<Rightarrow> sys_call" where
  "move_mount_to src path = SysMount (Some src) path MS_MOVE None"

definition unmount :: "string \<Rightarrow> sys_call" where
  "unmount path = SysUmount path MNT_DETACH"

definition set_mount_private :: "string \<Rightarrow> bool \<Rightarrow> sys_call" where
  "set_mount_private path rec = SysMount None path ((if rec then MS_REC else 0) OR MS_PRIVATE) None"

text \<open>A block of calls: the first that fails ends it, unless its result is ignored.\<close>

datatype step_kind = Required | Ignored

fun run_steps :: "(sys_call \<Rightarrow> bool) \<Rightarrow> (step_kind \<times> sys_call) list \<Rightarrow> sys_call list \<times> bool" where
  "run_steps os [] = ([], True)"
| "run_steps os ((k, c) # cs) =
     (if k = Required \<and> \<not> os c then ([c], False)
      else let (done, ok) = run_steps os cs in (c # done, ok))"

definition buf_path :: "nat \<Rightarrow> string list \<Rightarrow> string" where
  "buf_path n cs = fixed_as_str (fold (\<lambda>c b. append_path_impl fixed_ops b c) cs (arr_new n))"

abbreviation PREINITDEV :: string where "PREINITDEV \<equiv> ''.magisk/device/preinit''"
abbreviation PREINITMIRR :: string where "PREINITMIRR \<equiv> ''.magisk/preinit''"
abbreviation MODULEMNT_STR :: string where "MODULEMNT_STR \<equiv> ''.magisk/modules''"
abbreviation WORKERDIR_STR :: string where "WORKERDIR_STR \<equiv> ''.magisk/worker''"
abbreviation MODULEROOT_STR :: string where "MODULEROOT_STR \<equiv> ''/data/adb/modules''"

section \<open>Mounts of the daemon\<close>

definition is_rw :: "mount_info \<Rightarrow> bool" where
  "is_rw info \<longleftrightarrow> ''rw'' \<in> set (split_on (CHR '','') (mi_fs_option info))"

fun preinit_loop :: "(sys_call \<Rightarrow> bool) \<Rightarrow> (string \<Rightarrow> string) \<Rightarrow> string \<Rightarrow> u64 \<Rightarrow> mount_info list \<Rightarrow> sys_call list \<times> string option" where
  "preinit_loop os resolve_preinit_dir mnt_path preinit_dev [] = ([], None)"
| "preinit_loop os resolve_preinit_dir mnt_path preinit_dev (info # infos) =
     (if mi_root info = ''/'' \<and> mi_device info = preinit_dev \<and> is_rw info then
        let preinit_dir = resolve_preinit_dir (mi_target info);
            (calls, ok) = run_steps os
              [(Required, SysMkdir preinit_dir 448), (Required, SysMkdirs mnt_path 493), (Ignored, SysRemove mnt_path),
               (Required, SysSymlink mnt_path preinit_dir)]
        in if ok then (calls, Some preinit_dir)
           else let (more, r) = preinit_loop os resolve_preinit_dir mnt_path preinit_dev infos in (calls @ more, r)
      else preinit_loop os resolve_preinit_dir mnt_path preinit_dev infos)"

text \<open>\<open>block_device\<close> is the device number of a path that names a block device.\<close>

definition setup_preinit_dir :: "(sys_call \<Rightarrow> bool) \<Rightarrow> (string \<Rightarrow> string) \<Rightarrow> (string \<Rightarrow> u64 option) \<Rightarrow> string \<Rightarrow> mount_info list \<Rightarrow> sys_call list \<times> string option" where
  "setup_preinit_dir os resolve_preinit_dir block_device magisk_tmp infos =
     (case block_device (buf_path 64 [magisk_tmp, PREINITDEV]) of
        Some preinit_dev \<Rightarrow> preinit_loop os resolve_preinit_dir (buf_path 4096 [magisk_tmp, PREINITMIRR]) preinit_dev infos
      | None \<Rightarrow> ([], None))"

definition setup_module_mount :: "(sys_call \<Rightarrow> bool) \<Rightarrow> string \<Rightarrow> sys_call list" where
  "setup_module_mount os magisk_tmp =
     (let module_mnt = buf_path 4096 [magisk_tmp, MODULEMNT_STR]
      in fst (run_steps os
           [(Required, SysMkdir module_mnt 493), (Required, bind_mount_to MODULEROOT_STR module_mnt False),
            (Required, remount_mount_point_flags module_mnt MS_RDONLY)]))"

definition clean_mounts :: "(sys_call \<Rightarrow> bool) \<Rightarrow> string \<Rightarrow> sys_call list" where
  "clean_mounts os magisk_tmp =
     (let module_mnt = buf_path 4096 [magisk_tmp, MODULEMNT_STR];
          worker_dir = buf_path 4096 [magisk_tmp, WORKERDIR_STR]
      in unmount module_mnt # fst (run_steps os [(Required, set_mount_private worker_dir True), (Required, unmount worker_dir)]))"

section \<open>The preinit device\<close>

datatype part_id = Data | Cache | Metadata | Persist

fun part_rank :: "part_id \<Rightarrow> nat" where
  "part_rank Data = 0"
| "part_rank Cache = 1"
| "part_rank Metadata = 2"
| "part_rank Persist = 3"

lemma part_rank_inj: "part_rank a = part_rank b \<Longrightarrow> a = b"
  by (cases a; cases b) simp_all

text \<open>The derived order.\<close>

instantiation part_id :: linorder
begin

definition less_eq_part_id :: "part_id \<Rightarrow> part_id \<Rightarrow> bool" where
  "less_eq_part_id a b \<longleftrightarrow> part_rank a \<le> part_rank b"

definition less_part_id :: "part_id \<Rightarrow> part_id \<Rightarrow> bool" where
  "less_part_id a b \<longleftrightarrow> part_rank a < part_rank b"

instance
  by standard (auto simp: less_eq_part_id_def less_part_id_def intro: part_rank_inj)

end

datatype encrypt_type = ENone | EBlock | EFile | EMetadata

definition encrypt_type_of :: "'a sys_prop \<Rightarrow> persist_env \<Rightarrow> 'a prop_state \<Rightarrow> encrypt_type" where
  "encrypt_type_of P V s =
     (if get_prop P V s ''ro.crypto.state'' \<noteq> ''encrypted'' then ENone
      else if get_prop P V s ''ro.crypto.type'' = ''block'' then EBlock
      else if get_prop P V s ''ro.crypto.metadata.enabled'' = ''true'' then EMetadata
      else EFile)"

definition path_comps :: "string \<Rightarrow> string list" where
  "path_comps p = filter (\<lambda>c. c \<noteq> [] \<and> c \<noteq> ''.'') (split_on (CHR ''/'') p)"

definition path_ends_with :: "string \<Rightarrow> string \<Rightarrow> bool" where
  "path_ends_with p name \<longleftrightarrow> path_comps p \<noteq> [] \<and> last (path_comps p) = name"

definition usable_source :: "mount_info \<Rightarrow> bool" where
  "usable_source info \<longleftrightarrow>
     mi_root info = ''/'' \<and> prefix ''/'' (mi_source info) \<and> find_sub ''/dm-'' (mi_source info) = None \<and>
     mi_fs_type info \<in> {''ext4'', ''f2fs''} \<and> is_rw info \<and>
     (case parent_dir (mi_source info) of
        Some p \<Rightarrow> path_ends_with p ''by-name'' \<or> path_ends_with p ''block''
      | None \<Rightarrow> False)"

definition matched :: "encrypt_type \<Rightarrow> mount_info \<Rightarrow> (part_id \<times> mount_info) option" where
  "matched e info =
     (if \<not> usable_source info then None
      else if mi_target info \<in> {''/persist'', ''/mnt/vendor/persist''} then Some (Persist, info)
      else if mi_target info = ''/metadata'' then Some (Metadata, info)
      else if mi_target info = ''/cache'' then Some (Cache, info)
      else if mi_target info = ''/data'' \<and> e \<in> {ENone, EFile} then Some (Data, info)
      else None)"

definition is_ext4 :: "mount_info \<Rightarrow> bool" where
  "is_ext4 info \<longleftrightarrow> mi_fs_type info = ''ext4''"

text \<open>Whether the comparison function of \<open>find_preinit_device\<close> gives \<open>Less\<close>.\<close>

definition preinit_less :: "part_id \<times> mount_info \<Rightarrow> part_id \<times> mount_info \<Rightarrow> bool" where
  "preinit_less = (\<lambda>(ap, a) (bp, b).
     if ap = Metadata \<and> is_ext4 b \<or> bp = Metadata \<and> is_ext4 a then ap < bp
     else if is_ext4 a \<and> \<not> is_ext4 b then True
     else if \<not> is_ext4 a \<and> is_ext4 b then False
     else ap < bp)"

text \<open>
  \<open>select_nth_unstable_by(0)\<close>: the library goes through the slice once and keeps the element that is less
  than the one kept so far.
\<close>

fun min_by :: "('a \<Rightarrow> 'a \<Rightarrow> bool) \<Rightarrow> 'a \<Rightarrow> 'a list \<Rightarrow> 'a" where
  "min_by lt acc [] = acc"
| "min_by lt acc (x # xs) = min_by lt (if lt x acc then x else acc) xs"

definition preinit_info :: "encrypt_type \<Rightarrow> mount_info list \<Rightarrow> (part_id \<times> mount_info) option" where
  "preinit_info e infos =
     (case List.map_filter (matched e) infos of
        [] \<Rightarrow> None
      | x # xs \<Rightarrow> Some (min_by preinit_less x xs))"

record preinit_env =
  pe_is_root :: bool
  pe_magisktmp :: "string option"
  pe_makedev :: bool

definition find_preinit_device :: "(sys_call \<Rightarrow> bool) \<Rightarrow> (string \<Rightarrow> string) \<Rightarrow> preinit_env \<Rightarrow> encrypt_type \<Rightarrow> mount_info list \<Rightarrow> sys_call list \<times> string" where
  "find_preinit_device os resolve_preinit_dir G e infos =
     (case preinit_info e infos of
        None \<Rightarrow> ([], [])
      | Some (part, info) \<Rightarrow>
          let preinit_dir = resolve_preinit_dir (mi_target info);
              calls =
                (case pe_magisktmp G of
                   Some tmp \<Rightarrow>
                     if pe_is_root G \<and> tmp \<noteq> [] then
                       let mirror_dir = buf_path 4096 [tmp, PREINITMIRR]
                       in fst (run_steps os
                            [(Required, SysMkdirs preinit_dir 448), (Required, SysMkdirs mirror_dir 493),
                             (Ignored, unmount mirror_dir), (Ignored, SysRemove mirror_dir),
                             (Required, SysSymlink mirror_dir preinit_dir)])
                          @ (if pe_makedev G then [SysMknod (buf_path 4096 [tmp, PREINITDEV]) (mi_device info)] else [])
                     else []
                 | None \<Rightarrow> [])
          in (calls, case file_name (mi_source info) of Some n \<Rightarrow> n | None \<Rightarrow> []))"

section \<open>Undoing the mounts\<close>

definition is_magisk_mount :: "mount_info \<Rightarrow> bool" where
  "is_magisk_mount info \<longleftrightarrow> mi_source info = ''magisk'' \<or> prefix ''/adb/modules'' (mi_root info)"

definition path_starts_with :: "string \<Rightarrow> string \<Rightarrow> bool" where
  "path_starts_with p base \<longleftrightarrow> (prefix ''/'' base \<longleftrightarrow> prefix ''/'' p) \<and> prefix (path_comps base) (path_comps p)"

fun retain_roots :: "string option \<Rightarrow> string list \<Rightarrow> string list" where
  "retain_roots prev [] = []"
| "retain_roots prev (t # ts) =
     (case prev of
        Some p \<Rightarrow> if path_starts_with t p then retain_roots prev ts else t # retain_roots (Some t) ts
      | None \<Rightarrow> t # retain_roots (Some t) ts)"

definition revert_targets :: "mount_info list \<Rightarrow> string list" where
  "revert_targets infos = retain_roots None (sort (map mi_target (filter is_magisk_mount infos)))"

text \<open>\<open>switch_mnt_ns\<close> enters the mount namespace of a process; then its mount table is read.\<close>

definition revert_unmount :: "(int \<Rightarrow> bool) \<Rightarrow> (int \<Rightarrow> mount_info list) \<Rightarrow> int \<Rightarrow> sys_call list" where
  "revert_unmount switch_mnt_ns mounts_of pid =
     (if 0 < pid \<and> \<not> switch_mnt_ns pid then [] else map unmount (revert_targets (mounts_of pid)))"

section \<open>Lemmas\<close>

lemma min_by_in: "min_by lt acc xs \<in> insert acc (set xs)"
  by (induction xs arbitrary: acc) (auto split: if_splits)

text \<open>With a comparison that follows a key the least key is found.\<close>

lemma min_by_least:
  fixes key :: "'a \<Rightarrow> 'k::linorder"
  assumes "\<And>x y. x \<in> insert acc (set xs) \<Longrightarrow> y \<in> insert acc (set xs) \<Longrightarrow> lt x y \<longleftrightarrow> key x < key y" "z \<in> insert acc (set xs)"
  shows "key (min_by lt acc xs) \<le> key z"
  using assms
proof (induction xs arbitrary: acc z)
  case (Cons x xs)
  let ?acc = "if lt x acc then x else acc"
  have lt: "lt x acc \<longleftrightarrow> key x < key acc" using Cons.prems(1) by simp
  have IH: "key (min_by lt ?acc xs) \<le> key y" if "y \<in> insert ?acc (set xs)" for y
    using Cons.IH [of ?acc y] Cons.prems(1) that by (auto split: if_splits)
  show ?case using IH [of ?acc] IH [of z] Cons.prems(2) lt by (auto split: if_splits)
qed simp

definition f2fs_metadata :: "part_id \<times> mount_info \<Rightarrow> bool" where
  "f2fs_metadata x \<longleftrightarrow> fst x = Metadata \<and> \<not> is_ext4 (snd x)"

definition preinit_key :: "part_id \<times> mount_info \<Rightarrow> nat" where
  "preinit_key x = (if is_ext4 (snd x) then 0 else 4) + part_rank (fst x)"

lemma part_rank_bound: "part_rank p < 4"
  by (cases p) simp_all

lemma preinit_less_key:
  assumes "\<not> f2fs_metadata x" "\<not> f2fs_metadata y"
  shows "preinit_less x y \<longleftrightarrow> preinit_key x < preinit_key y"
  using assms part_rank_bound [of "fst x"] part_rank_bound [of "fst y"]
  by (cases x; cases y) (auto simp: preinit_less_def f2fs_metadata_def preinit_key_def less_part_id_def)

lemma preinit_key_le:
  assumes "preinit_key c \<le> preinit_key x"
  shows "(is_ext4 (snd x) \<longrightarrow> is_ext4 (snd c)) \<and> (is_ext4 (snd x) = is_ext4 (snd c) \<longrightarrow> fst c \<le> fst x)"
  using assms part_rank_bound [of "fst x"] by (auto simp: preinit_key_def less_eq_part_id_def split: if_splits)

lemma retain_roots_subset: "set (retain_roots prev ts) \<subseteq> set ts"
  by (induction ts arbitrary: prev) (auto split: option.splits if_splits)

lemma starts_with_refl [simp]: "path_starts_with p p"
  by (simp add: path_starts_with_def)

lemma retain_roots_cover:
  "t \<in> set ts \<Longrightarrow> \<exists>r. (r \<in> set (retain_roots prev ts) \<or> Some r = prev) \<and> path_starts_with t r"
proof (induction ts arbitrary: prev)
  case (Cons x ts)
  show ?case
  proof (cases prev)
    case None
    then show ?thesis using Cons.IH [of "Some x"] Cons.prems by auto
  next
    case (Some p)
    then show ?thesis using Cons.IH [of "Some x"] Cons.IH [of "Some p"] Cons.prems by (auto split: if_splits)
  qed
qed simp

section \<open>Properties\<close>

text \<open>
  Unless the metadata partition is on f2fs, the preinit device is the usable mount that comes first in
  the order ext4 before f2fs, then data, cache, metadata, persist.
\<close>

theorem preinit_device_least:
  assumes "preinit_info e infos = Some c" "\<forall>x \<in> set (List.map_filter (matched e) infos). \<not> f2fs_metadata x"
  shows "c \<in> set (List.map_filter (matched e) infos) \<and>
    (\<forall>x \<in> set (List.map_filter (matched e) infos).
       (is_ext4 (snd x) \<longrightarrow> is_ext4 (snd c)) \<and> (is_ext4 (snd x) = is_ext4 (snd c) \<longrightarrow> fst c \<le> fst x))"
proof -
  obtain y ys where ys: "List.map_filter (matched e) infos = y # ys" "c = min_by preinit_less y ys"
    using assms(1) by (auto simp: preinit_info_def split: list.splits)
  have "preinit_key c \<le> preinit_key x" if "x \<in> set (y # ys)" for x
    unfolding ys(2) using assms(2) that by (intro min_by_least [where key = preinit_key]) (auto simp: ys(1) intro!: preinit_less_key)
  moreover have "c \<in> set (y # ys)" using min_by_in [of preinit_less y ys] by (simp add: ys(2))
  ultimately show ?thesis unfolding ys(1) using preinit_key_le by blast
qed

definition demo_mount :: "string \<Rightarrow> string \<Rightarrow> mount_info" where
  "demo_mount target fs =
     \<lparr>mi_id = 1, mi_parent = 0, mi_device = 7, mi_root = ''/'', mi_target = target, mi_vfs_option = ''rw'', mi_shared = 0, mi_master = 0,
      mi_propagation_from = 0, mi_unbindable = False, mi_fs_type = fs, mi_source = ''/dev/block/sda1'', mi_fs_option = ''rw''\<rparr>"

lemmas demo_mount_defs = preinit_info_def matched_def usable_source_def demo_mount_def is_rw_def map_filter_simps
  path_ends_with_def path_comps_def parent_dir_def body_components_def trim_components_def path_start_def is_ext4_def

theorem preinit_device_least_witness:
  "preinit_info ENone [demo_mount ''/data'' ''f2fs'', demo_mount ''/cache'' ''ext4''] = Some (Cache, demo_mount ''/cache'' ''ext4'') \<and>
   (Cache, demo_mount ''/cache'' ''ext4'') \<in> set (List.map_filter (matched ENone) [demo_mount ''/data'' ''f2fs'', demo_mount ''/cache'' ''ext4''])"
proof -
  have 1: "preinit_info ENone [demo_mount ''/data'' ''f2fs'', demo_mount ''/cache'' ''ext4''] = Some (Cache, demo_mount ''/cache'' ''ext4'')"
    by (simp add: demo_mount_defs preinit_less_def less_part_id_def)
  have 2: "\<forall>x \<in> set (List.map_filter (matched ENone) [demo_mount ''/data'' ''f2fs'', demo_mount ''/cache'' ''ext4'']). \<not> f2fs_metadata x"
    by (simp add: demo_mount_defs f2fs_metadata_def)
  show ?thesis using 1 preinit_device_least [OF 1 2] by blast
qed


text \<open>
  C26. For a process on the deny list every mount of Magisk or of a module is at or below a path that is
  unmounted, and nothing else is unmounted.
\<close>

theorem revert_unmount_covers:
  "(\<forall>info \<in> set (filter is_magisk_mount infos). \<exists>t \<in> set (revert_targets infos). path_starts_with (mi_target info) t) \<and>
   set (revert_targets infos) \<subseteq> mi_target ` set (filter is_magisk_mount infos)"
proof
  let ?ts = "sort (map mi_target (filter is_magisk_mount infos))"
  show "\<forall>info \<in> set (filter is_magisk_mount infos). \<exists>t \<in> set (revert_targets infos). path_starts_with (mi_target info) t"
  proof
    fix info assume "info \<in> set (filter is_magisk_mount infos)"
    then have "mi_target info \<in> set ?ts" by simp
    from retain_roots_cover [OF this, of None] show "\<exists>t \<in> set (revert_targets infos). path_starts_with (mi_target info) t"
      by (auto simp: revert_targets_def)
  qed
  show "set (revert_targets infos) \<subseteq> mi_target ` set (filter is_magisk_mount infos)"
    using retain_roots_subset [of None ?ts] by (auto simp: revert_targets_def)
qed

theorem revert_unmount_covers_witness:
  "revert_targets [(demo_mount ''/system/bin'' ''tmpfs'')\<lparr>mi_source := ''magisk''\<rparr>, (demo_mount ''/system/bin/su'' ''tmpfs'')\<lparr>mi_source := ''magisk''\<rparr>,
     demo_mount ''/data'' ''ext4''] = [''/system/bin''] \<and>
   (\<exists>t \<in> set (revert_targets [(demo_mount ''/system/bin'' ''tmpfs'')\<lparr>mi_source := ''magisk''\<rparr>,
      (demo_mount ''/system/bin/su'' ''tmpfs'')\<lparr>mi_source := ''magisk''\<rparr>, demo_mount ''/data'' ''ext4'']). path_starts_with ''/system/bin/su'' t)"
  using revert_unmount_covers [of "[(demo_mount ''/system/bin'' ''tmpfs'')\<lparr>mi_source := ''magisk''\<rparr>,
      (demo_mount ''/system/bin/su'' ''tmpfs'')\<lparr>mi_source := ''magisk''\<rparr>, demo_mount ''/data'' ''ext4'']"]
  by (simp add: revert_targets_def is_magisk_mount_def demo_mount_def path_starts_with_def path_comps_def)

end
