(* ===== verification/BootStages.thy ===== *)
theory BootStages
  imports Selinux Mount
begin

unbundle bit_operations_syntax

text \<open>
  The boot stages of the daemon (core/bootstages.rs): preparing the environment, the safe mode, loading the
  modules, and the later stages.  The state of the daemon is the record \<open>magiskd\<close>, which has the states of
  the components and the file system.  Commands and scripts are values of \<open>boot_event\<close>, kept in order; what
  they change, the answers of the system and the key combination are parameters (\<open>boot_env\<close>).
\<close>

section \<open>The state of the daemon\<close>

definition PostFsDataDone :: u32 where "PostFsDataDone = 1"
definition LateStartDone :: u32 where "LateStartDone = 2"
definition BootComplete :: u32 where "BootComplete = 4"
definition SafeMode :: u32 where "SafeMode = 8"

definition state_contains :: "u32 \<Rightarrow> u32 \<Rightarrow> bool" where
  "state_contains s f \<longleftrightarrow> s AND f = f"

definition state_insert :: "u32 \<Rightarrow> u32 \<Rightarrow> u32" where
  "state_insert s f = s OR f"

datatype boot_event =
    CommonScripts string
  | ModuleScripts string "module_info list"
  | InitializeDenylist
  | MountCalls "sys_call list"
  | ModuleOps "mod_op list"
  | InstallApplets string string
  | DenylistHandler int
  | ScanDenyApps
  | Command "string list"

record ('db, 'b) magiskd =
  dm_su :: "'db su_state"
  dm_boot :: u32
  dm_module_list :: "module_info list option"
  dm_zygisk_enabled :: bool
  dm_zygisk :: zygisk_state
  dm_props :: "'b prop_state"
  dm_root :: "fs_attr node"
  dm_events :: "boot_event list"

text \<open>
  What a boot is given: the database, the properties and the packages, which file operations succeed, the
  system for the modules, what commands do to files and properties, and what the later queries answer.
\<close>

record ('db, 'b) boot_env =
  bo_sql :: "'db sqlite"
  bo_prop :: "'b sys_prop"
  bo_persist :: persist_env
  bo_pkg :: pkg_env
  bo_copy :: copy_env
  bo_mod :: "fs_attr mod_os"
  bo_arch :: arch
  bo_mod_env :: "fs_attr entries \<Rightarrow> fs_attr mod_env"
  bo_apply :: apply_env
  bo_scripts :: "module_info list \<Rightarrow> fs_attr entries \<Rightarrow> fs_attr entries"
  bo_run :: "boot_event \<Rightarrow> fs_attr node \<times> 'b prop_state \<Rightarrow> fs_attr node \<times> 'b prop_state"
  bo_tmp :: string
  bo_sys :: "sys_call \<Rightarrow> bool"
  bo_key_combo :: bool
  bo_stub :: "bytes option"
  bo_app_opens :: "string \<Rightarrow> bool"
  bo_app_data :: "int option entries option"
  bo_knows_adb :: bool
  bo_resolve :: "string \<Rightarrow> string"
  bo_block_device :: "string \<Rightarrow> u64 option"
  bo_mounts :: "mount_info list"
  bo_proc_mounts :: "bytes option"

abbreviation dm_pkg :: "('db, 'b) magiskd \<Rightarrow> 'db pkg_state" where
  "dm_pkg d \<equiv> ss_pkg (dm_su d)"

definition put_pkg :: "'db pkg_state \<Rightarrow> ('db, 'b) magiskd \<Rightarrow> ('db, 'b) magiskd" where
  "put_pkg s d = d\<lparr>dm_su := (dm_su d)\<lparr>ss_pkg := s\<rparr>\<rparr>"

definition put_conn :: "'db option \<Rightarrow> ('db, 'b) magiskd \<Rightarrow> ('db, 'b) magiskd" where
  "put_conn c d = put_pkg ((dm_pkg d)\<lparr>pk_conn := c\<rparr>) d"

definition run_event :: "('db, 'b) boot_env \<Rightarrow> boot_event \<Rightarrow> ('db, 'b) magiskd \<Rightarrow> ('db, 'b) magiskd" where
  "run_event G e d =
     (let (root, props) = bo_run G e (dm_root d, dm_props d)
      in d\<lparr>dm_root := root, dm_props := props, dm_events := dm_events d @ [e]\<rparr>)"

definition prop_of :: "('db, 'b) boot_env \<Rightarrow> ('db, 'b) magiskd \<Rightarrow> string \<Rightarrow> string" where
  "prop_of G d key = get_prop (bo_prop G) (bo_persist G) (dm_props d) key"

section \<open>The environment\<close>

definition tree_mkdir :: "copy_env \<Rightarrow> u32 \<Rightarrow> path \<Rightarrow> fs_attr node \<Rightarrow> fs_attr node" where
  "tree_mkdir C mode p = change_at p (\<lambda>x. case x of
     Some y \<Rightarrow> Some y
   | None \<Rightarrow> if ct_ok C (CcMkdir p) then Some (NDir ((ct_new C)\<lparr>fa_mode := mode\<rparr>) []) else None)"

definition tree_mkdirs :: "copy_env \<Rightarrow> u32 \<Rightarrow> path \<Rightarrow> fs_attr node \<Rightarrow> fs_attr node" where
  "tree_mkdirs C mode p root = fold (\<lambda>i. tree_mkdir C mode (take i p)) [1..<Suc (length p)] root"

definition tree_remove_all :: "copy_env \<Rightarrow> path \<Rightarrow> fs_attr node \<Rightarrow> fs_attr node" where
  "tree_remove_all C p = change_at p (\<lambda>x. fst (remove_all_path C p x))"

definition tree_copy :: "copy_env \<Rightarrow> path \<Rightarrow> path \<Rightarrow> fs_attr node \<Rightarrow> fs_attr node" where
  "tree_copy C p q root = change_at q (\<lambda>x. fst (copy_to C p q (node_at p root) x)) root"

text \<open>A directory with newer programs replaces the present one.\<close>

definition use_alt_dir :: "copy_env \<Rightarrow> path \<Rightarrow> fs_attr node \<Rightarrow> fs_attr node" where
  "use_alt_dir C dir root =
     (if node_at dir root \<noteq> None
      then tree_remove_all C dir (tree_copy C dir DATABIN (tree_remove_all C DATABIN root))
      else root)"

abbreviation BBPATH :: string where "BBPATH \<equiv> ''.magisk/busybox''"

definition append_paths :: "string list \<Rightarrow> fixed_buf \<Rightarrow> fixed_buf" where
  "append_paths ps b = fold (\<lambda>p b. append_path_impl fixed_ops b p) ps b"

abbreviation buf_comps :: "fixed_buf \<Rightarrow> path" where
  "buf_comps b \<equiv> path_comps (fixed_as_str b)"

definition setup_dirs :: "('db, 'b) boot_env \<Rightarrow> fixed_buf \<Rightarrow> fs_attr node \<Rightarrow> fs_attr node" where
  "setup_dirs G app_bin_dir root =
     (let C = bo_copy G;
          root = fold (use_alt_dir C)
            [[''cache'', ''data_adb'', ''magisk''], [''data'', ''magisk''], buf_comps app_bin_dir] root;
          root = tree_remove_all C [''cache'', ''data_adb''] root;
          root = chmod C SECURE_DIR 0x1C0 root;
          root = fold (tree_mkdir C 0x1ED)
            [DATABIN, MODULEROOT_PATH, SECURE_DIR @ [''post-fs-data.d''], SECURE_DIR @ [''service.d'']] root
      in restorecon C (bo_knows_adb G) root)"

definition copy_tool :: "('db, 'b) boot_env \<Rightarrow> string \<Rightarrow> fixed_buf \<times> fs_attr node \<Rightarrow> fixed_buf \<times> fs_attr node" where
  "copy_tool G name = (\<lambda>(buf, root).
     if node_at (DATABIN @ [name]) root \<noteq> None then
       let tmp = append_paths [bo_tmp G, name] buf in (tmp, tree_copy (bo_copy G) (DATABIN @ [name]) (buf_comps tmp) root)
     else (buf, root))"

definition setup_magisk_env :: "('db, 'b) boot_env \<Rightarrow> ('db, 'b) magiskd \<Rightarrow> ('db, 'b) magiskd \<times> bool" where
  "setup_magisk_env G d =
     (let C = bo_copy G;
          buf = append_paths [app_data_dir (pe_sdk (bo_pkg G)), ''0'', APP_PACKAGE_NAME, ''install''] (arr_new 4096);
          root = setup_dirs G buf (dm_root d);
          busybox = DATABIN @ [''busybox'']
      in if node_at busybox root = None then (d\<lparr>dm_root := root\<rparr>, False)
         else
           let tmp_bb = append_paths [bo_tmp G, BBPATH] buf;
               root = tree_mkdirs C 0x1ED (buf_comps tmp_bb) root;
               tmp_bb = append_paths [''busybox''] tmp_bb;
               root = tree_copy C busybox (buf_comps tmp_bb) root;
               root = chmod C (buf_comps tmp_bb) 0x1ED root;
               dir = (case parent_dir (fixed_as_str tmp_bb) of Some p \<Rightarrow> p | None \<Rightarrow> []);
               d = run_event G (InstallApplets (fixed_as_str tmp_bb) dir) (d\<lparr>dm_root := root\<rparr>);
               (buf, root) = copy_tool G ''magisk32'' (tmp_bb, dm_root d);
               (buf, root) = copy_tool G ''magiskpolicy'' (buf, root)
           in (d\<lparr>dm_root := root\<rparr>, True))"

section \<open>Safe mode\<close>

definition get_setting :: "('db, 'b) boot_env \<Rightarrow> db_entry_key \<Rightarrow> ('db, 'b) magiskd \<Rightarrow> ('db, 'b) magiskd \<times> int" where
  "get_setting G key d =
     (let (conn, v) = get_db_setting (bo_sql G) (pe_emulator (bo_pkg G)) key (pk_conn (dm_pkg d)) in (put_conn conn d, v))"

definition set_setting :: "('db, 'b) boot_env \<Rightarrow> db_entry_key \<Rightarrow> int \<Rightarrow> ('db, 'b) magiskd \<Rightarrow> ('db, 'b) magiskd" where
  "set_setting G key v d = put_conn (fst (set_db_setting (bo_sql G) key v (pk_conn (dm_pkg d)))) d"

text \<open>The modules as the module code sees them, and the file system with changed modules.\<close>

definition MODULEUPGRADE :: path where "MODULEUPGRADE = [''data'', ''adb'', ''modules_update'']"

definition entries_at :: "path \<Rightarrow> 'a node \<Rightarrow> 'a entries option" where
  "entries_at p root = (case node_at p root of Some (NDir a es) \<Rightarrow> Some es | _ \<Rightarrow> None)"

definition put_entries :: "path \<Rightarrow> 'a entries \<Rightarrow> 'a node \<Rightarrow> 'a node" where
  "put_entries p es = change_at p (map_option (\<lambda>x. case x of NDir a old \<Rightarrow> NDir a es | _ \<Rightarrow> x))"

definition mod_dirs_of :: "'a node \<Rightarrow> 'a mod_dirs" where
  "mod_dirs_of root =
     \<lparr>ms_root = (case entries_at MODULEROOT_PATH root of Some es \<Rightarrow> es | None \<Rightarrow> []), ms_upgrade = entries_at MODULEUPGRADE root\<rparr>"

definition put_mod_dirs :: "'a mod_dirs \<Rightarrow> 'a node \<Rightarrow> 'a node" where
  "put_mod_dirs s root =
     (let root = put_entries MODULEROOT_PATH (ms_root s) root
      in case ms_upgrade s of
           Some es \<Rightarrow> put_entries MODULEUPGRADE es root
         | None \<Rightarrow> change_at MODULEUPGRADE (\<lambda>x. case x of Some (NDir a es) \<Rightarrow> None | _ \<Rightarrow> x) root)"

definition mod_os_of :: "('db, 'b) boot_env \<Rightarrow> fs_attr node \<Rightarrow> fs_attr mod_os" where
  "mod_os_of G root =
     (bo_mod G)\<lparr>md_ok := (\<lambda>c. md_ok (bo_mod G) c \<and> (c = OpenRoot \<longrightarrow> entries_at MODULEROOT_PATH root \<noteq> None))\<rparr>"

definition safe_requested :: "('db, 'b) boot_env \<Rightarrow> ('db, 'b) magiskd \<Rightarrow> bool" where
  "safe_requested G d \<longleftrightarrow>
     prop_of G d ''persist.sys.safemode'' = ''1'' \<or> prop_of G d ''ro.sys.safemode'' = ''1'' \<or> bo_key_combo G"

definition disable_all :: "('db, 'b) boot_env \<Rightarrow> ('db, 'b) magiskd \<Rightarrow> ('db, 'b) magiskd" where
  "disable_all G d =
     (let s = mod_dirs_of (dm_root d); M = mod_os_of G (dm_root d)
      in d\<lparr>dm_root := put_entries MODULEROOT_PATH (disable_modules M (ms_root s)) (dm_root d)\<rparr>)"

text \<open>The counter of the boots that did not complete, and the decision for safe mode.\<close>

definition safe_mode_check :: "('db, 'b) boot_env \<Rightarrow> ('db, 'b) magiskd \<Rightarrow> ('db, 'b) magiskd \<times> bool" where
  "safe_mode_check G d =
     (let (d, boot_cnt) = get_setting G BootloopCount d;
          d = set_setting G BootloopCount (wrap_i32 (boot_cnt + 1)) d
      in if 2 \<le> boot_cnt \<or> safe_requested G d then (set_setting G ZygiskConfig 0 (disable_all G d), True)
         else (d, False))"

section \<open>The stages\<close>

definition load_modules :: "('db, 'b) boot_env \<Rightarrow> ('db, 'b) magiskd \<Rightarrow> ('db, 'b) magiskd" where
  "load_modules G d =
     (let d = d\<lparr>dm_events := dm_events d @ [MountCalls (setup_module_mount (bo_sys G) (bo_tmp G))]\<rparr>;
          A = (bo_apply G)\<lparr>ae_zygisk_enabled := dm_zygisk_enabled d\<rparr>;
          M = mod_os_of G (dm_root d); dirs = mod_dirs_of (dm_root d);
          first = snd (collect_modules M (bo_arch G) (dm_zygisk_enabled d) False (ms_root (fst (upgrade_modules M dirs))));
          ((dirs, z, props), modules, ops) =
            handle_modules (bo_prop G) (bo_persist G) M (bo_arch G) (bo_mod_env G) A (bo_scripts G) (dirs, dm_zygisk d, dm_props d)
      in d\<lparr>dm_root := put_mod_dirs dirs (dm_root d), dm_zygisk := z, dm_props := props,
           dm_module_list := (case dm_module_list d of None \<Rightarrow> Some modules | Some l \<Rightarrow> Some l),
           dm_events := dm_events d @ [ModuleScripts ''post-fs-data'' first, ModuleOps ops]\<rparr>)"

definition start_modules :: "('db, 'b) boot_env \<Rightarrow> ('db, 'b) magiskd \<Rightarrow> ('db, 'b) magiskd" where
  "start_modules G d =
     (let d = run_event G (CommonScripts ''post-fs-data'') d;
          (d, v) = get_setting G ZygiskConfig d;
          d = run_event G InitializeDenylist (d\<lparr>dm_zygisk_enabled := (v \<noteq> 0)\<rparr>);
          d = load_modules G d
      in d\<lparr>dm_events := dm_events d @ [MountCalls (clean_mounts (bo_sys G) (bo_tmp G))]\<rparr>)"

definition prune :: "('db, 'b) boot_env \<Rightarrow> ('db, 'b) magiskd \<Rightarrow> ('db, 'b) magiskd" where
  "prune G d = put_conn (prune_su_access (bo_sql G) (get_app_no_list (bo_app_opens G) (bo_app_data G)) (pk_conn (dm_pkg d))) d"

definition post_fs_data :: "('db, 'b) boot_env \<Rightarrow> (('db, 'b) magiskd, bool) run" where
  "post_fs_data G d =
     (case preserve_stub_apk (pe_version (bo_pkg G)) (bo_stub G) (dm_pkg d) of
        None \<Rightarrow> None
      | Some s \<Rightarrow>
          let d = put_pkg s d; missing = (node_at SECURE_DIR (dm_root d) = None)
          in if missing \<and> \<not> pe_sdk (bo_pkg G) < 24 then ret True d
             else
               let d = (if missing then d\<lparr>dm_root := tree_mkdir (bo_copy G) 0x1C0 SECURE_DIR (dm_root d)\<rparr> else d);
                   (d, ready) = setup_magisk_env G (prune G d)
               in if \<not> ready then ret True d
                  else
                    let (d, safe_mode) = safe_mode_check G d
                    in if safe_mode then ret True d else ret False (start_modules G d))"

definition late_start :: "('db, 'b) boot_env \<Rightarrow> ('db, 'b) magiskd \<Rightarrow> ('db, 'b) magiskd" where
  "late_start G d =
     (let d = run_event G (CommonScripts ''service'') d
      in case dm_module_list d of Some l \<Rightarrow> run_event G (ModuleScripts ''service'' l) d | None \<Rightarrow> d)"

definition boot_complete :: "('db, 'b) boot_env \<Rightarrow> (('db, 'b) magiskd, unit) run" where
  "boot_complete G d =
     (let d = set_setting G BootloopCount 0 d;
          d = (if node_at SECURE_DIR (dm_root d) = None
               then d\<lparr>dm_root := tree_mkdir (bo_copy G) 0x1C0 SECURE_DIR (dm_root d)\<rparr> else d);
          calls = fst (setup_preinit_dir (bo_sys G) (bo_resolve G) (bo_block_device G) (bo_tmp G) (bo_mounts G));
          d = d\<lparr>dm_events := dm_events d @ [MountCalls calls]\<rparr>
      in case ensure_manager (bo_sql G) (bo_pkg G) (dm_pkg d) of
           None \<Rightarrow> None
         | Some (Inl e) \<Rightarrow> Some (Inl e)
         | Some (Inr (_, s)) \<Rightarrow>
             let d = put_pkg s d
             in if dm_zygisk_enabled d then
                  let (z, props) = zygisk_reset (bo_prop G) (bo_persist G) True (dm_zygisk d, dm_props d)
                  in ret () (d\<lparr>dm_zygisk := z, dm_props := props\<rparr>)
                else ret () d)"

definition check_data :: "('db, 'b) boot_env \<Rightarrow> ('db, 'b) magiskd \<Rightarrow> bool" where
  "check_data G d =
     (case bo_proc_mounts G of
        None \<Rightarrow> False
      | Some content \<Rightarrow>
          let mnt = for_each_line (\<lambda>mnt line.
                if find_sub '' /data '' line \<noteq> None \<and> find_sub ''tmpfs'' line = None then (True, False) else (mnt, True))
                False (read_lines content);
              crypto = prop_of G d ''ro.crypto.state''
          in mnt \<and> (crypto \<noteq> [] \<longrightarrow> crypto = ''encrypted'' \<longrightarrow> prop_of G d ''init.svc.vold'' \<noteq> []))"

datatype boot_request = POST_FS_DATA | LATE_START | BOOT_COMPLETE

definition boot_stage_handler :: "('db, 'b) boot_env \<Rightarrow> boot_request \<Rightarrow> (('db, 'b) magiskd, unit) run" where
  "boot_stage_handler G code d =
     (case code of
        POST_FS_DATA \<Rightarrow>
          if check_data G d \<and> \<not> state_contains (dm_boot d) PostFsDataDone then
            bindR (post_fs_data G) (\<lambda>safe d.
              let st = (if safe then state_insert (dm_boot d) SafeMode else dm_boot d)
              in ret () (d\<lparr>dm_boot := state_insert st PostFsDataDone\<rparr>)) d
          else ret () d
      | LATE_START \<Rightarrow>
          if state_contains (dm_boot d) PostFsDataDone \<and> \<not> state_contains (dm_boot d) SafeMode then
            let d = late_start G d in ret () (d\<lparr>dm_boot := state_insert (dm_boot d) LateStartDone\<rparr>)
          else ret () d
      | BOOT_COMPLETE \<Rightarrow>
          if state_contains (dm_boot d) PostFsDataDone then
            boot_complete G (d\<lparr>dm_boot := state_insert (dm_boot d) BootComplete\<rparr>)
          else ret () d)"

section \<open>The stages as a state machine\<close>

text \<open>What runs code of the user or of a module, or mounts its files.\<close>

fun user_code :: "boot_event \<Rightarrow> bool" where
  "user_code (CommonScripts stage) \<longleftrightarrow> True"
| "user_code (ModuleScripts stage l) \<longleftrightarrow> True"
| "user_code (ModuleOps ops) \<longleftrightarrow> True"
| "user_code _ \<longleftrightarrow> False"

definition quiet :: "('db, 'b) magiskd \<Rightarrow> bool" where
  "quiet d \<longleftrightarrow> filter user_code (dm_events d) = [] \<and> dm_module_list d = None \<and> \<not> dm_zygisk_enabled d"

definition same_boot :: "('db, 'b) magiskd \<Rightarrow> ('db, 'b) magiskd \<Rightarrow> bool" where
  "same_boot d d' \<longleftrightarrow> dm_boot d' = dm_boot d \<and> filter user_code (dm_events d') = filter user_code (dm_events d) \<and>
     dm_module_list d' = dm_module_list d \<and> dm_zygisk_enabled d' = dm_zygisk_enabled d"

text \<open>
  A daemon handles stage requests in any order and any number of times, with whatever environment, and other
  requests in between, which change none of the fields the stages keep and run no code of the stages.
\<close>

inductive boot_reach :: "('db, 'b) magiskd \<Rightarrow> bool" where
  start: "dm_boot d = 0 \<Longrightarrow> quiet d \<Longrightarrow> boot_reach d"
| stage: "boot_reach d \<Longrightarrow> boot_stage_handler G code d = Some (Inr (u, d')) \<Longrightarrow> boot_reach d'"
| other: "boot_reach d \<Longrightarrow> same_boot d d' \<Longrightarrow> boot_reach d'"

lemma single_bit: "n < 32 \<Longrightarrow> (s AND 2 ^ n = (2 ^ n :: u32)) \<longleftrightarrow> bit s n"
  using bit_eq_iff [of "s AND 2 ^ n" "2 ^ n"] by (auto simp: bit_simps)

lemma or_bit: "k < 32 \<Longrightarrow> bit (s OR (2 ^ k :: u32)) n \<longleftrightarrow> bit s n \<or> n = k"
  by (auto simp: bit_simps)

lemma flag_bits:
  "state_contains s PostFsDataDone \<longleftrightarrow> bit s 0" "state_contains s LateStartDone \<longleftrightarrow> bit s 1"
  "state_contains s BootComplete \<longleftrightarrow> bit s 2" "state_contains s SafeMode \<longleftrightarrow> bit s 3"
  using single_bit [of 0 s] single_bit [of 1 s] single_bit [of 2 s] single_bit [of 3 s]
  by (simp_all add: state_contains_def PostFsDataDone_def LateStartDone_def BootComplete_def SafeMode_def)

lemma insert_bits:
  "bit (state_insert s PostFsDataDone) n \<longleftrightarrow> bit s n \<or> n = 0" "bit (state_insert s LateStartDone) n \<longleftrightarrow> bit s n \<or> n = 1"
  "bit (state_insert s BootComplete) n \<longleftrightarrow> bit s n \<or> n = 2" "bit (state_insert s SafeMode) n \<longleftrightarrow> bit s n \<or> n = 3"
  using or_bit [of 0 s n] or_bit [of 1 s n] or_bit [of 2 s n] or_bit [of 3 s n]
  by (simp_all add: state_insert_def PostFsDataDone_def LateStartDone_def BootComplete_def SafeMode_def)

lemmas flag_simps = flag_bits insert_bits

lemma put_fields [simp]:
  "dm_boot (put_pkg s d) = dm_boot d" "dm_events (put_pkg s d) = dm_events d"
  "dm_module_list (put_pkg s d) = dm_module_list d" "dm_zygisk_enabled (put_pkg s d) = dm_zygisk_enabled d"
  "dm_root (put_pkg s d) = dm_root d" "dm_props (put_pkg s d) = dm_props d" "dm_pkg (put_pkg s d) = s"
  by (simp_all add: put_pkg_def)

lemma same_boot_simps [simp]:
  "same_boot d (put_pkg s e) = same_boot d e" "same_boot d (put_conn c e) = same_boot d e"
  "same_boot d (set_setting G key v e) = same_boot d e" "same_boot d (disable_all G e) = same_boot d e" "same_boot d d"
  by (simp_all add: put_conn_def set_setting_def disable_all_def same_boot_def Let_def)

lemma get_setting_same: "same_boot d (fst (get_setting G key e)) = same_boot d e"
  by (simp add: get_setting_def split: prod.split)

lemma same_boot_quiet: "same_boot d d' \<Longrightarrow> quiet d \<Longrightarrow> quiet d' \<and> dm_boot d' = dm_boot d"
  by (simp add: same_boot_def quiet_def)

lemma safe_mode_check_same: "same_boot d (fst (safe_mode_check G d))"
proof -
  obtain e n where "get_setting G BootloopCount d = (e, n)" by force
  then show ?thesis using get_setting_same [of d G BootloopCount d] by (simp add: safe_mode_check_def Let_def)
qed

lemma run_event_fields:
  "dm_boot (run_event G e d) = dm_boot d" "dm_module_list (run_event G e d) = dm_module_list d"
  "dm_zygisk_enabled (run_event G e d) = dm_zygisk_enabled d" "dm_events (run_event G e d) = dm_events d @ [e]"
  by (simp_all add: run_event_def split: prod.split)

lemma setup_env_quiet:
  assumes "setup_magisk_env G d = (d', r)"
  shows "dm_boot d' = dm_boot d" "quiet d \<Longrightarrow> quiet d'"
  using assms by (auto simp: setup_magisk_env_def Let_def quiet_def run_event_fields split: if_splits prod.splits)

lemma load_modules_boot: "dm_boot (load_modules G d) = dm_boot d"
  by (simp add: load_modules_def Let_def split: prod.split)

lemma start_modules_boot: "dm_boot (start_modules G d) = dm_boot d"
proof -
  obtain e n where g: "get_setting G ZygiskConfig (run_event G (CommonScripts ''post-fs-data'') d) = (e, n)" by force
  have "dm_boot e = dm_boot d"
    using get_setting_same [of "run_event G (CommonScripts ''post-fs-data'') d" G ZygiskConfig "run_event G (CommonScripts ''post-fs-data'') d"] g
    by (simp add: same_boot_def run_event_fields)
  then show ?thesis by (simp add: start_modules_def g load_modules_boot run_event_fields Let_def)
qed

lemma post_fs_data_quiet:
  assumes "post_fs_data G d = Some (Inr (safe, d'))" "quiet d"
  shows "dm_boot d' = dm_boot d \<and> (safe \<longrightarrow> quiet d')"
proof -
  obtain s where s: "preserve_stub_apk (pe_version (bo_pkg G)) (bo_stub G) (dm_pkg d) = Some s"
    using assms(1) by (auto simp: post_fs_data_def split: option.splits)
  define e where "e = put_pkg s d"
  define f where "f = (if node_at SECURE_DIR (dm_root e) = None
    then e\<lparr>dm_root := tree_mkdir (bo_copy G) 0x1C0 SECURE_DIR (dm_root e)\<rparr> else e)"
  obtain g r where g: "setup_magisk_env G (prune G f) = (g, r)" by force
  obtain h m where h: "safe_mode_check G g = (h, m)" by force
  have e: "quiet e \<and> dm_boot e = dm_boot d" using assms(2) by (intro same_boot_quiet [of d]) (simp_all add: e_def)
  have "same_boot e f" by (simp add: f_def same_boot_def)
  then have f: "quiet (prune G f) \<and> dm_boot (prune G f) = dm_boot d"
    using e same_boot_quiet [of e "prune G f"] by (simp add: prune_def)
  then have g': "quiet g \<and> dm_boot g = dm_boot d" using setup_env_quiet [OF g] by simp
  have "same_boot g h" using safe_mode_check_same [of g G] h by simp
  then have h': "quiet h \<and> dm_boot h = dm_boot d" using g' same_boot_quiet [of g h] by simp
  have "d' = e \<and> safe \<or> d' = g \<and> safe \<or> d' = h \<and> safe \<or> d' = start_modules G h \<and> \<not> safe"
    using assms(1) unfolding post_fs_data_def
    by (simp add: s e_def [symmetric] f_def [symmetric] g h Let_def ret_def split: if_splits)
  then show ?thesis using e g' h' start_modules_boot [of G h] by auto
qed

lemma late_start_boot: "dm_boot (late_start G d) = dm_boot d"
  by (simp add: late_start_def Let_def run_event_fields split: option.split)

lemma boot_complete_quiet:
  assumes "boot_complete G d = Some (Inr (u, d'))"
  shows "dm_boot d' = dm_boot d \<and> (quiet d \<longrightarrow> quiet d')"
proof -
  define e where "e = set_setting G BootloopCount 0 d"
  have "same_boot d e" by (simp add: e_def)
  then show ?thesis
    using assms by (auto simp: boot_complete_def e_def [symmetric] Let_def ret_def quiet_def same_boot_def
      split: option.splits sum.splits if_splits prod.splits)
qed

definition boot_inv :: "('db, 'b) magiskd \<Rightarrow> bool" where
  "boot_inv d \<longleftrightarrow>
     (bit (dm_boot d) 0 \<and> \<not> bit (dm_boot d) 3 \<or> quiet d) \<and> (bit (dm_boot d) 3 \<longrightarrow> bit (dm_boot d) 0) \<and>
     (bit (dm_boot d) 1 \<longrightarrow> bit (dm_boot d) 0 \<and> \<not> bit (dm_boot d) 3) \<and> (bit (dm_boot d) 2 \<longrightarrow> bit (dm_boot d) 0)"

lemma handler_inv:
  assumes "boot_inv d" "boot_stage_handler G code d = Some (Inr (u, d'))"
  shows "boot_inv d'"
proof (cases code)
  case POST_FS_DATA
  show ?thesis
  proof (cases "check_data G d \<and> \<not> bit (dm_boot d) 0")
    case True
    then obtain safe e where e: "post_fs_data G d = Some (Inr (safe, e))"
      "d' = e\<lparr>dm_boot := state_insert (if safe then state_insert (dm_boot e) SafeMode else dm_boot e) PostFsDataDone\<rparr>"
      using assms(2) by (auto simp: boot_stage_handler_def POST_FS_DATA flag_simps Let_def elim!: bindR_SomeE)
    have "quiet d" using assms(1) True by (simp add: boot_inv_def)
    from post_fs_data_quiet [OF e(1) this] show ?thesis
      using assms(1) True by (auto simp: e(2) boot_inv_def quiet_def flag_simps)
  next
    case False
    then show ?thesis using assms by (auto simp: boot_stage_handler_def POST_FS_DATA flag_simps split: if_splits)
  qed
next
  case LATE_START
  then show ?thesis
    using assms by (auto simp: boot_stage_handler_def flag_simps boot_inv_def late_start_boot Let_def split: if_splits)
next
  case BOOT_COMPLETE
  show ?thesis
  proof (cases "bit (dm_boot d) 0")
    case True
    then have "boot_complete G (d\<lparr>dm_boot := state_insert (dm_boot d) BootComplete\<rparr>) = Some (Inr (u, d'))"
      using assms(2) by (simp add: boot_stage_handler_def BOOT_COMPLETE flag_simps)
    from boot_complete_quiet [OF this] show ?thesis
      using assms(1) True by (auto simp: boot_inv_def quiet_def flag_simps)
  next
    case False
    then show ?thesis using assms by (simp add: boot_stage_handler_def BOOT_COMPLETE flag_simps)
  qed
qed

lemma boot_reach_inv: "boot_reach d \<Longrightarrow> boot_inv d"
proof (induction rule: boot_reach.induct)
  case (start d)
  then show ?case by (simp add: boot_inv_def)
next
  case (stage d G code u d')
  then show ?case by (blast intro: handler_inv)
next
  case (other d d')
  then show ?case by (auto simp: boot_inv_def same_boot_def quiet_def)
qed

section \<open>The counter of failed boots\<close>

text \<open>A setting as the database of the daemon has it.\<close>

definition setting_in :: "('db \<Rightarrow> tables) \<Rightarrow> ('db, 'b) boot_env \<Rightarrow> ('db, 'b) magiskd \<Rightarrow> db_entry_key \<Rightarrow> int option" where
  "setting_in view G d key =
     map_option (\<lambda>db. setting_of (view db) (pe_emulator (bo_pkg G)) key) (conn_db (bo_sql G) (pk_conn (dm_pkg d)))"

definition db_ready :: "('db \<Rightarrow> tables) \<Rightarrow> ('db, 'b) boot_env \<Rightarrow> ('db, 'b) magiskd \<Rightarrow> bool" where
  "db_ready view G d \<longleftrightarrow> (\<exists>db. conn_db (bo_sql G) (pk_conn (dm_pkg d)) = Some db \<and> tables_ok (view db))"

lemma to_str_inj: "to_str a = to_str b \<longleftrightarrow> a = b"
  by (cases a; cases b) simp_all

lemma pk_conn_put [simp]: "pk_conn (dm_pkg (put_conn c d)) = c" "dm_props (put_conn c d) = dm_props d" "dm_root (put_conn c d) = dm_root d"
  by (simp_all add: put_conn_def)

lemma get_setting_value:
  assumes "reliable (bo_sql G) view now" "db_ready view G d"
  shows "\<exists>c. get_setting G key d = (put_conn c d, the (setting_in view G d key)) \<and> db_ready view G (put_conn c d) \<and>
    setting_in view G (put_conn c d) = setting_in view G d"
proof -
  obtain db where db: "conn_db (bo_sql G) (pk_conn (dm_pkg d)) = Some db" "tables_ok (view db)" using assms(2) by (auto simp: db_ready_def)
  let ?rows = "map (\<lambda>kv. int_row [''value''] [snd kv]) (filter (\<lambda>kv. fst kv = to_str key) (t_settings (view db)))"
  have "ref_exec (now db) (view db) ''SELECT value FROM settings WHERE key=?'' [Text (to_str key)] = Some (view db, ?rows)"
    by (simp add: ref_exec_def)
  from reliable_exec [OF assms(1) this] obtain db' where
    x: "sql_exec_impl (bo_sql G) db ''SELECT value FROM settings WHERE key=?'' [Text (to_str key)] = (db', ?rows, 0)" "view db' = view db" by blast
  have "distinct (map fst (t_settings (view db)))" using db(2) by (simp add: tables_ok_def)
  then have "fold (\<lambda>(columns, values) out. get_int values 0) ?rows (default_setting e key) = setting_of (view db) e key" for e
    unfolding filter_entry [OF \<open>distinct _\<close>] setting_of_def by (simp add: int_row_def split: option.split)
  then have "get_db_setting (bo_sql G) e key (pk_conn (dm_pkg d)) = (Some db', setting_of (view db) e key)" for e
    by (simp add: get_db_setting_def db_exec_with_rows_def db_exec_impl_Some [OF db(1) x(1)] del: fold_map)
  then show ?thesis
    using db x(2) by (intro exI [of _ "Some db'"]) (simp add: get_setting_def setting_in_def db_ready_def fun_eq_iff)
qed

lemma set_setting_value:
  assumes "reliable (bo_sql G) view now" "db_ready view G d"
  shows "setting_in view G (set_setting G key v d) = (setting_in view G d)(key \<mapsto> v)" "db_ready view G (set_setting G key v d)"
    "dm_props (set_setting G key v d) = dm_props d"
proof -
  obtain db where db: "conn_db (bo_sql G) (pk_conn (dm_pkg d)) = Some db" "tables_ok (view db)" using assms(2) by (auto simp: db_ready_def)
  let ?t = "(view db)\<lparr>t_settings := put (to_str key) v (t_settings (view db))\<rparr>"
  have "ref_exec (now db) (view db) ''INSERT OR REPLACE INTO settings (key,value) VALUES(?,?)'' [Text (to_str key), Integer v] = Some (?t, [])"
    by (simp add: ref_exec_def)
  from reliable_exec [OF assms(1) this] obtain db' where
    x: "sql_exec_impl (bo_sql G) db ''INSERT OR REPLACE INTO settings (key,value) VALUES(?,?)'' [Text (to_str key), Integer v] = (db', [], 0)"
       "view db' = ?t" by blast
  have c: "pk_conn (dm_pkg (set_setting G key v d)) = Some db'"
    by (simp add: set_setting_def set_db_setting_def db_exec_def db_exec_impl_Some [OF db(1) x(1)])
  show "setting_in view G (set_setting G key v d) = (setting_in view G d)(key \<mapsto> v)"
    using db(1) by (auto simp: setting_in_def c x(2) setting_of_def fun_eq_iff to_str_inj)
  show "db_ready view G (set_setting G key v d)" using db(2) by (simp add: db_ready_def c x(2) tables_ok_def)
  show "dm_props (set_setting G key v d) = dm_props d" by (simp add: set_setting_def)
qed

lemma disable_all_db [simp]:
  "dm_pkg (disable_all G d) = dm_pkg d" "dm_props (disable_all G d) = dm_props d"
  by (simp_all add: disable_all_def Let_def)

lemma safe_mode_check_value:
  assumes "reliable (bo_sql G) view now" "db_ready view G d" "setting_in view G d BootloopCount = Some c"
  shows "snd (safe_mode_check G d) \<longleftrightarrow> 2 \<le> c \<or> safe_requested G d"
    "setting_in view G (fst (safe_mode_check G d)) =
       (let m = (setting_in view G d)(BootloopCount \<mapsto> wrap_i32 (c + 1)) in if snd (safe_mode_check G d) then m(ZygiskConfig \<mapsto> 0) else m)"
    "db_ready view G (fst (safe_mode_check G d))" "dm_props (fst (safe_mode_check G d)) = dm_props d"
proof -
  obtain conn where g: "get_setting G BootloopCount d = (put_conn conn d, c)" "db_ready view G (put_conn conn d)"
      "setting_in view G (put_conn conn d) = setting_in view G d"
    using get_setting_value [OF assms(1,2), of BootloopCount] assms(3) by auto
  define e where "e = set_setting G BootloopCount (wrap_i32 (c + 1)) (put_conn conn d)"
  note e = set_setting_value [OF assms(1) g(2), of BootloopCount "wrap_i32 (c + 1)", folded e_def]
  have m: "safe_mode_check G d = (if 2 \<le> c \<or> safe_requested G e then (set_setting G ZygiskConfig 0 (disable_all G e), True) else (e, False))"
    by (simp add: safe_mode_check_def g(1) e_def)
  have p: "safe_requested G e = safe_requested G d" using e(3) by (simp add: safe_requested_def prop_of_def)
  have r: "db_ready view G (disable_all G e)" using e(2) by (simp add: db_ready_def)
  note z = set_setting_value [OF assms(1) r, of ZygiskConfig 0]
  have i: "setting_in view G (disable_all G e) = setting_in view G e" by (simp add: setting_in_def fun_eq_iff)
  show "snd (safe_mode_check G d) \<longleftrightarrow> 2 \<le> c \<or> safe_requested G d" by (simp add: m p)
  show "setting_in view G (fst (safe_mode_check G d)) =
       (let m = (setting_in view G d)(BootloopCount \<mapsto> wrap_i32 (c + 1)) in if snd (safe_mode_check G d) then m(ZygiskConfig \<mapsto> 0) else m)"
    using e(1) z(1) by (simp add: m p g(3) i Let_def)
  show "db_ready view G (fst (safe_mode_check G d))" "dm_props (fst (safe_mode_check G d)) = dm_props d"
    using e z by (simp_all add: m p)
qed

abbreviation failed_boot :: "('db, 'b) boot_env \<Rightarrow> ('db, 'b) magiskd \<Rightarrow> ('db, 'b) magiskd" where
  "failed_boot G d \<equiv> fst (safe_mode_check G d)"

lemma failed_boots:
  assumes "reliable (bo_sql G) view now" "db_ready view G d" "setting_in view G d BootloopCount = Some 0" "int n < 2 ^ 31"
  shows "db_ready view G ((failed_boot G ^^ n) d) \<and> setting_in view G ((failed_boot G ^^ n) d) BootloopCount = Some (int n) \<and>
    dm_props ((failed_boot G ^^ n) d) = dm_props d"
  using assms(4)
proof (induction n)
  case (Suc n)
  have IH: "db_ready view G ((failed_boot G ^^ n) d)" "setting_in view G ((failed_boot G ^^ n) d) BootloopCount = Some (int n)"
    "dm_props ((failed_boot G ^^ n) d) = dm_props d" using Suc by simp_all
  have "wrap_i32 (int n + 1) = int n + 1" using Suc.prems by (simp add: wrap_i32_def as_i32_def nat_add_distrib)
  then show ?case using safe_mode_check_value [OF assms(1) IH(1,2)] IH(3) by (simp add: Let_def)
qed (use assms in simp)

section \<open>Properties\<close>

text \<open>
  C8. However the stages are requested, in whatever order and how often: no boot script runs and no module is
  mounted or loaded before post-fs-data is done, nor ever in safe mode, in which Zygisk is off too; the late
  start is marked only after post-fs-data and not in safe mode, and boot-complete only after post-fs-data.
\<close>

theorem boot_stages_in_order:
  assumes "boot_reach d"
  shows "(\<not> state_contains (dm_boot d) PostFsDataDone \<or> state_contains (dm_boot d) SafeMode \<longrightarrow>
      filter user_code (dm_events d) = [] \<and> dm_module_list d = None \<and> \<not> dm_zygisk_enabled d) \<and>
    (state_contains (dm_boot d) LateStartDone \<longrightarrow> state_contains (dm_boot d) PostFsDataDone \<and> \<not> state_contains (dm_boot d) SafeMode) \<and>
    (state_contains (dm_boot d) BootComplete \<longrightarrow> state_contains (dm_boot d) PostFsDataDone)"
  using boot_reach_inv [OF assms] unfolding boot_inv_def quiet_def flag_bits by blast

definition demo_daemon :: "(tables, (string \<times> string) list) magiskd" where
  "demo_daemon = \<lparr>dm_su = \<lparr>ss_pkg = demo_state, ss_objs = [], ss_cached = 0\<rparr>, dm_boot = 0, dm_module_list = None,
     dm_zygisk_enabled = False, dm_zygisk = zygisk_default, dm_props = \<lparr>ps_area = [], ps_fs = demo_fs\<rparr>,
     dm_root = NDir (demo_attr 0) [], dm_events = []\<rparr>"

definition demo_mod_env :: "fs_attr mod_env" where
  "demo_mod_env = \<lparr>me_lstat = (\<lambda>p. None), me_at = (\<lambda>p. None), me_opens = (\<lambda>p. False), me_ok = (\<lambda>c. True),
     me_char_device = (\<lambda>a. False), me_rdev = (\<lambda>a. 0), me_other_exec = (\<lambda>x. False)\<rparr>"

definition demo_boot :: "(tables, (string \<times> string) list) boot_env" where
  "demo_boot = \<lparr>bo_sql = mem_sqlite 0 \<lparr>t_settings = [], t_strings = [], t_policies = []\<rparr>, bo_prop = mem_area, bo_persist = text_codec,
     bo_pkg = demo_env, bo_copy = demo_copy,
     bo_mod = \<lparr>md_ok = (\<lambda>c. True), md_opens = (\<lambda>p. True), md_attr = demo_attr 0, md_fd = (\<lambda>p. -1), md_memfd = (\<lambda>n. None), md_script = (\<lambda>n es. es)\<rparr>,
     bo_arch = Aarch64, bo_mod_env = (\<lambda>es. demo_mod_env),
     bo_apply = \<lparr>ae_tmp = ''/sbin'', ae_path_env = [], ae_is_emulator = False, ae_is64 = True, ae_zygisk_enabled = False, ae_read = (\<lambda>p. None)\<rparr>,
     bo_scripts = (\<lambda>l es. es), bo_run = (\<lambda>e x. x), bo_tmp = ''/sbin'', bo_sys = (\<lambda>c. True), bo_key_combo = False, bo_stub = None,
     bo_app_opens = (\<lambda>p. True), bo_app_data = None, bo_knows_adb = True, bo_resolve = (\<lambda>p. p), bo_block_device = (\<lambda>p. None),
     bo_mounts = [], bo_proc_mounts = None\<rparr>"

theorem boot_stages_in_order_witness:
  "boot_reach (demo_daemon\<lparr>dm_boot := 9\<rparr>) \<and> state_contains 9 SafeMode \<and> dm_module_list (demo_daemon\<lparr>dm_boot := 9\<rparr>) = None"
proof -
  define G where "G = demo_boot\<lparr>bo_proc_mounts := Some ''/dev/block/sda1 /data ext4 rw''\<rparr>"
  have r: "boot_reach demo_daemon" by (rule boot_reach.start) (simp_all add: demo_daemon_def quiet_def)
  have c: "check_data G demo_daemon"
    by (simp add: check_data_def G_def demo_boot_def read_lines_def utf8_valid_ascii prop_of_def demo_daemon_def get_prop_map mem_area_map)
  have "boot_stage_handler G POST_FS_DATA demo_daemon = Some (Inr ((), demo_daemon\<lparr>dm_boot := 9\<rparr>))"
    using c by (simp add: boot_stage_handler_def flag_bits bindR_def post_fs_data_def ret_def)
       (simp add: G_def demo_boot_def demo_daemon_def preserve_stub_apk_def put_pkg_def SECURE_DIR_def demo_env_def
          state_insert_def SafeMode_def PostFsDataDone_def ret_def)
  from boot_reach.stage [OF r this] have s: "boot_reach (demo_daemon\<lparr>dm_boot := 9\<rparr>)" .
  have f: "state_contains 9 SafeMode" by (simp add: state_contains_def SafeMode_def)
  show ?thesis using s f boot_stages_in_order [OF s] by simp
qed

text \<open>
  C11. Boots that do not complete are counted, and the third in a row and every later one is a safe mode
  boot; before that only the properties or the keys ask for safe mode.
\<close>

theorem bootloop_protection:
  assumes "reliable (bo_sql G) view now" "db_ready view G d" "setting_in view G d BootloopCount = Some 0" "int n < 2 ^ 31"
  shows "snd (safe_mode_check G ((failed_boot G ^^ n) d)) \<longleftrightarrow> 2 \<le> n \<or> safe_requested G d"
proof -
  have f: "db_ready view G ((failed_boot G ^^ n) d)" "setting_in view G ((failed_boot G ^^ n) d) BootloopCount = Some (int n)"
    "dm_props ((failed_boot G ^^ n) d) = dm_props d" using failed_boots [OF assms] by blast+
  then have "safe_requested G ((failed_boot G ^^ n) d) = safe_requested G d" by (simp add: safe_requested_def prop_of_def)
  then show ?thesis using safe_mode_check_value(1) [OF assms(1) f(1,2)] by simp
qed

theorem bootloop_protection_witness:
  "snd (safe_mode_check demo_boot ((failed_boot demo_boot ^^ 2) (put_conn None demo_daemon)))"
proof -
  have "reliable (bo_sql demo_boot) (\<lambda>t. t) (\<lambda>_. 0)" by (simp add: demo_boot_def mem_sqlite_reliable)
  moreover have "db_ready (\<lambda>t. t) demo_boot (put_conn None demo_daemon)"
    by (simp add: db_ready_def demo_boot_def conn_db_def mem_sqlite_def tables_ok_def)
  moreover have "setting_in (\<lambda>t. t) demo_boot (put_conn None demo_daemon) BootloopCount = Some 0"
    by (simp add: setting_in_def demo_boot_def conn_db_def mem_sqlite_def setting_of_def)
  ultimately show ?thesis using bootloop_protection [of demo_boot "\<lambda>t. t" "\<lambda>_. 0" "put_conn None demo_daemon" 2] by simp
qed

end
