(* ===== verification/Daemon.thy ===== *)
theory Daemon
  imports BootStages
begin

text \<open>
  The request loop of the daemon and the client side of a request (core/daemon.rs): who may ask for what,
  what each request does to the state of the daemon, and how the daemon starts.  The handlers are those of
  the other components.  Which process a connection belongs to, what it sends and which files the processes
  execute are parameters.
\<close>

section \<open>Codes\<close>

abbreviation START_DAEMON :: int where "START_DAEMON \<equiv> 0"
abbreviation CHECK_VERSION :: int where "CHECK_VERSION \<equiv> 1"
abbreviation CHECK_VERSION_CODE :: int where "CHECK_VERSION_CODE \<equiv> 2"
abbreviation STOP_DAEMON :: int where "STOP_DAEMON \<equiv> 3"
abbreviation SYNC_BARRIER :: int where "SYNC_BARRIER \<equiv> 4"
abbreviation SUPERUSER :: int where "SUPERUSER \<equiv> 5"
abbreviation ZYGOTE_RESTART :: int where "ZYGOTE_RESTART \<equiv> 6"
abbreviation DENYLIST :: int where "DENYLIST \<equiv> 7"
abbreviation SQLITE_CMD :: int where "SQLITE_CMD \<equiv> 8"
abbreviation REMOVE_MODULES :: int where "REMOVE_MODULES \<equiv> 9"
abbreviation ZYGISK :: int where "ZYGISK \<equiv> 10"
abbreviation STAGE_BARRIER :: int where "STAGE_BARRIER \<equiv> 11"
abbreviation REQ_POST_FS_DATA :: int where "REQ_POST_FS_DATA \<equiv> 12"
abbreviation REQ_LATE_START :: int where "REQ_LATE_START \<equiv> 13"
abbreviation REQ_BOOT_COMPLETE :: int where "REQ_BOOT_COMPLETE \<equiv> 14"
abbreviation REQ_END :: int where "REQ_END \<equiv> 15"

abbreviation RESP_ERROR :: int where "RESP_ERROR \<equiv> -1"
abbreviation RESP_OK :: int where "RESP_OK \<equiv> 0"
abbreviation ROOT_REQUIRED :: int where "ROOT_REQUIRED \<equiv> 1"
abbreviation ACCESS_DENIED :: int where "ACCESS_DENIED \<equiv> 2"

section \<open>Connections\<close>

text \<open>
  A connection: the credentials, the security label the kernel reports, the bytes the client has sent, and
  whether it will send more.
\<close>

record peer =
  pr_cred :: "(nat \<times> int option) option"
  pr_label :: bytes
  pr_sent :: bytes
  pr_open :: bool

record ('db, 'b) daemon_env =
  de_boot :: "('db, 'b) boot_env"
  de_exe_of :: "int \<Rightarrow> (nat \<times> nat) option"
  de_exe :: "nat \<times> nat"
  de_recovery :: bool
  de_version :: string
  de_version_code :: int
  de_write_ok :: bool
  de_app :: app_env
  de_now :: nat
  de_later :: nat
  de_child :: int
  de_status :: "int option"
  de_zygisk :: zygisk_env
  de_companion :: companion_env
  de_client_fd :: int

text \<open>The kernel writes the label into the buffer when it fits, and the buffer is rebuilt.\<close>

definition peer_context :: "peer \<Rightarrow> string" where
  "peer_context p =
     (let b = arr_new 256;
          b = (if length (pr_label p) \<le> 256 then b\<lparr>fb_buf := pr_label p @ drop (length (pr_label p)) (fb_buf b)\<rparr> else b)
      in fixed_as_str (fst (fixed_rebuild b)))"

definition is_client :: "('db, 'b) daemon_env \<Rightarrow> int \<Rightarrow> bool" where
  "is_client E pid = (case de_exe_of E pid of Some (dev, ino) \<Rightarrow> dev = fst (de_exe E) \<and> ino = snd (de_exe E) | None \<Rightarrow> False)"

text \<open>
  Reading an \<open>i32\<close> over the value \<open>-1\<close>: when the connection ends early the bytes received so far replace its
  first bytes.  While the connection is open the read waits.
\<close>

definition read_code :: "peer \<Rightarrow> int option" where
  "read_code p =
     (if length (pr_sent p) < 4 \<and> pr_open p then None
      else Some (as_i32 (of_le (take 4 (pr_sent p @ replicate 4 (CHR 0xFF))))))"

section \<open>Permissions\<close>

datatype dispatch = NoDispatch | Sync int | Async int | Stage int

definition permission :: "bool \<Rightarrow> bool \<Rightarrow> bool \<Rightarrow> int \<Rightarrow> int" where
  "permission is_root is_shell is_zygote code =
     (if code \<in> {REQ_POST_FS_DATA, REQ_LATE_START, REQ_BOOT_COMPLETE, ZYGOTE_RESTART, SQLITE_CMD, DENYLIST, STOP_DAEMON} then
        (if \<not> is_root then ROOT_REQUIRED else RESP_OK)
      else if code = REMOVE_MODULES then (if \<not> is_root \<and> \<not> is_shell then ACCESS_DENIED else RESP_OK)
      else if code = ZYGISK then (if \<not> is_zygote then ACCESS_DENIED else RESP_OK)
      else RESP_OK)"

text \<open>The result: what is written to the client and what is done next; \<open>None\<close> while the read waits.\<close>

definition handle_requests :: "('db, 'b) daemon_env \<Rightarrow> peer \<Rightarrow> (bytes \<times> dispatch) option" where
  "handle_requests E p =
     (case pr_cred p of
        None \<Rightarrow> Some ([], NoDispatch)
      | Some (uid, pid) \<Rightarrow>
          let is_root = (uid = 0); is_shell = (uid = 2000); is_zygote = (peer_context p = ''u:r:zygote:s0'')
          in if \<not> is_root \<and> \<not> is_zygote \<and> \<not> is_client E (case pid of Some n \<Rightarrow> n | None \<Rightarrow> -1) then
               Some (encode_i32 ACCESS_DENIED, NoDispatch)
             else
               (case read_code p of
                  None \<Rightarrow> None
                | Some code \<Rightarrow>
                    if \<not> (0 \<le> code \<and> code < REQ_END) \<or> code = SYNC_BARRIER \<or> code = STAGE_BARRIER then Some ([], NoDispatch)
                    else
                      let r = permission is_root is_shell is_zygote code
                      in if r \<noteq> RESP_OK then Some (encode_i32 r, NoDispatch)
                         else if \<not> de_write_ok E then Some ([], NoDispatch)
                         else
                           Some (encode_i32 RESP_OK,
                             if code < SYNC_BARRIER then Sync code else if code < STAGE_BARRIER then Async code else Stage code)))"

section \<open>Requests\<close>

definition add_events :: "boot_event list \<Rightarrow> ('db, 'b) magiskd \<Rightarrow> ('db, 'b) magiskd" where
  "add_events es d = d\<lparr>dm_events := dm_events d @ es\<rparr>"

definition put_zygisk :: "'b zygisk_props \<Rightarrow> ('db, 'b) magiskd \<Rightarrow> ('db, 'b) magiskd" where
  "put_zygisk zs d = d\<lparr>dm_zygisk := fst zs, dm_props := snd zs\<rparr>"

text \<open>The state, what is written, and the exit code when the daemon ends.\<close>

definition handle_request_sync :: "('db, 'b) daemon_env \<Rightarrow> int \<Rightarrow> ('db, 'b) magiskd \<Rightarrow> ('db, 'b) magiskd \<times> bytes \<times> int option" where
  "handle_request_sync E code d =
     (if code = CHECK_VERSION then (d, encode_str (de_version E @ '':MAGISK:R''), None)
      else if code = CHECK_VERSION_CODE then (d, encode_i32 (de_version_code E), None)
      else if code = STOP_DAEMON then
        let d = add_events [DenylistHandler (-1)] d;
            d = put_zygisk (restore_prop (bo_prop (de_boot E)) (bo_persist (de_boot E)) (dm_zygisk d, dm_props d)) d
        in (d, encode_i32 0, Some 0)
      else (d, [], None))"

definition reboot :: "('db, 'b) daemon_env \<Rightarrow> ('db, 'b) magiskd \<Rightarrow> ('db, 'b) magiskd" where
  "reboot E = add_events [Command (''/system/bin/reboot'' # (if de_recovery E then [''recovery''] else []))]"

definition remove_modules_request :: "('db, 'b) daemon_env \<Rightarrow> bytes \<Rightarrow> ('db, 'b) magiskd \<Rightarrow> ('db, 'b) magiskd" where
  "remove_modules_request E received d =
     (let do_reboot = (case decode_bool received of Inr (b, _) \<Rightarrow> b | Inl _ \<Rightarrow> False);
          root = dm_root d; M = mod_os_of (de_boot E) root;
          root = (case entries_at MODULEROOT_PATH root of
                    None \<Rightarrow> root
                  | Some es \<Rightarrow>
                      (case remove_modules M es of
                         Some rest \<Rightarrow> put_entries MODULEROOT_PATH rest root
                       | None \<Rightarrow> set_at MODULEROOT_PATH None root));
          d = d\<lparr>dm_root := root\<rparr>
      in if do_reboot then reboot E d else d)"

text \<open>\<open>received\<close> is what the client sends after the code.\<close>

definition handle_request_async :: "('db, 'b) daemon_env \<Rightarrow> int \<Rightarrow> nat \<Rightarrow> int option \<Rightarrow> bytes \<Rightarrow> (('db, 'b) magiskd, bytes) run" where
  "handle_request_async E code uid pid received d =
     (let G = de_boot E in
      if code = DENYLIST then ret [] (add_events [DenylistHandler (de_client_fd E)] d)
      else if code = SUPERUSER then
        (case su_daemon_handler (bo_sql G) (bo_pkg G) (de_app E) (de_now E) (de_later E) (de_child E) (de_status E) received uid pid (dm_su d) of
           None \<Rightarrow> None
         | Some (Inl e) \<Rightarrow> Some (Inl e)
         | Some (Inr (out, st)) \<Rightarrow> ret (so_sent out) (d\<lparr>dm_su := st\<rparr>))
      else if code = ZYGOTE_RESTART then
        let d = add_events [ScanDenyApps] (prune G d)
        in ret [] (if dm_zygisk_enabled d
                   then put_zygisk (zygisk_reset (bo_prop G) (bo_persist G) False (dm_zygisk d, dm_props d)) d else d)
      else if code = SQLITE_CMD then
        (case db_exec_for_cli (bo_sql G) received (pk_conn (dm_pkg d)) of
           (conn, sent, Inl Panic) \<Rightarrow> Some (Inl Panic)
         | (conn, sent, r) \<Rightarrow> ret sent (put_conn conn d))
      else if code = REMOVE_MODULES then ret (encode_i32 0) (remove_modules_request E received d)
      else if code = ZYGISK then
        (case zygisk_handler (bo_sql G) (bo_pkg G) (de_zygisk E) (de_companion E) (dm_module_list d) (de_client_fd E) received (dm_zygisk d) (dm_pkg d) of
           None \<Rightarrow> None
         | Some (Inl e) \<Rightarrow> Some (Inl e)
         | Some (Inr ((z, out), s)) \<Rightarrow> ret (zo_bytes out) (put_pkg s (d\<lparr>dm_zygisk := z\<rparr>)))
      else ret [] d)"

definition stage_of :: "int \<Rightarrow> boot_request" where
  "stage_of code = (if code = REQ_POST_FS_DATA then POST_FS_DATA else if code = REQ_LATE_START then LATE_START else BOOT_COMPLETE)"

text \<open>A connection from its acceptance to the end of its handler.\<close>

definition serve :: "('db, 'b) daemon_env \<Rightarrow> peer \<Rightarrow> (('db, 'b) magiskd, bytes \<times> int option) run" where
  "serve E p d =
     (case handle_requests E p of
        None \<Rightarrow> None
      | Some (sent, NoDispatch) \<Rightarrow> ret (sent, None) d
      | Some (sent, Sync code) \<Rightarrow> (let (d, out, ex) = handle_request_sync E code d in ret (sent @ out, ex) d)
      | Some (sent, Async code) \<Rightarrow>
          (case pr_cred p of
             Some (uid, pid) \<Rightarrow> bindR (handle_request_async E code uid pid (drop 4 (pr_sent p))) (\<lambda>out. ret (sent @ out, None)) d
           | None \<Rightarrow> ret (sent, None) d)
      | Some (sent, Stage code) \<Rightarrow> bindR (boot_stage_handler (de_boot E) (stage_of code)) (\<lambda>_. ret (sent, None)) d)"

text \<open>
  The accept loop hands connections over one after the other; the handlers of the pool come after.  The
  result are the requests handed over, in order.
\<close>

fun accept_loop :: "('db, 'b) daemon_env \<Rightarrow> peer list \<Rightarrow> (bytes \<times> dispatch) list option" where
  "accept_loop E [] = Some []"
| "accept_loop E (p # ps) =
     (case handle_requests E p of
        None \<Rightarrow> None
      | Some r \<Rightarrow> (case accept_loop E ps of None \<Rightarrow> None | Some rs \<Rightarrow> Some (r # rs)))"

section \<open>The client\<close>

text \<open>\<open>send_request\<close>: the answer is read over the value \<open>-1\<close>.\<close>

definition send_request :: "bytes \<Rightarrow> unit res" where
  "send_request answer =
     (let res = as_i32 (of_le (take 4 (answer @ replicate 4 (CHR 0xFF))))
      in if res = RESP_OK then Inr () else Inl LoggedError)"

text \<open>\<open>connects i\<close> tells whether the socket accepts the connection of attempt \<open>i\<close>.\<close>

partial_function (option) connect_loop :: "(nat \<Rightarrow> bool) \<Rightarrow> nat \<Rightarrow> nat option" where
  "connect_loop connects i = (if connects i then Some i else connect_loop connects (Suc i))"

text \<open>
  \<open>exe\<close> is the link of the own executable.  Only root starts a daemon, and only from the directory of Magisk;
  then the client tries until it is connected.  The result tells whether a daemon was started.
\<close>

definition connect_daemon :: "(nat \<Rightarrow> bool) \<Rightarrow> bool \<Rightarrow> bool \<Rightarrow> string option \<Rightarrow> string \<Rightarrow> bytes \<Rightarrow> (bool \<times> unit res) option" where
  "connect_daemon connects create is_root exe magisk_tmp answer =
     (if connects 0 then Some (False, send_request answer)
      else if \<not> create \<or> \<not> is_root then Some (False, Inl LoggedError)
      else
        case exe of
          None \<Rightarrow> Some (False, Inl LoggedError)
        | Some path \<Rightarrow>
            if \<not> prefix magisk_tmp (let b = take 63 path in if utf8_valid b then b else []) then Some (False, Inl LoggedError)
            else map_option (\<lambda>_. (True, send_request answer)) (connect_loop connects 1))"

section \<open>The start of the daemon\<close>

abbreviation MAIN_CONFIG :: string where "MAIN_CONFIG \<equiv> ''.magisk/config''"
abbreviation ROOTOVL :: string where "ROOTOVL \<equiv> ''.magisk/rootdir''"
abbreviation ROOTMNT :: string where "ROOTMNT \<equiv> ''.magisk/rootdir/.mount_list''"

record entry_env =
  en_file :: "string \<Rightarrow> bytes option"
  en_opens :: "string \<Rightarrow> bool"
  en_mtk :: bool
  en_remount_root :: bool
  en_pid :: int
  en_exe :: "(nat \<times> nat) option"
  en_binds :: bool

definition is_emulator_device :: "(string \<Rightarrow> string) \<Rightarrow> bool" where
  "is_emulator_device prop \<longleftrightarrow>
     prop ''ro.kernel.qemu'' = ''1'' \<or> prop ''ro.boot.qemu'' = ''1'' \<or> find_sub ''vsoc'' (prop ''ro.product.device'') \<noteq> None"

definition recovery_mode :: "bytes option \<Rightarrow> bool" where
  "recovery_mode config =
     (case config of
        None \<Rightarrow> False
      | Some bs \<Rightarrow> for_each_prop (\<lambda>r key val. if key = ''RECOVERYMODE'' then (val = ''true'', False) else (r, True)) False bs)"

definition parse_sdk :: "string \<Rightarrow> int" where
  "parse_sdk val = (case parse_i32 val of Some n \<Rightarrow> n | None \<Rightarrow> -1)"

definition device_sdk_int :: "bytes option \<Rightarrow> (string \<Rightarrow> string) \<Rightarrow> int" where
  "device_sdk_int build_prop prop =
     (let sdk = (case build_prop of
                   None \<Rightarrow> -1
                 | Some bs \<Rightarrow> for_each_prop (\<lambda>n key val. if key = ''ro.build.version.sdk'' then (parse_sdk val, False) else (n, True)) (-1) bs)
      in if sdk < 0 then parse_sdk (prop ''ro.build.version.sdk'') else sdk)"

text \<open>The file written and what is written to it.\<close>

definition switch_cgroup :: "entry_env \<Rightarrow> string \<Rightarrow> (string \<times> string) list" where
  "switch_cgroup N cgroup =
     (let path = buf_path 64 [cgroup, ''cgroup.procs'']
      in if en_file N path \<noteq> None \<and> en_opens N path then [(path, fmt_i32 (en_pid N))] else [])"

definition escape_cgroup :: "entry_env \<Rightarrow> (string \<Rightarrow> string) \<Rightarrow> (string \<times> string) list" where
  "escape_cgroup N prop =
     concat (map (switch_cgroup N)
       ([''/acct'', ''/dev/cg2_bpf'', ''/sys/fs/cgroup''] @ (if prop ''ro.config.per_app_memcg'' \<noteq> ''false'' then [''/dev/memcg/apps''] else [])))"

definition unmount_listed :: "bytes option \<Rightarrow> sys_call list" where
  "unmount_listed mount_list =
     (case mount_list of
        None \<Rightarrow> []
      | Some bs \<Rightarrow> for_each_line (\<lambda>cs line. (cs @ [unmount (trim_end line)], True)) [] (read_lines bs))"

definition trunc_buf :: "nat \<Rightarrow> fixed_buf \<Rightarrow> fixed_buf" where
  "trunc_buf n b = (case fixed_truncate b n of Inr b \<Rightarrow> b | Inl e \<Rightarrow> b)"

text \<open>
  The state the daemon starts with and its fixed settings; \<open>None\<close> when it cannot bind its socket.
\<close>

definition daemon_entry :: "('db, 'b) daemon_env \<Rightarrow> entry_env \<Rightarrow> 'b prop_state \<Rightarrow> fs_attr node \<Rightarrow> (('db, 'b) daemon_env \<times> ('db, 'b) magiskd \<times> (string \<times> string) list) option" where
  "daemon_entry E N props root =
     (let G = de_boot E; tmp = bo_tmp G;
          prop = get_prop (bo_prop G) (bo_persist G) props;
          buf = append_paths [tmp, MAIN_CONFIG] (arr_new 64);
          is_recovery = recovery_mode (en_file N (fixed_as_str buf));
          buf = trunc_buf (length tmp) buf;
          sdk = device_sdk_int (en_file N ''/system/build.prop'') prop;
          root = fst (restore_tmpcon (bo_copy G) (path_comps tmp) (path_comps (buf_path 4096 [tmp, LOG_PIPE])) root);
          writes = escape_cgroup N prop;
          props = (if en_mtk N then set_prop (bo_prop G) (bo_persist G) props ''ro.vendor.mtk_model'' ''0'' else props);
          buf = append_paths [ROOTMNT] buf;
          umounts = unmount_listed (en_file N (fixed_as_str buf));
          buf = trunc_buf (length tmp) buf;
          remounts = (if en_remount_root N then [remount_mount_flags ''/'' MS_RDONLY] else []);
          buf = append_paths [ROOTOVL] buf;
          root = tree_remove_all (bo_copy G) (buf_comps buf) root;
          pkg = (bo_pkg G)\<lparr>pe_sdk := sdk, pe_emulator := is_emulator_device prop\<rparr>
      in if \<not> en_binds N then None
         else
           Some (E\<lparr>de_boot := G\<lparr>bo_pkg := pkg\<rparr>, de_recovery := is_recovery, de_exe := (case en_exe N of Some x \<Rightarrow> x | None \<Rightarrow> (0, 0))\<rparr>,
             \<lparr>dm_su = \<lparr>ss_pkg = \<lparr>pk_info = manager_info_default, pk_conn = None, pk_events = []\<rparr>, ss_objs = [su_info_with (de_now E) (-1) SuPolicy_Query], ss_cached = 0\<rparr>,
              dm_boot = 0, dm_module_list = None, dm_zygisk_enabled = False, dm_zygisk = zygisk_default, dm_props = props,
              dm_root = root, dm_events = [MountCalls (umounts @ remounts)]\<rparr>,
             writes))"

section \<open>Requests and the boot stages\<close>

text \<open>The states a daemon reaches from its start by serving connections, each with its own environment.\<close>

inductive daemon_reach :: "('db, 'b) magiskd \<Rightarrow> bool" where
  entry: "daemon_entry E N props root = Some (E', d, writes) \<Longrightarrow> daemon_reach d"
| serve: "daemon_reach d \<Longrightarrow> serve E p d = Some (Inr (out, d')) \<Longrightarrow> daemon_reach d'"

lemma same_boot_daemon [simp]:
  "list_all (\<lambda>e. \<not> user_code e) es \<Longrightarrow> same_boot d (add_events es e) = same_boot d e" "same_boot d (put_zygisk zs e) = same_boot d e"
  "same_boot d (e\<lparr>dm_su := st\<rparr>) = same_boot d e" "same_boot d (e\<lparr>dm_root := root\<rparr>) = same_boot d e" "same_boot d (e\<lparr>dm_zygisk := z\<rparr>) = same_boot d e"
  by (auto simp: add_events_def put_zygisk_def same_boot_def filter_empty_conv list_all_iff)

lemma handle_request_sync_same: "same_boot d (fst (handle_request_sync E code d))"
  by (simp add: handle_request_sync_def Let_def)

lemma remove_modules_request_same: "same_boot d (remove_modules_request E received d)"
  by (simp add: remove_modules_request_def reboot_def Let_def)

lemma handle_request_async_same:
  assumes "handle_request_async E code uid pid received d = Some (Inr (out, d'))"
  shows "same_boot d d'"
  using assms remove_modules_request_same [of d E received]
  by (auto simp: handle_request_async_def prune_def Let_def split: if_splits option.splits sum.splits prod.splits error.splits)

lemma serve_cases:
  assumes "serve E p d = Some (Inr (out, d'))"
  obtains "same_boot d d'" | code u where "boot_stage_handler (de_boot E) code d = Some (Inr (u, d'))"
proof -
  obtain sent r where h: "handle_requests E p = Some (sent, r)" using assms by (auto simp: serve_def split: option.splits)
  show thesis
  proof (cases r)
    case NoDispatch
    then show thesis using assms that(1) by (simp add: serve_def h)
  next
    case (Sync code)
    then show thesis
      using assms that(1) handle_request_sync_same [of d E code] by (auto simp: serve_def h split: prod.splits)
  next
    case (Async code)
    show thesis
    proof (cases "pr_cred p")
      case None
      then show thesis using assms that(1) by (simp add: serve_def h Async)
    next
      case (Some c)
      obtain uid pid where c: "c = (uid, pid)" by force
      from assms obtain o2 e where "handle_request_async E code uid pid (drop 4 (pr_sent p)) d = Some (Inr (o2, e))" "e = d'"
        by (auto simp: serve_def h Async Some c elim!: bindR_SomeE)
      then show thesis using handle_request_async_same that(1) by blast
    qed
  next
    case (Stage code)
    from assms obtain u e where "boot_stage_handler (de_boot E) (stage_of code) d = Some (Inr (u, e))" "e = d'"
      by (auto simp: serve_def h Stage elim!: bindR_SomeE)
    then show thesis using that(2) by blast
  qed
qed

lemma permission_ok:
  "permission is_root is_shell is_zygote code = RESP_OK \<longleftrightarrow>
     (code \<in> {REQ_POST_FS_DATA, REQ_LATE_START, REQ_BOOT_COMPLETE, ZYGOTE_RESTART, SQLITE_CMD, DENYLIST, STOP_DAEMON} \<longrightarrow> is_root) \<and>
     (code = REMOVE_MODULES \<longrightarrow> is_root \<or> is_shell) \<and> (code = ZYGISK \<longrightarrow> is_zygote)"
  unfolding permission_def by auto

text \<open>A client that may be talked to: root, zygote or a program of Magisk.\<close>

definition known_client :: "('db, 'b) daemon_env \<Rightarrow> peer \<Rightarrow> bool" where
  "known_client E p \<longleftrightarrow>
     (\<exists>uid pid. pr_cred p = Some (uid, pid) \<and>
        (uid = 0 \<or> peer_context p = ''u:r:zygote:s0'' \<or> is_client E (case pid of Some n \<Rightarrow> n | None \<Rightarrow> -1)))"

lemma handle_requests_dispatched:
  assumes "handle_requests E p = Some (sent, r)" "r \<noteq> NoDispatch"
  obtains uid pid code where "known_client E p" "pr_cred p = Some (uid, pid)" "read_code p = Some code" "0 \<le> code" "code < REQ_END"
    "code \<noteq> SYNC_BARRIER" "code \<noteq> STAGE_BARRIER" "sent = encode_i32 RESP_OK"
    "permission (uid = 0) (uid = 2000) (peer_context p = ''u:r:zygote:s0'') code = RESP_OK"
    "r = (if code < SYNC_BARRIER then Sync code else if code < STAGE_BARRIER then Async code else Stage code)"
  using assms by (auto simp: handle_requests_def known_client_def Let_def split: option.splits if_splits)

lemma read_over: "i32_ok i \<Longrightarrow> as_i32 (of_le (take 4 (encode_i32 i @ xs))) = i"
proof -
  assume i: "i32_ok i"
  have "nat (i mod 2 ^ 32) < 256 ^ 4" by (simp add: nat_less_iff)
  then show ?thesis using as_i32_mod [OF i] by (simp add: encode_i32_def)
qed

lemma read_nothing: "as_i32 (of_le (replicate 4 (CHR 0xFF))) = -1"
proof -
  have "replicate 4 (CHR 0xFF) = [CHR 0xFF, CHR 0xFF, CHR 0xFF, CHR 0xFF]" by (simp add: eval_nat_numeral)
  then show ?thesis by (simp add: as_i32_def)
qed

lemma answers:
  "send_request [] = Inl LoggedError" "send_request (encode_i32 RESP_OK) = Inr ()"
  "send_request (encode_i32 ROOT_REQUIRED) = Inl LoggedError" "send_request (encode_i32 ACCESS_DENIED) = Inl LoggedError"
  using read_over [of RESP_OK "replicate 4 (CHR 0xFF)"] read_over [of ROOT_REQUIRED "replicate 4 (CHR 0xFF)"]
    read_over [of ACCESS_DENIED "replicate 4 (CHR 0xFF)"] read_nothing
  by (simp_all add: send_request_def i32_ok_def)

lemma serve_dispatched:
  assumes "serve E p d = Some (Inr (out, d'))" "d' \<noteq> d \<or> snd out \<noteq> None"
  obtains sent r where "handle_requests E p = Some (sent, r)" "r \<noteq> NoDispatch"
  using assms by (auto simp: serve_def split: option.splits prod.splits dispatch.splits)

section \<open>Properties\<close>

text \<open>
  C6. A request reaches its handler only from root, zygote or a program of Magisk; the boot stages, the
  restart of zygote, the database, the deny list and the end of the daemon only for root, the removal of the
  modules only for root and the shell, and Zygisk only for zygote.
\<close>

theorem request_permissions:
  assumes "handle_requests E p = Some (sent, r)" "r \<noteq> NoDispatch"
  shows "known_client E p \<and>
    (\<exists>uid pid code. pr_cred p = Some (uid, pid) \<and> r \<in> {Sync code, Async code, Stage code} \<and>
       (code \<in> {REQ_POST_FS_DATA, REQ_LATE_START, REQ_BOOT_COMPLETE, ZYGOTE_RESTART, SQLITE_CMD, DENYLIST, STOP_DAEMON} \<longrightarrow> uid = 0) \<and>
       (code = REMOVE_MODULES \<longrightarrow> uid = 0 \<or> uid = 2000) \<and> (code = ZYGISK \<longrightarrow> peer_context p = ''u:r:zygote:s0''))"
  using assms by (rule handle_requests_dispatched) (auto simp: permission_ok)

definition demo_request :: "nat \<Rightarrow> int \<Rightarrow> peer" where
  "demo_request uid code = \<lparr>pr_cred = Some (uid, Some 42), pr_label = ''u:r:untrusted_app:s0'', pr_sent = encode_i32 code, pr_open = True\<rparr>"

definition demo_denv :: "(tables, (string \<times> string) list) daemon_env" where
  "demo_denv = \<lparr>de_boot = demo_boot, de_exe_of = (\<lambda>pid. if pid = 42 then Some (1, 2) else None), de_exe = (1, 2), de_recovery = False,
     de_version = ''30.0'', de_version_code = 30000, de_write_ok = True, de_app = silent_manager, de_now = 0, de_later = 0, de_child = 7,
     de_status = Some 0, de_zygisk = demo_zygisk,
     de_companion = \<lparr>ce_alive = (\<lambda>n. False), ce_send = (\<lambda>n l. False), ce_pair = None, ce_answer = []\<rparr>, de_client_fd = 5\<rparr>"

lemma demo_request_code: "i32_ok code \<Longrightarrow> read_code (demo_request uid code) = Some code"
  using read_over [of code "replicate 4 (CHR 0xFF)"] by (simp add: read_code_def demo_request_def encode_i32_def)

lemma demo_request_known: "known_client demo_denv (demo_request uid code)"
  by (simp add: known_client_def demo_request_def is_client_def demo_denv_def)

lemma demo_request_handled:
  assumes "i32_ok code" "0 \<le> code" "code < REQ_END" "code \<noteq> SYNC_BARRIER" "code \<noteq> STAGE_BARRIER"
    "permission (uid = 0) (uid = 2000) (peer_context (demo_request uid code) = ''u:r:zygote:s0'') code = RESP_OK"
  shows "handle_requests demo_denv (demo_request uid code) = Some (encode_i32 RESP_OK,
    if code < SYNC_BARRIER then Sync code else if code < STAGE_BARRIER then Async code else Stage code)"
proof -
  have "pr_cred (demo_request uid code) = Some (uid, Some 42)" "is_client demo_denv 42" "de_write_ok demo_denv"
    by (simp_all add: demo_request_def is_client_def demo_denv_def)
  then show ?thesis using assms demo_request_code [OF assms(1), of uid] by (simp add: handle_requests_def)
qed

theorem request_permissions_witness:
  "handle_requests demo_denv (demo_request 0 STOP_DAEMON) = Some (encode_i32 RESP_OK, Sync STOP_DAEMON) \<and>
   known_client demo_denv (demo_request 0 STOP_DAEMON)"
proof -
  have h: "handle_requests demo_denv (demo_request 0 STOP_DAEMON) = Some (encode_i32 RESP_OK, Sync STOP_DAEMON)"
    using demo_request_handled [of STOP_DAEMON 0] by (simp add: i32_ok_def permission_def)
  show ?thesis using h request_permissions [OF h] by simp
qed



text \<open>
  A client sees its request accepted exactly when the daemon hands it to a handler; every other answer,
  and none, is an error on its side.
\<close>

theorem client_sees_verdict:
  assumes "handle_requests E p = Some (sent, r)"
  shows "send_request sent = Inr () \<longleftrightarrow> r \<noteq> NoDispatch"
  using assms answers
  by (auto simp: handle_requests_def permission_def Let_def split: option.splits if_splits)

theorem client_sees_verdict_witness:
  "handle_requests demo_denv (demo_request 0 STOP_DAEMON) = Some (encode_i32 RESP_OK, Sync STOP_DAEMON) \<and> send_request (encode_i32 RESP_OK) = Inr ()"
proof -
  have h: "handle_requests demo_denv (demo_request 0 STOP_DAEMON) = Some (encode_i32 RESP_OK, Sync STOP_DAEMON)"
    using demo_request_handled [of STOP_DAEMON 0] by (simp add: i32_ok_def permission_def)
  show ?thesis using h client_sees_verdict [OF h] by simp
qed

text \<open>
  C12. Every state the daemon comes to by serving connections is a state of the machine of the boot stages: no
  request but those for a stage runs boot scripts, loads modules or changes the boot state.
\<close>

theorem daemon_refines_stages:
  assumes "daemon_reach d"
  shows "boot_reach d"
  using assms
proof (induction rule: daemon_reach.induct)
  case (entry E N props root E' d writes)
  then show ?case by (intro boot_reach.start) (auto simp: daemon_entry_def quiet_def Let_def split: if_splits)
next
  case (serve d E p out d')
  from serve(2) show ?case
    by (rule serve_cases) (use serve(3) in \<open>auto intro: boot_reach.intros\<close>)
qed

definition demo_entry :: entry_env where
  "demo_entry = \<lparr>en_file = (\<lambda>p. None), en_opens = (\<lambda>p. False), en_mtk = False, en_remount_root = False, en_pid = 1,
     en_exe = Some (1, 2), en_binds = True\<rparr>"

theorem daemon_refines_stages_witness:
  "\<exists>d. daemon_entry demo_denv demo_entry (dm_props demo_daemon) (dm_root demo_daemon) = Some d \<and> boot_reach (fst (snd d))"
proof -
  obtain E' d writes where d: "daemon_entry demo_denv demo_entry (dm_props demo_daemon) (dm_root demo_daemon) = Some (E', d, writes)"
    by (simp add: daemon_entry_def demo_entry_def Let_def)
  show ?thesis using d daemon_refines_stages [OF daemon_reach.entry [OF d]] by auto
qed



end
