(* ===== verification/Sepolicy.thy ===== *)
theory Sepolicy
  imports Files
begin

text \<open>
  The SELinux policy statements (sepolicy/statement.rs, lib.rs, rules.rs, cli.rs): the tokenizer, the
  statement parser, the loading of rules, the built-in rules and the command.  The policy database is
  C++ and a parameter: a value of type \<open>'p\<close> and what each call makes of it.
\<close>

section \<open>Tokens\<close>

datatype token =
    AL | DN | AA | DA | AX | AY | DX | PM | EF | TA | TY | AT | TT | TC | TM | GF
  | LB | RB | CM | ST | TL | HP
  | HX u16
  | ID string

definition keyword_table :: "(string \<times> token) list" where
  "keyword_table =
     [(''allow'', AL), (''deny'', DN), (''auditallow'', AA), (''dontaudit'', DA), (''allowxperm'', AX),
      (''auditallowxperm'', AY), (''dontauditxperm'', DX), (''permissive'', PM), (''enforce'', EF),
      (''typeattribute'', TA), (''type'', TY), (''attribute'', AT), (''type_transition'', TT),
      (''type_change'', TC), (''type_member'', TM), (''genfscon'', GF), (''*'', ST)]"

definition parse_u16 :: "string \<Rightarrow> u16 option" where
  "parse_u16 s = map_option of_nat (parse_unsigned (2 ^ 16) s)"

function extract_token :: "string \<Rightarrow> token list" where
  "extract_token s =
     (case map_of keyword_table s of
        Some t \<Rightarrow> [t]
      | None \<Rightarrow>
          if s = [] then []
          else case split_once (CHR ''{'') s of
            Some (a, b) \<Rightarrow> extract_token a @ [LB] @ extract_token b
          | None \<Rightarrow> (case split_once (CHR ''}'') s of
            Some (a, b) \<Rightarrow> extract_token a @ [RB] @ extract_token b
          | None \<Rightarrow> (case split_once (CHR '','') s of
            Some (a, b) \<Rightarrow> extract_token a @ [CM] @ extract_token b
          | None \<Rightarrow> (case split_once (CHR ''-'') s of
            Some (a, b) \<Rightarrow> extract_token a @ [HP] @ extract_token b
          | None \<Rightarrow> (case strip_prefix ''~'' s of
            Some r \<Rightarrow> TL # extract_token r
          | None \<Rightarrow> (case strip_prefix ''0x'' s of
            Some r \<Rightarrow> [HX (case parse_u16 r of Some n \<Rightarrow> n | None \<Rightarrow> 0)]
          | None \<Rightarrow> [ID s]))))))"
  by pat_completeness auto

lemma split_once_shorter:
  "split_once c s = Some (a, b) \<Longrightarrow> length a < length s \<and> length b < length s"
  by (drule split_once_SomeD) auto

termination extract_token
proof (relation "measure length")
  show "wf (measure length)" by simp
qed (auto dest!: split_once_shorter simp: strip_prefix_def prefix_def split: if_splits)

declare extract_token.simps [simp del]

definition tokenize_statement :: "string \<Rightarrow> token list" where
  "tokenize_statement statement = concat (map extract_token (split_whitespace statement))"

section \<open>Parsing\<close>

datatype parse_error =
    General | AvtabAv token | AvtabXperms token | AvtabType token | TypeState token
  | TypeAttr | TypeTrans | NewType | NewAttr | GenfsCon | ShowHelp | UnknownAction token

record xperm =
  low :: u16
  high :: u16
  reset :: bool

type_synonym 'a parser = "token list \<Rightarrow> parse_error + 'a \<times> token list"

fun parse_id :: "string parser" where
  "parse_id (ID name # ts) = Inr (name, ts)"
| "parse_id _ = Inl General"

fun term_loop :: "string list \<Rightarrow> string list parser" where
  "term_loop names (ID name # ts) = term_loop (names @ [name]) ts"
| "term_loop names (RB # ts) = Inr (names, ts)"
| "term_loop names _ = Inl General"

fun parse_term :: "string list parser" where
  "parse_term (ID name # ts) = Inr ([name], ts)"
| "parse_term (LB # ts) = term_loop [] ts"
| "parse_term _ = Inl General"

fun sterm_loop :: "string list option \<Rightarrow> string list parser" where
  "sterm_loop names (ID name # ts) = sterm_loop (map_option (\<lambda>ns. ns @ [name]) names) ts"
| "sterm_loop names (ST # ts) = sterm_loop None ts"
| "sterm_loop names (RB # ts) = Inr (case names of Some ns \<Rightarrow> ns | None \<Rightarrow> [], ts)"
| "sterm_loop names _ = Inl General"

fun parse_sterm :: "string list parser" where
  "parse_sterm (ID name # ts) = Inr ([name], ts)"
| "parse_sterm (ST # ts) = Inr ([], ts)"
| "parse_sterm (LB # ts) = sterm_loop (Some []) ts"
| "parse_sterm _ = Inl General"

definition parse_xperm :: "xperm parser" where
  "parse_xperm ts =
     (case ts of
        HX l # HP # ts \<Rightarrow>
          (case ts of HX h # ts \<Rightarrow> Inr (\<lparr>low = l, high = h, reset = False\<rparr>, ts) | _ \<Rightarrow> Inl General)
      | HX l # ts \<Rightarrow> Inr (\<lparr>low = l, high = l, reset = False\<rparr>, ts)
      | _ \<Rightarrow> Inl General)"

lemma parse_xperm_shorter: "parse_xperm ts = Inr (x, ts') \<Longrightarrow> length ts' < length ts"
  by (auto simp: parse_xperm_def split: list.splits token.splits)

function xperm_loop :: "bool \<Rightarrow> xperm list \<Rightarrow> xperm list parser" where
  "xperm_loop rs xperms ts =
     (case parse_xperm ts of
        Inl e \<Rightarrow> Inl e
      | Inr (x, ts') \<Rightarrow>
          let xperms = xperms @ [x\<lparr>reset := rs\<rparr>] in
          if ts' \<noteq> [] \<and> hd ts' = RB then Inr (xperms, tl ts') else xperm_loop rs xperms ts')"
  by pat_completeness auto

termination xperm_loop
  by (relation "measure (\<lambda>(rs, xs, ts). length ts)") (auto dest: parse_xperm_shorter)

declare xperm_loop.simps [simp del]

definition xall :: "bool \<Rightarrow> xperm" where
  "xall rs = \<lparr>low = 0, high = 0xFFFF, reset = rs\<rparr>"

definition xperms_body :: "bool \<Rightarrow> xperm list parser" where
  "xperms_body rs ts =
     (case ts of
        LB # ts \<Rightarrow> xperm_loop rs [] ts
      | ST # ts \<Rightarrow> Inr ([xall rs], ts)
      | HX l # ts \<Rightarrow> Inr ([if 0 < l then \<lparr>low = l, high = l, reset = rs\<rparr> else xall rs], ts)
      | _ \<Rightarrow> Inl General)"

definition parse_xperms :: "xperm list parser" where
  "parse_xperms ts =
     (case ts of
        TL # ts \<Rightarrow> if ts \<noteq> [] \<and> hd ts = LB then xperms_body True ts else Inl General
      | _ \<Rightarrow> xperms_body False ts)"

definition match_string :: "string \<Rightarrow> unit parser" where
  "match_string pattern ts =
     (case ts of ID s # ts \<Rightarrow> if s = pattern then Inr ((), ts) else Inl General | _ \<Rightarrow> Inl General)"

section \<open>Statements\<close>

datatype sepol_call =
    Allow "string list" "string list" "string list" "string list"
  | Deny "string list" "string list" "string list" "string list"
  | Auditallow "string list" "string list" "string list" "string list"
  | Dontaudit "string list" "string list" "string list" "string list"
  | Allowxperm "string list" "string list" "string list" "xperm list"
  | Auditallowxperm "string list" "string list" "string list" "xperm list"
  | Dontauditxperm "string list" "string list" "string list" "xperm list"
  | Permissive "string list"
  | Enforce "string list"
  | Typeattribute "string list" "string list"
  | Type string "string list"
  | Attribute string
  | Type_transition string string string string string
  | Type_change string string string string
  | Type_member string string string string
  | Genfscon string string string

definition check_additional_args :: "token list \<Rightarrow> 'a \<Rightarrow> parse_error + 'a" where
  "check_additional_args ts c = (if ts = [] then Inr c else Inl General)"

definition relabel :: "parse_error \<Rightarrow> parse_error + 'a \<Rightarrow> parse_error + 'a" where
  "relabel e r = (case r of Inl _ \<Rightarrow> Inl e | Inr x \<Rightarrow> Inr x)"

definition av_args :: "(string list \<Rightarrow> string list \<Rightarrow> string list \<Rightarrow> string list \<Rightarrow> sepol_call) \<Rightarrow> token list \<Rightarrow> parse_error + sepol_call" where
  "av_args f ts =
     bindE (parse_sterm ts) (\<lambda>(s, ts). bindE (parse_sterm ts) (\<lambda>(t, ts).
     bindE (parse_sterm ts) (\<lambda>(c, ts). bindE (parse_sterm ts) (\<lambda>(p, ts).
     check_additional_args ts (f s t c p)))))"

definition xperm_args :: "(string list \<Rightarrow> string list \<Rightarrow> string list \<Rightarrow> xperm list \<Rightarrow> sepol_call) \<Rightarrow> token list \<Rightarrow> parse_error + sepol_call" where
  "xperm_args f ts =
     bindE (parse_sterm ts) (\<lambda>(s, ts). bindE (parse_sterm ts) (\<lambda>(t, ts).
     bindE (parse_sterm ts) (\<lambda>(c, ts). bindE (match_string ''ioctl'' ts) (\<lambda>(_, ts).
     bindE (parse_xperms ts) (\<lambda>(p, ts). check_additional_args ts (f s t c p))))))"

definition state_args :: "(string list \<Rightarrow> sepol_call) \<Rightarrow> token list \<Rightarrow> parse_error + sepol_call" where
  "state_args f ts = bindE (parse_sterm ts) (\<lambda>(t, ts). check_additional_args ts (f t))"

definition attr_args :: "token list \<Rightarrow> parse_error + sepol_call" where
  "attr_args ts =
     bindE (parse_term ts) (\<lambda>(t, ts). bindE (parse_term ts) (\<lambda>(a, ts).
     check_additional_args ts (Typeattribute t a)))"

definition type_args :: "token list \<Rightarrow> parse_error + sepol_call" where
  "type_args ts =
     bindE (parse_id ts) (\<lambda>(t, ts).
     bindE (if ts = [] then Inr ([], ts) else parse_term ts) (\<lambda>(a, ts).
     check_additional_args ts (Type t a)))"

definition ids4 :: "token list \<Rightarrow> parse_error + (string \<times> string \<times> string \<times> string) \<times> token list" where
  "ids4 ts =
     bindE (parse_id ts) (\<lambda>(s, ts). bindE (parse_id ts) (\<lambda>(t, ts).
     bindE (parse_id ts) (\<lambda>(c, ts). bindE (parse_id ts) (\<lambda>(d, ts). Inr ((s, t, c, d), ts)))))"

definition change_args :: "(string \<Rightarrow> string \<Rightarrow> string \<Rightarrow> string \<Rightarrow> sepol_call) \<Rightarrow> token list \<Rightarrow> parse_error + sepol_call" where
  "change_args f ts = bindE (ids4 ts) (\<lambda>((s, t, c, d), ts). check_additional_args ts (f s t c d))"

definition trans_args :: "token list \<Rightarrow> parse_error + sepol_call" where
  "trans_args ts =
     bindE (ids4 ts) (\<lambda>((s, t, c, d), ts).
     bindE (if ts = [] then Inr ([], ts) else parse_id ts) (\<lambda>(n, ts).
     check_additional_args ts (Type_transition s t c d n)))"

definition genfs_args :: "token list \<Rightarrow> parse_error + sepol_call" where
  "genfs_args ts =
     bindE (parse_id ts) (\<lambda>(s, ts). bindE (parse_id ts) (\<lambda>(t, ts). bindE (parse_id ts) (\<lambda>(c, ts).
     check_additional_args ts (Genfscon s t c))))"

definition attribute_args :: "token list \<Rightarrow> parse_error + sepol_call" where
  "attribute_args ts = bindE (parse_id ts) (\<lambda>(t, ts). check_additional_args ts (Attribute t))"

definition exec_statement :: "token list \<Rightarrow> parse_error + sepol_call" where
  "exec_statement tokens =
     (case tokens of
        [] \<Rightarrow> Inl ShowHelp
      | action # ts \<Rightarrow>
          (case action of
             AL \<Rightarrow> relabel (AvtabAv AL) (av_args Allow ts)
           | DN \<Rightarrow> relabel (AvtabAv DN) (av_args Deny ts)
           | AA \<Rightarrow> relabel (AvtabAv AA) (av_args Auditallow ts)
           | DA \<Rightarrow> relabel (AvtabAv DA) (av_args Dontaudit ts)
           | AX \<Rightarrow> relabel (AvtabXperms AX) (xperm_args Allowxperm ts)
           | AY \<Rightarrow> relabel (AvtabXperms AY) (xperm_args Auditallowxperm ts)
           | DX \<Rightarrow> relabel (AvtabXperms DX) (xperm_args Dontauditxperm ts)
           | PM \<Rightarrow> relabel (TypeState PM) (state_args Permissive ts)
           | EF \<Rightarrow> relabel (TypeState EF) (state_args Enforce ts)
           | TA \<Rightarrow> relabel TypeAttr (attr_args ts)
           | TY \<Rightarrow> relabel NewType (type_args ts)
           | AT \<Rightarrow> relabel NewAttr (attribute_args ts)
           | TC \<Rightarrow> relabel (AvtabType TC) (change_args Type_change ts)
           | TM \<Rightarrow> relabel (AvtabType TM) (change_args Type_member ts)
           | TT \<Rightarrow> relabel TypeTrans (trans_args ts)
           | GF \<Rightarrow> relabel GenfsCon (genfs_args ts)
           | _ \<Rightarrow> Inl (UnknownAction action)))"

section \<open>Loading rules\<close>

definition parse_statement :: "(sepol_call \<Rightarrow> 'p \<Rightarrow> 'p) \<Rightarrow> 'p \<Rightarrow> string \<Rightarrow> 'p" where
  "parse_statement call p statement =
     (let statement = trim statement in
      if statement = [] \<or> prefix ''#'' statement then p
      else (case exec_statement (tokenize_statement statement) of Inr c \<Rightarrow> call c p | Inl e \<Rightarrow> p))"

definition load_rules :: "(sepol_call \<Rightarrow> 'p \<Rightarrow> 'p) \<Rightarrow> 'p \<Rightarrow> string \<Rightarrow> 'p" where
  "load_rules call p rules = for_each_line (\<lambda>p line. (parse_statement call p line, True)) p (read_lines rules)"

definition load_rule_file :: "(sepol_call \<Rightarrow> 'p \<Rightarrow> 'p) \<Rightarrow> 'p \<Rightarrow> bytes option \<Rightarrow> 'p" where
  "load_rule_file call p file = (case file of None \<Rightarrow> p | Some rules \<Rightarrow> load_rules call p rules)"

section \<open>Output\<close>

definition hex_upper :: "nat \<Rightarrow> nat \<Rightarrow> string" where
  "hex_upper width n =
     (let ds = map (\<lambda>c. if 97 \<le> ord c \<and> ord c \<le> 122 then char_of (ord c - 32) else c) (hex_digits n)
      in replicate (width - length ds) (CHR ''0'') @ ds)"

fun fmt_token :: "token \<Rightarrow> string" where
  "fmt_token AL = ''allow''"
| "fmt_token DN = ''deny''"
| "fmt_token AA = ''auditallow''"
| "fmt_token DA = ''dontaudit''"
| "fmt_token AX = ''allowxperm''"
| "fmt_token AY = ''auditallowxperm''"
| "fmt_token DX = ''dontauditxperm''"
| "fmt_token PM = ''permissive''"
| "fmt_token EF = ''enforce''"
| "fmt_token TA = ''typeattribute''"
| "fmt_token TY = ''type''"
| "fmt_token AT = ''attribute''"
| "fmt_token TT = ''type_transition''"
| "fmt_token TC = ''type_change''"
| "fmt_token TM = ''type_member''"
| "fmt_token GF = ''genfscon''"
| "fmt_token LB = ''{''"
| "fmt_token RB = ''}''"
| "fmt_token CM = '',''"
| "fmt_token ST = ''*''"
| "fmt_token TL = ''~''"
| "fmt_token HP = ''-''"
| "fmt_token (HX n) = hex_upper 6 (unat n)"
| "fmt_token (ID s) = s"

fun fmt_hint :: "parse_error \<Rightarrow> string" where
  "fmt_hint General = []"
| "fmt_hint ShowHelp = []"
| "fmt_hint (AvtabAv action) = fmt_token action @ '' *source_type *target_type *class *perm_set''"
| "fmt_hint (AvtabXperms action) = fmt_token action @ '' *source_type *target_type *class operation xperm_set''"
| "fmt_hint (AvtabType action) = fmt_token action @ '' source_type target_type class default_type''"
| "fmt_hint (TypeState action) = fmt_token action @ '' *type''"
| "fmt_hint TypeAttr = ''typeattribute ^type ^attribute''"
| "fmt_hint TypeTrans = ''type_transition source_type target_type class default_type (object_name)''"
| "fmt_hint NewType = ''type type_name ^(attribute)''"
| "fmt_hint NewAttr = ''attribute attribute_name''"
| "fmt_hint GenfsCon = ''genfscon fs_name partial_path fs_context''"
| "fmt_hint (UnknownAction action) = ''Unknown action: '' @ [CHR 0x22] @ fmt_token action @ [CHR 0x22]"

definition help_text :: "string list" where
  "help_text =
     [''** Policy statements:'',
      '''',
      ''One policy statement should be treated as a single parameter;'',
      ''this means each policy statement should be enclosed in quotes.'',
      ''Multiple policy statements can be provided in a single command.'',
      '''',
      ''Statements has a format of '' @ [CHR 0x22] @ ''<rule_name> [args...]'' @ [CHR 0x22] @ ''.'',
      ''Arguments labeled with (^) can accept one or more entries.'',
      ''Multiple entries consist of a space separated list enclosed in braces ({}).'',
      ''Arguments labeled with (*) are the same as (^), but additionally'',
      ''support the match-all operator (*).'',
      '''',
      ''Example: '' @ [CHR 0x22] @ ''allow { s1 s2 } { t1 t2 } class *'' @ [CHR 0x22] @ '''',
      ''Will be expanded to:'',
      '''',
      ''allow s1 t1 class { all-permissions-of-class }'',
      ''allow s1 t2 class { all-permissions-of-class }'',
      ''allow s2 t1 class { all-permissions-of-class }'',
      ''allow s2 t2 class { all-permissions-of-class }'',
      '''',
      ''** Extended permissions:'',
      '''',
      ''The only supported operation for extended permissions right now is '' @ [CHR 0x27] @ ''ioctl'' @ [CHR 0x27] @ ''.'',
      ''xperm_set is one or multiple hexadecimal numeric values ranging from 0x0000 to 0xFFFF.'',
      ''Multiple values consist of a space separated list enclosed in braces ({}).'',
      ''Use the complement operator (~) to specify all permissions except those explicitly listed.'',
      ''Use the range operator (-) to specify all permissions within the low '' @ [CHR 0xE2, CHR 0x80, CHR 0x93] @ '' high range.'',
      ''Use the match all operator (*) to match all ioctl commands (0x0000-0xFFFF).'',
      ''The special value 0 is used to clear all rules.'',
      '''',
      ''Some examples:'',
      ''allowxperm source target class ioctl 0x8910'',
      ''allowxperm source target class ioctl { 0x8910-0x8926 0x892A-0x8935 }'',
      ''allowxperm source target class ioctl ~{ 0x8910 0x892A }'',
      ''allowxperm source target class ioctl *'',
      '''',
      ''** Supported policy statements:'',
      '''']"

definition format_statement_help :: string where
  "format_statement_help =
     concat (map (\<lambda>l. l @ [CHR 0x0A])
       (help_text @ map fmt_hint
          [AvtabAv AL, AvtabAv DN, AvtabAv AA, AvtabAv DA, AvtabXperms AX, AvtabXperms AY, AvtabXperms DX,
           TypeState PM, TypeState EF, TypeAttr, NewType, NewAttr, TypeTrans, AvtabType TC, AvtabType TM, GenfsCon]))"

definition fmt_parse_error :: "parse_error \<Rightarrow> string" where
  "fmt_parse_error e = (if e = ShowHelp then format_statement_help else fmt_hint e)"

definition xperm_to_string :: "xperm \<Rightarrow> string" where
  "xperm_to_string perm =
     (if reset perm then ''~'' else []) @
     (if low perm = high perm then ''{ 0x'' @ hex_upper 4 (unat (low perm)) @ '' }''
      else ''{ 0x'' @ hex_upper 4 (unat (low perm)) @ ''-0x'' @ hex_upper 4 (unat (high perm)) @ '' }'')"

section \<open>The built-in rules\<close>

definition SEPOL_PROC_DOMAIN :: string where "SEPOL_PROC_DOMAIN = ''magisk''"
definition SEPOL_FILE_TYPE :: string where "SEPOL_FILE_TYPE = ''magisk_file''"
definition SEPOL_LOG_TYPE :: string where "SEPOL_LOG_TYPE = ''magisk_log_file''"

definition svcmgr :: "string list" where
  "svcmgr = [''servicemanager'', ''vndservicemanager'', ''hwservicemanager'']"

definition magisk_rules :: "sepol_call list" where
  "magisk_rules =
     (let proc = SEPOL_PROC_DOMAIN; file = SEPOL_FILE_TYPE; log = SEPOL_LOG_TYPE in
      [Deny [] [''kernel''] [''security''] [''load_policy''],
       Type proc [''domain''],
       Typeattribute [proc] [''mlstrustedsubject'', ''netdomain'', ''appdomain''],
       Type file [''file_type''],
       Typeattribute [file] [''mlstrustedobject''],
       Type log [''file_type''],
       Typeattribute [log] [''mlstrustedobject''],
       Allow [''domain''] [file] [''file'', ''dir'', ''fifo_file'', ''chr_file'', ''lnk_file'', ''sock_file''] [],
       Allow [''zygote''] [log] [''fifo_file''] [''open'', ''read''],
       Allow [''domain''] [log] [''fifo_file''] [''write''],
       Allow [proc] [''fs_type'', ''dev_type'', ''file_type'', ''domain'', ''service_manager_type'', ''hwservice_manager_type'', ''vndservice_manager_type'', ''port_type'', ''node_type'', ''property_type''] [] [],
       Permissive [proc],
       Allowxperm [proc] [''fs_type'', ''dev_type'', ''file_type'', ''domain''] [''blk_file'', ''fifo_file'', ''chr_file''] [xall False],
       Allowxperm [proc] [proc] [''tcp_socket'', ''udp_socket'', ''rawip_socket''] [xall False],
       Allow svcmgr [proc] [''dir''] [''search''],
       Allow svcmgr [proc] [''file''] [''open'', ''read'', ''map''],
       Allow svcmgr [proc] [''process''] [''getattr''],
       Allow [''domain''] [proc] [''binder''] [''call'', ''transfer''],
       Allow [''domain''] [proc] [''process''] [''sigchld''],
       Allow [''domain''] [proc] [''fd''] [''use''],
       Allow [''domain''] [proc] [''fifo_file''] [''write'', ''read'', ''open'', ''getattr''],
       Allow [''zygote'', ''shell'', ''platform_app'', ''system_app'', ''priv_app'', ''untrusted_app'', ''untrusted_app_all''] [proc] [''unix_stream_socket''] [''connectto'', ''getopt''],
       Allow [''init'', ''zygote'', ''shell''] [''tmpfs''] [''file''] [],
       Allow [''kernel''] [''rootfs'', ''tmpfs''] [''chr_file''] [''write''],
       Allow [''kernel''] [''tmpfs''] [''fifo_file''] [''open'', ''read'', ''write''],
       Allow [''rootfs''] [''labeledfs'', ''tmpfs''] [''filesystem''] [''associate''],
       Allow [file] [''pipefs'', ''devpts''] [''filesystem''] [''associate''],
       Allow [''kernel''] [] [''file''] [''relabelto''],
       Allow [''kernel''] [''tmpfs''] [''file''] [''relabelfrom''],
       Allow [''kernel''] [''kernel''] [''process''] [''setcurrent''],
       Allow [''kernel''] [proc] [''process''] [''dyntransition''],
       Allow [''init''] [proc] [''process''] [],
       Allow [''kernel''] [''fs_type'', ''dev_type'', ''file_type''] [''file''] [''read'', ''write''],
       Allow [''zygote''] [''zygote''] [''process''] [''execmem''],
       Allow [''zygote''] [''fs_type''] [''filesystem''] [''unmount''],
       Allow [''system_server''] [''system_server''] [''process''] [''execmem''],
       Dontaudit [''llkd''] [proc] [''process''] [''ptrace''],
       Deny [''init''] [''adb_data_file''] [''dir''] [''search''],
       Deny [''vendor_init''] [''adb_data_file''] [''dir''] [''search'']])"

section \<open>The command\<close>

record sepol_cli =
  cl_live :: bool
  cl_magisk :: bool
  cl_compile_split :: bool
  cl_load_split :: bool
  cl_print_rules :: bool
  cl_load :: "string option"
  cl_save :: "string option"
  cl_apply :: "string list"
  cl_polices :: "string list"

text \<open>The policy database: loading gives \<open>None\<close> when it fails; saving tells whether it succeeded.\<close>

record 'p sepol =
  sp_call :: "sepol_call \<Rightarrow> 'p \<Rightarrow> 'p"
  sp_from_file :: "string \<Rightarrow> 'p option"
  sp_from_split :: "'p option"
  sp_compile_split :: "'p option"
  sp_to_file :: "'p \<Rightarrow> string \<Rightarrow> bool"

text \<open>What a run leaves: the policy that was printed, the policies saved and where, and the exit code.\<close>

record 'p sepol_run =
  sr_printed :: "'p option"
  sr_saved :: "('p \<times> string) list"
  sr_code :: int

definition load_source :: "'p sepol \<Rightarrow> sepol_cli \<Rightarrow> 'p option" where
  "load_source D cli =
     (case (cl_load cli, cl_load_split cli, cl_compile_split cli) of
        (Some file, False, False) \<Rightarrow> sp_from_file D file
      | (None, True, False) \<Rightarrow> sp_from_split D
      | (None, False, True) \<Rightarrow> sp_compile_split D
      | (None, False, False) \<Rightarrow> sp_from_file D ''/sys/fs/selinux/policy''
      | _ \<Rightarrow> None)"

definition apply_rules :: "'p sepol \<Rightarrow> (string \<Rightarrow> bytes option) \<Rightarrow> sepol_cli \<Rightarrow> 'p \<Rightarrow> 'p" where
  "apply_rules D files cli p =
     (let p = (if cl_magisk cli then fold (sp_call D) magisk_rules p else p);
          p = fold (\<lambda>file p. load_rule_file (sp_call D) p (files file)) (cl_apply cli) p
      in fold (\<lambda>rules p. load_rules (sp_call D) p rules) (cl_polices cli) p)"

definition save_policy :: "'p sepol \<Rightarrow> sepol_cli \<Rightarrow> 'p \<Rightarrow> 'p sepol_run" where
  "save_policy D cli p =
     (let live = (if cl_live cli then [(p, ''/sys/fs/selinux/load'')] else []) in
      if cl_live cli \<and> \<not> sp_to_file D p ''/sys/fs/selinux/load''
      then \<lparr>sr_printed = None, sr_saved = live, sr_code = 1\<rparr>
      else
        (case cl_save cli of
           None \<Rightarrow> \<lparr>sr_printed = None, sr_saved = live, sr_code = 0\<rparr>
         | Some file \<Rightarrow>
             \<lparr>sr_printed = None, sr_saved = live @ [(p, file)], sr_code = (if sp_to_file D p file then 0 else 1)\<rparr>))"

text \<open>\<open>None\<close> are the arguments when there are none; \<open>Inl\<close> the outcome of the argument parser, whether help was asked for.\<close>

definition policy_main :: "'p sepol \<Rightarrow> (string \<Rightarrow> bytes option) \<Rightarrow> (bool + sepol_cli) option \<Rightarrow> 'p sepol_run" where
  "policy_main D files args =
     (let fails = (\<lambda>code. \<lparr>sr_printed = None, sr_saved = [], sr_code = code\<rparr>) in
      case args of
        None \<Rightarrow> fails 1
      | Some (Inl is_help) \<Rightarrow> fails (if is_help then 0 else 1)
      | Some (Inr cli) \<Rightarrow>
          (case load_source D cli of
             None \<Rightarrow> fails 1
           | Some p \<Rightarrow>
               if cl_print_rules cli then
                 (if cl_magisk cli \<or> cl_apply cli \<noteq> [] \<or> cl_polices cli \<noteq> [] \<or> cl_live cli \<or> cl_save cli \<noteq> None
                  then fails 1 else \<lparr>sr_printed = Some p, sr_saved = [], sr_code = 0\<rparr>)
               else save_policy D cli (apply_rules D files cli p)))"

end
