(* ===== verification/SepolicyText.thy ===== *)
theory SepolicyText
  imports Sepolicy
begin

text \<open>
  A canonical text for every call of the policy database, and that the tokenizer and the parser of
  \<^verbatim>\<open>Sepolicy\<close> read it back; what the parser accepts; and the built-in rules as a rule file.
\<close>

section \<open>Names and calls that have a text\<close>

definition id_ok :: "string \<Rightarrow> bool" where
  "id_ok s \<longleftrightarrow> s \<noteq> [] \<and> map_of keyword_table s = None \<and>
     list_all (\<lambda>c. \<not> is_space c \<and> c \<noteq> CHR ''{'' \<and> c \<noteq> CHR ''}'' \<and> c \<noteq> CHR '','' \<and> c \<noteq> CHR ''-'') s \<and>
     \<not> prefix ''~'' s \<and> \<not> prefix ''0x'' s"

definition xperms_ok :: "xperm list \<Rightarrow> bool" where
  "xperms_ok xs \<longleftrightarrow> xs \<noteq> [] \<and> list_all (\<lambda>x. reset x = reset (hd xs)) xs"

fun call_ok :: "sepol_call \<Rightarrow> bool" where
  "call_ok (Allow s t c p) \<longleftrightarrow> list_all (list_all id_ok) [s, t, c, p]"
| "call_ok (Deny s t c p) \<longleftrightarrow> list_all (list_all id_ok) [s, t, c, p]"
| "call_ok (Auditallow s t c p) \<longleftrightarrow> list_all (list_all id_ok) [s, t, c, p]"
| "call_ok (Dontaudit s t c p) \<longleftrightarrow> list_all (list_all id_ok) [s, t, c, p]"
| "call_ok (Allowxperm s t c p) \<longleftrightarrow> list_all (list_all id_ok) [s, t, c] \<and> xperms_ok p"
| "call_ok (Auditallowxperm s t c p) \<longleftrightarrow> list_all (list_all id_ok) [s, t, c] \<and> xperms_ok p"
| "call_ok (Dontauditxperm s t c p) \<longleftrightarrow> list_all (list_all id_ok) [s, t, c] \<and> xperms_ok p"
| "call_ok (Permissive t) \<longleftrightarrow> list_all id_ok t"
| "call_ok (Enforce t) \<longleftrightarrow> list_all id_ok t"
| "call_ok (Typeattribute t a) \<longleftrightarrow> list_all (list_all id_ok) [t, a]"
| "call_ok (Type t a) \<longleftrightarrow> list_all id_ok (t # a)"
| "call_ok (Attribute t) \<longleftrightarrow> id_ok t"
| "call_ok (Type_transition s t c d n) \<longleftrightarrow> list_all id_ok [s, t, c, d] \<and> (n = [] \<or> id_ok n)"
| "call_ok (Type_change s t c d) \<longleftrightarrow> list_all id_ok [s, t, c, d]"
| "call_ok (Type_member s t c d) \<longleftrightarrow> list_all id_ok [s, t, c, d]"
| "call_ok (Genfscon s t c) \<longleftrightarrow> list_all id_ok [s, t, c]"

section \<open>The text of a call\<close>

text \<open>The numbers are written in decimal after \<open>0x\<close>, which is how the tokenizer reads them.\<close>

definition term_words :: "string list \<Rightarrow> string list" where
  "term_words ns = (case ns of [n] \<Rightarrow> [n] | _ \<Rightarrow> [''{''] @ ns @ [''}''])"

definition sterm_words :: "string list \<Rightarrow> string list" where
  "sterm_words ns = (if ns = [] then [''*''] else term_words ns)"

definition number_word :: "u16 \<Rightarrow> string" where
  "number_word n = ''0x'' @ dec_digits (unat n)"

definition xperm_word :: "xperm \<Rightarrow> string" where
  "xperm_word x = number_word (low x) @ ''-'' @ number_word (high x)"

definition xperms_words :: "xperm list \<Rightarrow> string list" where
  "xperms_words xs = (if reset (hd xs) then [''~''] else []) @ [''{''] @ map xperm_word xs @ [''}'']"

fun call_words :: "sepol_call \<Rightarrow> string list" where
  "call_words (Allow s t c p) = [''allow''] @ sterm_words s @ sterm_words t @ sterm_words c @ sterm_words p"
| "call_words (Deny s t c p) = [''deny''] @ sterm_words s @ sterm_words t @ sterm_words c @ sterm_words p"
| "call_words (Auditallow s t c p) = [''auditallow''] @ sterm_words s @ sterm_words t @ sterm_words c @ sterm_words p"
| "call_words (Dontaudit s t c p) = [''dontaudit''] @ sterm_words s @ sterm_words t @ sterm_words c @ sterm_words p"
| "call_words (Allowxperm s t c p) = [''allowxperm''] @ sterm_words s @ sterm_words t @ sterm_words c @ [''ioctl''] @ xperms_words p"
| "call_words (Auditallowxperm s t c p) = [''auditallowxperm''] @ sterm_words s @ sterm_words t @ sterm_words c @ [''ioctl''] @ xperms_words p"
| "call_words (Dontauditxperm s t c p) = [''dontauditxperm''] @ sterm_words s @ sterm_words t @ sterm_words c @ [''ioctl''] @ xperms_words p"
| "call_words (Permissive t) = [''permissive''] @ sterm_words t"
| "call_words (Enforce t) = [''enforce''] @ sterm_words t"
| "call_words (Typeattribute t a) = [''typeattribute''] @ term_words t @ term_words a"
| "call_words (Type t a) = [''type'', t] @ (if a = [] then [] else term_words a)"
| "call_words (Attribute t) = [''attribute'', t]"
| "call_words (Type_transition s t c d n) = [''type_transition'', s, t, c, d] @ (if n = [] then [] else [n])"
| "call_words (Type_change s t c d) = [''type_change'', s, t, c, d]"
| "call_words (Type_member s t c d) = [''type_member'', s, t, c, d]"
| "call_words (Genfscon s t c) = [''genfscon'', s, t, c]"

definition statement_text :: "sepol_call \<Rightarrow> string" where
  "statement_text c = join_with '' '' (call_words c)"

section \<open>Words become tokens\<close>

definition toks :: "string list \<Rightarrow> token list" where
  "toks ws = concat (map extract_token ws)"

lemma toks_simps [simp]: "toks [] = []" "toks (w # ws) = extract_token w @ toks ws" "toks (ws @ vs) = toks ws @ toks vs"
  by (simp_all add: toks_def)

lemma split_once_absent: "c \<notin> set s \<Longrightarrow> split_once c s = None"
  by (simp add: split_once_def)

lemma extract_nil [simp]: "extract_token [] = []"
  by (subst extract_token.simps) (simp add: keyword_table_def)

lemma extract_keyword: "map_of keyword_table s = Some t \<Longrightarrow> extract_token s = [t]"
  by (subst extract_token.simps) simp

lemma extract_keywords [simp]:
  "extract_token ''allow'' = [AL]" "extract_token ''deny'' = [DN]" "extract_token ''auditallow'' = [AA]"
  "extract_token ''dontaudit'' = [DA]" "extract_token ''allowxperm'' = [AX]" "extract_token ''auditallowxperm'' = [AY]"
  "extract_token ''dontauditxperm'' = [DX]" "extract_token ''permissive'' = [PM]" "extract_token ''enforce'' = [EF]"
  "extract_token ''typeattribute'' = [TA]" "extract_token ''type'' = [TY]" "extract_token ''attribute'' = [AT]"
  "extract_token ''type_transition'' = [TT]" "extract_token ''type_change'' = [TC]" "extract_token ''type_member'' = [TM]"
  "extract_token ''genfscon'' = [GF]" "extract_token ''*'' = [ST]"
  by (rule extract_keyword, simp add: keyword_table_def)+

lemma extract_id [simp]:
  assumes "id_ok s"
  shows "extract_token s = [ID s]"
proof -
  have "split_once c s = None" if "c \<in> {CHR ''{'', CHR ''}'', CHR '','', CHR ''-''}" for c
    using assms that by (intro split_once_absent) (auto simp: id_ok_def list_all_iff)
  moreover have "s \<noteq> []" "map_of keyword_table s = None" "strip_prefix ''~'' s = None" "strip_prefix ''0x'' s = None"
    using assms by (simp_all add: id_ok_def strip_prefix_def)
  ultimately show ?thesis by (subst extract_token.simps) simp
qed

lemma extract_marks [simp]: "extract_token ''{'' = [LB]" "extract_token ''}'' = [RB]" "extract_token ''~'' = [TL]"
  by (subst extract_token.simps, simp add: keyword_table_def split_once_def strip_prefix_def)+

lemma ioctl_ok [simp]: "id_ok ''ioctl''"
  by (simp add: id_ok_def keyword_table_def is_space_def)

lemma keyword_not_0x: "map_of keyword_table (CHR ''0'' # s) = None"
  by (simp add: keyword_table_def)

lemma number_word_chars: "c \<in> set (number_word n) \<Longrightarrow> c = CHR ''x'' \<or> 48 \<le> ord c \<and> ord c \<le> 57"
  using dec_digits_chars [of c] by (auto simp: number_word_def)

lemma number_word_absent [simp]:
  "CHR ''{'' \<notin> set (number_word n)" "CHR ''}'' \<notin> set (number_word n)" "CHR '','' \<notin> set (number_word n)"
  "CHR ''-'' \<notin> set (number_word n)"
  using number_word_chars [of _ n] by force+

lemma number_word_Cons: "number_word n = CHR ''0'' # CHR ''x'' # dec_digits (unat n)"
  by (simp add: number_word_def)

lemma unat_lt2p_16: "unat n < 2 ^ 16" for n :: u16
  using unsigned_less [of n] by simp

lemma parse_number: "parse_u16 (dec_digits (unat n)) = Some n" for n :: u16
proof -
  have "parse_unsigned (2 ^ 16) (dec_digits (unat n)) = Some (unat n)"
    by (rule parse_dec_digits [OF unat_lt2p_16])
  then show ?thesis by (simp add: parse_u16_def)
qed

lemma extract_number [simp]: "extract_token (number_word n) = [HX n]"
proof -
  have "map_of keyword_table (number_word n) = None" by (simp add: number_word_Cons keyword_not_0x)
  moreover have "strip_prefix ''~'' (number_word n) = None" "strip_prefix ''0x'' (number_word n) = Some (dec_digits (unat n))"
    by (simp_all add: strip_prefix_def number_word_Cons)
  moreover have "number_word n \<noteq> []" by (simp add: number_word_Cons)
  ultimately show ?thesis
    by (subst extract_token.simps) (simp add: split_once_absent parse_number)
qed

lemma extract_xperm [simp]: "extract_token (xperm_word x) = [HX (low x), HP, HX (high x)]"
proof -
  have "map_of keyword_table (xperm_word x) = None" by (simp add: xperm_word_def number_word_Cons keyword_not_0x)
  moreover have "xperm_word x \<noteq> []" by (simp add: xperm_word_def)
  moreover have "split_once c (xperm_word x) = None" if "c \<in> {CHR ''{'', CHR ''}'', CHR '',''}" for c
    using that by (intro split_once_absent) (auto simp: xperm_word_def)
  moreover have "split_once (CHR ''-'') (xperm_word x) = Some (number_word (low x), number_word (high x))"
    by (simp add: xperm_word_def)
  ultimately show ?thesis by (subst extract_token.simps) simp
qed

section \<open>Tokens become calls\<close>

lemma toks_ids: "list_all id_ok ns \<Longrightarrow> toks ns = map ID ns"
  by (induction ns) auto

lemma toks_xperms: "toks (map xperm_word xs) = concat (map (\<lambda>x. [HX (low x), HP, HX (high x)]) xs)"
  by (induction xs) auto

lemma term_loop_ids: "term_loop acc (map ID ns @ RB # ts) = Inr (acc @ ns, ts)"
  by (induction ns arbitrary: acc) auto

lemma sterm_loop_ids: "sterm_loop (Some acc) (map ID ns @ RB # ts) = Inr (acc @ ns, ts)"
  by (induction ns arbitrary: acc) auto

lemma parse_term_words:
  "list_all id_ok ns \<Longrightarrow> parse_term (toks (term_words ns) @ ts) = Inr (ns, ts)"
  by (auto simp: term_words_def toks_ids term_loop_ids split: list.split)

lemma parse_sterm_words:
  "list_all id_ok ns \<Longrightarrow> parse_sterm (toks (sterm_words ns) @ ts) = Inr (ns, ts)"
  by (auto simp: sterm_words_def term_words_def toks_ids sterm_loop_ids split: list.split)

lemma parse_xperm_toks:
  "parse_xperm (HX l # HP # HX h # ts) = Inr (\<lparr>low = l, high = h, reset = False\<rparr>, ts)"
  by (simp add: parse_xperm_def)

lemma xperm_loop_toks:
  assumes "xs \<noteq> []" "list_all (\<lambda>x. reset x = rs) xs"
  shows "xperm_loop rs acc (concat (map (\<lambda>x. [HX (low x), HP, HX (high x)]) xs) @ RB # ts) = Inr (acc @ xs, ts)"
  using assms
proof (induction xs arbitrary: acc)
  case (Cons x xs)
  have x: "\<lparr>low = low x, high = high x, reset = rs\<rparr> = x" using Cons.prems by (cases x) simp
  show ?case
  proof (cases xs)
    case Nil
    then show ?thesis by (subst xperm_loop.simps) (simp add: parse_xperm_toks x)
  next
    case (Cons y ys)
    with Cons.IH [of "acc @ [x]"] Cons.prems show ?thesis
      by (subst xperm_loop.simps) (simp add: parse_xperm_toks x)
  qed
qed simp

lemma parse_xperms_words:
  assumes "xperms_ok xs"
  shows "parse_xperms (toks (xperms_words xs) @ ts) = Inr (xs, ts)"
proof -
  have "xperm_loop (reset (hd xs)) [] (concat (map (\<lambda>x. [HX (low x), HP, HX (high x)]) xs) @ RB # ts) = Inr (xs, ts)"
    using assms xperm_loop_toks [of xs "reset (hd xs)" "[]" ts] by (simp add: xperms_ok_def)
  then show ?thesis
    by (cases "reset (hd xs)") (simp_all add: xperms_words_def parse_xperms_def xperms_body_def toks_xperms)
qed

lemmas parse_words = parse_sterm_words parse_term_words parse_xperms_words

lemmas args_defs = av_args_def xperm_args_def state_args_def attr_args_def type_args_def ids4_def change_args_def
  trans_args_def genfs_args_def attribute_args_def check_additional_args_def relabel_def match_string_def

lemma term_words_nonempty [simp]: "list_all id_ok ns \<Longrightarrow> toks (term_words ns) \<noteq> []"
  by (auto simp: term_words_def split: list.split)

lemma exec_words: "call_ok c \<Longrightarrow> exec_statement (toks (call_words c)) = Inr c"
  using parse_sterm_words [where ts = "[]"] parse_term_words [where ts = "[]"] parse_xperms_words [where ts = "[]"]
  by (cases c) (auto simp: exec_statement_def args_defs parse_words)

section \<open>The text of a call is one line of words\<close>

lemma id_word: "id_ok s \<Longrightarrow> is_word s"
  by (auto simp: id_ok_def is_word_def list_all_iff)

lemma ids_words: "list_all id_ok ns \<Longrightarrow> list_all is_word ns"
  by (auto simp: list_all_iff id_word)

lemma mark_words: "is_word ''{''" "is_word ''}''" "is_word ''*''" "is_word ''~''"
  by (simp_all add: is_word_def is_space_def)

lemma term_words_words: "list_all id_ok ns \<Longrightarrow> list_all is_word (term_words ns)"
  by (auto simp: term_words_def ids_words mark_words id_word split: list.split)

lemma sterm_words_words: "list_all id_ok ns \<Longrightarrow> list_all is_word (sterm_words ns)"
  by (simp add: sterm_words_def term_words_words mark_words)

lemma xperm_word_word: "is_word (xperm_word x)"
proof -
  have "\<not> is_space c" if "c \<in> set (number_word n)" for c n
    using number_word_chars [OF that] by (auto simp: is_space_def)
  then show ?thesis by (auto simp: is_word_def xperm_word_def list_all_iff is_space_def)
qed

lemma xperms_words_words: "list_all is_word (xperms_words xs)"
  by (auto simp: xperms_words_def mark_words list_all_iff xperm_word_word)

lemma action_words:
  "is_word ''allow''" "is_word ''deny''" "is_word ''auditallow''" "is_word ''dontaudit''" "is_word ''allowxperm''"
  "is_word ''auditallowxperm''" "is_word ''dontauditxperm''" "is_word ''permissive''" "is_word ''enforce''"
  "is_word ''typeattribute''" "is_word ''type''" "is_word ''attribute''" "is_word ''type_transition''"
  "is_word ''type_change''" "is_word ''type_member''" "is_word ''genfscon''"
  by (simp_all add: is_word_def is_space_def)

lemma call_words_words: "call_ok c \<Longrightarrow> list_all is_word (call_words c)"
  by (cases c) (auto simp: sterm_words_words term_words_words xperms_words_words id_word action_words)

lemma tokenize_text: "call_ok c \<Longrightarrow> tokenize_statement (statement_text c) = toks (call_words c)"
  by (simp add: tokenize_statement_def statement_text_def split_words call_words_words toks_def)

lemma trim_word_ends:
  assumes "s \<noteq> []" "\<not> is_space (hd s)" "\<not> is_space (last s)" "list_all is_space r"
  shows "trim (s @ r) = s"
proof -
  have "dropWhile is_space (s @ r) = s @ r" using assms(1,2) by (cases s) auto
  moreover have "dropWhile is_space (rev r @ rev s) = rev s"
  proof -
    have "dropWhile is_space (rev r @ rev s) = dropWhile is_space (rev s)"
      using assms(4) by (subst dropWhile_append2) (auto simp: list_all_iff)
    also have "\<dots> = rev s"
      using assms(1,3) by (cases s rule: rev_cases) auto
    finally show ?thesis .
  qed
  ultimately show ?thesis by (simp add: trim_def trim_start_def trim_end_def)
qed

lemma join_ends:
  assumes "ws \<noteq> []" "list_all is_word ws"
  shows "join_with '' '' ws \<noteq> [] \<and> hd (join_with '' '' ws) = hd (hd ws) \<and> last (join_with '' '' ws) = last (last ws)"
  using assms by (induction ws rule: induct_list012) (auto simp: is_word_def)

lemma word_ends: "is_word w \<Longrightarrow> \<not> is_space (hd w) \<and> \<not> is_space (last w)"
  by (auto simp: is_word_def list_all_iff)

lemma call_words_nonempty [simp]: "call_words c \<noteq> []"
  by (cases c) simp_all

lemma statement_text_ends:
  assumes "call_ok c"
  shows "statement_text c \<noteq> []" "\<not> is_space (hd (statement_text c))" "\<not> is_space (last (statement_text c))"
    and "hd (statement_text c) = hd (hd (call_words c))"
proof -
  note w = call_words_words [OF assms]
  have "is_word (hd (call_words c))" "is_word (last (call_words c))"
    using w by (simp_all add: list_all_iff)
  with join_ends [OF call_words_nonempty w] show "statement_text c \<noteq> []"
    "\<not> is_space (hd (statement_text c))" "\<not> is_space (last (statement_text c))"
    "hd (statement_text c) = hd (hd (call_words c))"
    by (auto simp: statement_text_def word_ends)
qed

lemma call_words_no_comment: "hd (hd (call_words c)) \<noteq> CHR ''#''"
  by (cases c) simp_all

lemma parse_statement_text:
  assumes "call_ok c" "list_all is_space r"
  shows "parse_statement call p (statement_text c @ r) = call c p"
proof -
  note e = statement_text_ends [OF assms(1)]
  have "trim (statement_text c @ r) = statement_text c" by (rule trim_word_ends [OF e(1-3) assms(2)])
  moreover have "\<not> prefix ''#'' (statement_text c)"
    using e(1,4) call_words_no_comment [of c] by (cases "statement_text c") auto
  ultimately show ?thesis
    using e(1) by (simp add: parse_statement_def tokenize_text assms(1) exec_words)
qed

section \<open>What the parser accepts\<close>

definition toks_ok :: "token list \<Rightarrow> bool" where
  "toks_ok ts \<longleftrightarrow> list_all (\<lambda>t. case t of ID s \<Rightarrow> id_ok s | _ \<Rightarrow> True) ts"

lemma toks_ok_simps [simp]:
  "toks_ok []" "toks_ok (t # ts) \<longleftrightarrow> (case t of ID s \<Rightarrow> id_ok s | _ \<Rightarrow> True) \<and> toks_ok ts"
  "toks_ok (ts @ us) \<longleftrightarrow> toks_ok ts \<and> toks_ok us"
  by (simp_all add: toks_ok_def)

lemma keyword_toks_ok: "map_of keyword_table s = Some t \<Longrightarrow> toks_ok [t]"
  by (drule map_of_SomeD) (auto simp: keyword_table_def)

lemma split_once_pieces:
  "split_once c s = Some (a, b) \<Longrightarrow> list_all P s \<Longrightarrow> list_all P a \<and> list_all P b"
  by (drule split_once_SomeD) (auto simp: list_all_iff)

lemma split_once_NoneD: "split_once c s = None \<Longrightarrow> c \<notin> set s"
  by (auto simp: split_once_def split: if_splits)

text \<open>The branches of the tokenizer.\<close>

lemma extract_token_cases:
  obtains (keyword) k where "map_of keyword_table s = Some k" "extract_token s = [k]"
  | (empty) "s = []" "extract_token s = []"
  | (mark) c k a b where "split_once c s = Some (a, b)" "k \<in> {LB, RB, CM, HP}"
      "extract_token s = extract_token a @ [k] @ extract_token b"
  | (complement) r where "s = CHR ''~'' # r" "extract_token s = TL # extract_token r"
  | (number) n where "extract_token s = [HX n]"
  | (name) "extract_token s = [ID s]" "s \<noteq> []" "map_of keyword_table s = None"
      "CHR ''{'' \<notin> set s" "CHR ''}'' \<notin> set s" "CHR '','' \<notin> set s" "CHR ''-'' \<notin> set s"
      "\<not> prefix ''~'' s" "\<not> prefix ''0x'' s"
proof (cases "map_of keyword_table s")
  case (Some k)
  then show thesis using keyword extract_keyword by blast
next
  case None
  note e = extract_token.simps [of s, unfolded None option.case]
  show thesis
  proof (cases "s = []")
    case True
    then show thesis using empty by simp
  next
    case nonempty: False
    note e = e [unfolded if_not_P [OF nonempty]]
    show thesis
    proof (cases "\<exists>c \<in> {CHR ''{'', CHR ''}'', CHR '','', CHR ''-''}. split_once c s \<noteq> None")
      case True
      then have "\<exists>c k a b. split_once c s = Some (a, b) \<and> k \<in> {LB, RB, CM, HP} \<and>
          extract_token s = extract_token a @ [k] @ extract_token b"
        by (subst (1) e) (auto split: option.split)
      then show thesis using mark by blast
    next
      case False
      then have f: "split_once (CHR ''{'') s = None" "split_once (CHR ''}'') s = None"
        "split_once (CHR '','') s = None" "split_once (CHR ''-'') s = None" by blast+
      note e = e [unfolded f option.case]
      show thesis
      proof (cases "strip_prefix ''~'' s")
        case (Some r)
        then have "s = CHR ''~'' # r" by (auto simp: strip_prefix_def prefix_def split: if_splits)
        with e Some complement show thesis by simp
      next
        case tilde: None
        note p = tilde [unfolded strip_prefix_def]
        show thesis
        proof (cases "strip_prefix ''0x'' s")
          case (Some r)
          with e tilde number show thesis by simp
        next
          case hex: None
          have "\<not> prefix ''~'' s" "\<not> prefix ''0x'' s"
            using tilde hex by (auto simp: strip_prefix_def split: if_splits)
          with e tilde hex name nonempty None f [THEN split_once_NoneD] show thesis by simp
        qed
      qed
    qed
  qed
qed

lemma extract_token_ok: "list_all (\<lambda>c. \<not> is_space c) s \<Longrightarrow> toks_ok (extract_token s)"
proof (induction "length s" arbitrary: s rule: less_induct)
  case less
  show ?case
  proof (cases s rule: extract_token_cases)
    case (keyword k)
    then show ?thesis using keyword_toks_ok by simp
  next
    case (mark c k a b)
    then have "toks_ok (extract_token a)" "toks_ok (extract_token b)"
      using less split_once_shorter [OF mark(1)] split_once_pieces [OF mark(1)] by blast+
    with mark(2,3) show ?thesis by auto
  next
    case (complement r)
    then have "toks_ok (extract_token r)" using less by simp
    with complement show ?thesis by simp
  next
    case name
    have "id_ok s" unfolding id_ok_def list_all_iff
      using name(2-9) less.prems by (intro conjI ballI) (auto simp: list_all_iff)
    with name show ?thesis by simp
  qed simp_all
qed

lemma split_whitespace_words: "list_all is_word (split_whitespace s)"
proof (induction s rule: split_whitespace.induct)
  case (1 s)
  show ?case
  proof (cases "dropWhile is_space s")
    case Nil
    then show ?thesis by (subst split_whitespace.simps) simp
  next
    case (Cons a y)
    then have "\<not> is_space a" using hd_dropWhile [of is_space s] by simp
    then have "is_word (takeWhile (\<lambda>c. \<not> is_space c) (a # y))"
      by (auto simp: is_word_def list_all_iff dest: set_takeWhileD)
    with 1 Cons show ?thesis by (subst split_whitespace.simps) (simp add: Let_def)
  qed
qed

lemma tokenize_ok: "toks_ok (tokenize_statement s)"
proof -
  have "toks_ok (concat (map extract_token ws))" if "list_all is_word ws" for ws
    using that by (induction ws) (auto simp: is_word_def extract_token_ok)
  then show ?thesis by (simp add: tokenize_statement_def split_whitespace_words)
qed

lemma parse_id_ok: "parse_id ts = Inr (n, ts') \<Longrightarrow> toks_ok ts \<Longrightarrow> id_ok n \<and> toks_ok ts'"
  by (cases ts rule: parse_id.cases) auto

lemma term_loop_ok:
  "term_loop acc ts = Inr (ns, ts') \<Longrightarrow> toks_ok ts \<Longrightarrow> list_all id_ok acc \<Longrightarrow> list_all id_ok ns \<and> toks_ok ts'"
  by (induction acc ts rule: term_loop.induct) auto

lemma parse_term_ok: "parse_term ts = Inr (ns, ts') \<Longrightarrow> toks_ok ts \<Longrightarrow> list_all id_ok ns \<and> toks_ok ts'"
  by (cases ts rule: parse_term.cases) (auto dest: term_loop_ok)

lemma sterm_loop_ok:
  "sterm_loop acc ts = Inr (ns, ts') \<Longrightarrow> toks_ok ts \<Longrightarrow> (case acc of Some a \<Rightarrow> list_all id_ok a | None \<Rightarrow> True) \<Longrightarrow>
     list_all id_ok ns \<and> toks_ok ts'"
  by (induction acc ts rule: sterm_loop.induct) (auto split: option.splits)

lemma parse_sterm_ok: "parse_sterm ts = Inr (ns, ts') \<Longrightarrow> toks_ok ts \<Longrightarrow> list_all id_ok ns \<and> toks_ok ts'"
  by (cases ts rule: parse_sterm.cases) (auto dest: sterm_loop_ok)

lemma xperm_loop_ok:
  "xperm_loop rs acc ts = Inr (xs, ts') \<Longrightarrow> list_all (\<lambda>x. reset x = rs) acc \<Longrightarrow>
     xs \<noteq> [] \<and> list_all (\<lambda>x. reset x = rs) xs"
proof (induction rs acc ts rule: xperm_loop.induct)
  case (1 rs acc ts)
  obtain x us where p: "parse_xperm ts = Inr (x, us)"
    using 1(2) by (subst (asm) xperm_loop.simps) (auto split: sum.splits)
  have acc: "list_all (\<lambda>x. reset x = rs) (acc @ [x\<lparr>reset := rs\<rparr>])" using 1(3) by simp
  show ?case
  proof (cases "us \<noteq> [] \<and> hd us = RB")
    case True
    then show ?thesis using 1(2) acc by (subst (asm) xperm_loop.simps) (auto simp: p)
  next
    case False
    then have "xperm_loop rs (acc @ [x\<lparr>reset := rs\<rparr>]) us = Inr (xs, ts')"
      using 1(2) by (subst (asm) xperm_loop.simps) (auto simp: p Let_def)
    from 1(1) [OF p refl refl False this acc] show ?thesis .
  qed
qed

lemma xperms_body_ok: "xperms_body rs ts = Inr (xs, ts') \<Longrightarrow> xs \<noteq> [] \<and> list_all (\<lambda>x. reset x = rs) xs"
  by (auto simp: xperms_body_def xall_def split: list.splits token.splits dest!: xperm_loop_ok)

lemma parse_xperms_ok: "parse_xperms ts = Inr (xs, ts') \<Longrightarrow> xperms_ok xs"
proof -
  assume "parse_xperms ts = Inr (xs, ts')"
  then obtain rs us where "xperms_body rs us = Inr (xs, ts')"
    by (auto simp: parse_xperms_def split: list.splits token.splits if_splits)
  then have "xs \<noteq> []" "list_all (\<lambda>x. reset x = rs) xs" using xperms_body_ok by blast+
  then show ?thesis by (auto simp: xperms_ok_def list_all_iff)
qed

lemma match_string_ok: "match_string w ts = Inr (u, ts') \<Longrightarrow> toks_ok ts \<Longrightarrow> toks_ok ts'"
  by (auto simp: match_string_def split: list.splits token.splits if_splits)

lemmas parse_ok = parse_id_ok parse_term_ok parse_sterm_ok match_string_ok parse_xperms_ok

lemma args_ok:
  assumes "toks_ok ts"
  shows "av_args f ts = Inr c \<Longrightarrow> \<exists>s t k p. c = f s t k p \<and> list_all (list_all id_ok) [s, t, k, p]"
    and "xperm_args g ts = Inr c \<Longrightarrow> \<exists>s t k p. c = g s t k p \<and> list_all (list_all id_ok) [s, t, k] \<and> xperms_ok p"
    and "state_args h ts = Inr c \<Longrightarrow> \<exists>t. c = h t \<and> list_all id_ok t"
    and "attr_args ts = Inr c \<Longrightarrow> call_ok c"
    and "type_args ts = Inr c \<Longrightarrow> call_ok c"
    and "change_args k ts = Inr c \<Longrightarrow> \<exists>s t u d. c = k s t u d \<and> list_all id_ok [s, t, u, d]"
    and "trans_args ts = Inr c \<Longrightarrow> call_ok c"
    and "genfs_args ts = Inr c \<Longrightarrow> call_ok c"
    and "attribute_args ts = Inr c \<Longrightarrow> call_ok c"
  using assms
  by (auto simp: args_defs bindE_eq_Inr_iff split: if_splits dest!: parse_id_ok parse_term_ok parse_sterm_ok match_string_ok parse_xperms_ok)

lemma relabel_Inr [simp]: "relabel e r = Inr x \<longleftrightarrow> r = Inr x"
  by (simp add: relabel_def split: sum.split)

lemma exec_statement_ok:
  assumes "exec_statement ts = Inr c" "toks_ok ts"
  shows "call_ok c"
proof (cases ts)
  case (Cons action us)
  with assms(2) have us: "toks_ok us" by simp
  note ok = args_ok [OF us]
  from assms(1) Cons show ?thesis
    by (cases action) (auto simp: exec_statement_def dest: ok)
qed (use assms in \<open>simp add: exec_statement_def\<close>)

section \<open>Rule files\<close>

lemma read_lines_unlines:
  assumes "list_all (\<lambda>l. CHR 0x0A \<notin> set l) ls"
  shows "read_lines (concat (map (\<lambda>l. l @ [CHR 0x0A]) ls)) = map (\<lambda>l. l @ [CHR 0x0A]) ls"
proof -
  have "split_on (CHR 0x0A) (concat (map (\<lambda>l. l @ [CHR 0x0A]) ls)) = ls @ [[]]"
    using assms by (induction ls) (auto simp: split_on_append_sep split_on_no_sep)
  then show ?thesis by (simp add: read_lines_def Let_def)
qed

lemma join_chars: "c \<in> set (join_with '' '' ws) \<Longrightarrow> c = CHR '' '' \<or> (\<exists>w \<in> set ws. c \<in> set w)"
  by (induction ws rule: induct_list012) auto

lemma statement_text_line:
  assumes "call_ok c"
  shows "CHR 0x0A \<notin> set (statement_text c)"
proof
  assume "CHR 0x0A \<in> set (statement_text c)"
  then obtain w where "w \<in> set (call_words c)" "CHR 0x0A \<in> set w"
    using join_chars [of "CHR 0x0A" "call_words c"] by (auto simp: statement_text_def)
  moreover have "is_space (CHR 0x0A)" by (simp add: is_space_def)
  ultimately show False using call_words_words [OF assms] by (auto simp: list_all_iff is_word_def)
qed

lemma load_rules_text:
  assumes "list_all (\<lambda>c. call_ok c \<and> utf8_valid (statement_text c)) cs"
  shows "load_rules call p (concat (map (\<lambda>c. statement_text c @ [CHR 0x0A]) cs)) = fold call cs p"
proof -
  have lf: "utf8_valid [CHR 0x0A]" by (rule utf8_valid_ascii) simp
  have "list_all (\<lambda>l. CHR 0x0A \<notin> set l) (map statement_text cs)"
    using assms by (auto simp: list_all_iff statement_text_line)
  from read_lines_unlines [OF this]
  have "read_lines (concat (map (\<lambda>c. statement_text c @ [CHR 0x0A]) cs)) = map (\<lambda>c. statement_text c @ [CHR 0x0A]) cs"
    by (simp add: comp_def)
  moreover have "for_each_line (\<lambda>p l. (parse_statement call p l, True)) p (map (\<lambda>c. statement_text c @ [CHR 0x0A]) cs) = fold call cs p"
    using assms lf
    by (induction cs arbitrary: p) (auto simp: utf8_valid_append parse_statement_text is_space_def)
  ultimately show ?thesis by (simp add: load_rules_def)
qed

section \<open>Properties\<close>




lemma demo_statement: "exec_statement (tokenize_statement ''type a {b c}'') = Inr (Type ''a'' [''b'', ''c''])"
  by code_simp


text \<open>
  A file with one statement per line loads the calls in order.  The built-in rules written this way
  give the same policy as the built-in rules.
\<close>

theorem rules_file_loads:
  assumes "list_all (\<lambda>c. call_ok c \<and> utf8_valid (statement_text c)) cs"
  shows "load_rule_file call p (Some (concat (map (\<lambda>c. statement_text c @ [CHR 0x0A]) cs))) = fold call cs p"
  using load_rules_text [OF assms] by (simp add: load_rule_file_def)

text \<open>The names of the built-in rules are lower-case letters, digits and underscores.\<close>

definition simple_name :: "string \<Rightarrow> bool" where
  "simple_name s \<longleftrightarrow> s \<noteq> [] \<and> map_of keyword_table s = None \<and>
     list_all (\<lambda>c. c = CHR ''_'' \<or> 97 \<le> ord c \<and> ord c \<le> 122) s"

lemma simple_char:
  assumes "c = CHR ''_'' \<or> 97 \<le> ord c \<and> ord c \<le> 122"
  shows "\<not> is_space c \<and> c \<noteq> CHR ''{'' \<and> c \<noteq> CHR ''}'' \<and> c \<noteq> CHR '','' \<and> c \<noteq> CHR ''-''" "c \<noteq> CHR ''~''" "c \<noteq> CHR ''0''"
  using assms by (auto simp: is_space_def)

lemma simple_name_ok:
  assumes "simple_name s"
  shows "id_ok s"
proof -
  obtain a r where s: "s = a # r" using assms by (cases s) (simp_all add: simple_name_def)
  have "\<forall>c \<in> set s. c = CHR ''_'' \<or> 97 \<le> ord c \<and> ord c \<le> 122"
    using assms by (simp add: simple_name_def list_all_iff)
  then have "list_all (\<lambda>c. \<not> is_space c \<and> c \<noteq> CHR ''{'' \<and> c \<noteq> CHR ''}'' \<and> c \<noteq> CHR '','' \<and> c \<noteq> CHR ''-'') s"
    "a \<noteq> CHR ''~''" "a \<noteq> CHR ''0''"
    using simple_char unfolding list_all_iff s by simp_all
  then show ?thesis using assms unfolding id_ok_def simple_name_def by (simp add: s)
qed

lemma simple_name_ascii:
  assumes "simple_name s" "c \<in> set s"
  shows "ord c < 128"
proof -
  have "c = CHR ''_'' \<or> 97 \<le> ord c \<and> ord c \<le> 122"
    using assms(1) bspec [OF _ assms(2)] unfolding simple_name_def list_all_iff by blast
  then show ?thesis by (elim disjE) simp_all
qed

fun call_names :: "sepol_call \<Rightarrow> string list" where
  "call_names (Allow s t c p) = s @ t @ c @ p"
| "call_names (Deny s t c p) = s @ t @ c @ p"
| "call_names (Auditallow s t c p) = s @ t @ c @ p"
| "call_names (Dontaudit s t c p) = s @ t @ c @ p"
| "call_names (Allowxperm s t c p) = s @ t @ c"
| "call_names (Auditallowxperm s t c p) = s @ t @ c"
| "call_names (Dontauditxperm s t c p) = s @ t @ c"
| "call_names (Permissive t) = t"
| "call_names (Enforce t) = t"
| "call_names (Typeattribute t a) = t @ a"
| "call_names (Type t a) = t # a"
| "call_names (Attribute t) = [t]"
| "call_names (Type_transition s t c d n) = [s, t, c, d] @ (if n = [] then [] else [n])"
| "call_names (Type_change s t c d) = [s, t, c, d]"
| "call_names (Type_member s t c d) = [s, t, c, d]"
| "call_names (Genfscon s t c) = [s, t, c]"

fun call_xperms :: "sepol_call \<Rightarrow> bool" where
  "call_xperms (Allowxperm s t c p) = xperms_ok p"
| "call_xperms (Auditallowxperm s t c p) = xperms_ok p"
| "call_xperms (Dontauditxperm s t c p) = xperms_ok p"
| "call_xperms _ = True"

definition ascii :: "string \<Rightarrow> bool" where
  "ascii w \<longleftrightarrow> (\<forall>c \<in> set w. ord c < 128)"

lemma ascii_words:
  "ascii ''allow''" "ascii ''deny''" "ascii ''auditallow''" "ascii ''dontaudit''" "ascii ''allowxperm''"
  "ascii ''auditallowxperm''" "ascii ''dontauditxperm''" "ascii ''permissive''" "ascii ''enforce''"
  "ascii ''typeattribute''" "ascii ''type''" "ascii ''attribute''" "ascii ''type_transition''"
  "ascii ''type_change''" "ascii ''type_member''" "ascii ''genfscon''" "ascii ''ioctl''"
  "ascii ''{''" "ascii ''}''" "ascii ''*''" "ascii ''~''"
  by (simp_all add: ascii_def)

lemma term_words_ascii: "list_all ascii ns \<Longrightarrow> list_all ascii (term_words ns) \<and> list_all ascii (sterm_words ns)"
  by (auto simp: term_words_def sterm_words_def ascii_words split: list.split)

lemma xperms_words_ascii: "list_all ascii (xperms_words xs)"
proof -
  have "ord c < 128" if "c \<in> set (number_word n)" for c n
    using number_word_chars [OF that] by (elim disjE) simp_all
  then have "ascii (xperm_word x)" for x by (auto simp: ascii_def xperm_word_def)
  then show ?thesis by (auto simp: xperms_words_def ascii_words list_all_iff)
qed

lemma call_words_ascii: "list_all ascii (call_names k) \<Longrightarrow> list_all ascii (call_words k)"
  by (cases k) (simp_all add: term_words_ascii xperms_words_ascii ascii_words)

lemma simple_names_ok: "list_all simple_name ns \<Longrightarrow> list_all id_ok ns"
  by (induction ns) (simp_all add: simple_name_ok)

lemma simple_call_ok:
  assumes "list_all simple_name (call_names k)" "call_xperms k"
  shows "call_ok k \<and> utf8_valid (statement_text k)"
proof
  have "list_all id_ok (call_names k)" by (rule simple_names_ok [OF assms(1)])
  then show "call_ok k" using assms(2) by (cases k) (auto split: if_splits)
  have "list_all ascii (call_names k)"
    using assms(1) simple_name_ascii by (auto simp: list_all_iff ascii_def)
  from call_words_ascii [OF this] have "\<forall>c \<in> set (statement_text k). ord c < 128"
    using join_chars [of _ "call_words k"] by (fastforce simp: statement_text_def list_all_iff ascii_def)
  then show "utf8_valid (statement_text k)" by (rule utf8_valid_ascii)
qed

lemma magisk_rules_simple: "list_all (\<lambda>k. list_all simple_name (call_names k) \<and> call_xperms k) magisk_rules"
  by (simp add: magisk_rules_def Let_def svcmgr_def SEPOL_PROC_DOMAIN_def SEPOL_FILE_TYPE_def SEPOL_LOG_TYPE_def
      simple_name_def keyword_table_def xperms_ok_def)

lemma magisk_rules_ok: "list_all (\<lambda>c. call_ok c \<and> utf8_valid (statement_text c)) magisk_rules"
  using magisk_rules_simple simple_call_ok by (simp only: list_all_iff) blast

theorem rules_file_loads_witness:
  "load_rule_file (#) [] (Some (concat (map (\<lambda>c. statement_text c @ [CHR 0x0A]) magisk_rules))) = rev magisk_rules"
  using rules_file_loads [OF magisk_rules_ok, of "(#)" "[]"] by (simp add: fold_Cons_rev)

definition plain :: "string \<Rightarrow> bool" where
  "plain w \<longleftrightarrow> list_all (\<lambda>c. \<not> is_space c \<and> c \<noteq> CHR ''{'' \<and> c \<noteq> CHR ''}'' \<and> c \<noteq> CHR '','' \<and> c \<noteq> CHR ''-'') w"

lemma extract_hex:
  assumes "plain w"
  shows "extract_token (''0x'' @ w) = [HX (case parse_u16 w of Some n \<Rightarrow> n | None \<Rightarrow> 0)]"
proof -
  have "split_once c (''0x'' @ w) = None" if "c \<in> {CHR ''{'', CHR ''}'', CHR '','', CHR ''-''}" for c
    using assms that by (intro split_once_absent) (auto simp: plain_def list_all_iff)
  moreover have "strip_prefix ''~'' (''0x'' @ w) = None" "strip_prefix ''0x'' (''0x'' @ w) = Some w"
    by (simp_all add: strip_prefix_def)
  ultimately show ?thesis
    by (subst extract_token.simps) (simp add: keyword_not_0x)
qed

text \<open>
  Extended permissions.  A number is read in decimal although it is written with \<open>0x\<close>, and a number
  that is 0 or has a letter digit, and so is not a decimal number, stands for the whole range, which is
  granted and not reset.
\<close>

theorem xperm_number_meaning:
  assumes "list_all (list_all id_ok) [s, t, c]" "plain w"
  shows "exec_statement (tokenize_statement
      (join_with '' '' ([''allowxperm''] @ sterm_words s @ sterm_words t @ sterm_words c @ [''ioctl'', ''0x'' @ w]))) =
    Inr (Allowxperm s t c
      [case parse_u16 w of Some n \<Rightarrow> if 0 < n then \<lparr>low = n, high = n, reset = False\<rparr> else xall False | None \<Rightarrow> xall False])"
proof -
  let ?ws = "[''allowxperm''] @ sterm_words s @ sterm_words t @ sterm_words c @ [''ioctl'', ''0x'' @ w]"
  have "is_word (''0x'' @ w)" "is_word ''ioctl''"
    using assms(2) by (auto simp: is_word_def plain_def list_all_iff is_space_def)
  then have "list_all is_word ?ws" using assms(1) by (simp add: sterm_words_words action_words)
  then have "tokenize_statement (join_with '' '' ?ws) = toks ?ws"
    by (simp only: tokenize_statement_def split_words toks_def)
  then show ?thesis
    using assms(1) extract_hex [OF assms(2)]
    by (simp add: exec_statement_def args_defs parse_sterm_words parse_xperms_def xperms_body_def split: option.split)
qed

theorem xperm_number_meaning_witness:
  "exec_statement (tokenize_statement ''allowxperm a b c ioctl 0x892A'') = Inr (Allowxperm [''a''] [''b''] [''c''] [xall False]) \<and>
   exec_statement (tokenize_statement ''allowxperm a b c ioctl 0x8910'') =
     Inr (Allowxperm [''a''] [''b''] [''c''] [\<lparr>low = 8910, high = 8910, reset = False\<rparr>])"
proof -
  have ok: "list_all (list_all id_ok) [[''a''], [''b''], [''c'']]" "plain ''892A''" "plain ''8910''"
    "parse_u16 ''892A'' = None" "parse_u16 ''8910'' = Some 8910"
    by (simp_all add: id_ok_def keyword_table_def plain_def is_space_def parse_u16_def parse_unsigned_def)
  show ?thesis
    using xperm_number_meaning [OF ok(1,2)] xperm_number_meaning [OF ok(1,3)] ok(4,5)
    by (simp add: sterm_words_def term_words_def)
qed

end
