(* ===== verification/ThreadPool.thy ===== *)
theory ThreadPool
  imports Prelude
begin

text \<open>
  The thread pool of the daemon (core/thread.rs) as a step relation.  A worker or the producer holds
  the lock between two waits, so a step is what happens from taking the lock to releasing it.  The
  condition variables are those of the standard library: a notification wakes one waiter if there is
  one and is lost otherwise, and a wait may end without one.  Each process that has a pool posts its
  tasks from the loop of its main thread (the daemon in \<open>handle_requests\<close>, a companion in
  \<open>exec_companion_entry\<close>), so there is one producer.
\<close>

section \<open>State\<close>

text \<open>
  Where a worker is: before taking the lock, waiting, woken up, timed out (both before they have the
  lock again), running, or ended.
\<close>

datatype 't loc = AtLoop | Waiting | Signalled | TimedOut | Running "'t option" | Gone

record 't worker =
  w_core :: bool
  w_loc :: "'t loc"

datatype 't producer = Free | Blocked 't | Woken 't

text \<open>The last two fields record the tasks posted and the tasks started, in order.\<close>

record 't pool =
  idle_threads :: int
  total_threads :: int
  task :: "'t option"
  workers :: "'t worker list"
  producer :: "'t producer"
  posted :: "'t list"
  started :: "'t list"

definition CORE_POOL_SIZE :: int where "CORE_POOL_SIZE = 3"

definition pool_default :: "'t pool" where
  "pool_default = \<lparr>idle_threads = 0, total_threads = 0, task = None, workers = [], producer = Free, posted = [], started = []\<rparr>"

section \<open>Steps\<close>

abbreviation at :: "'t pool \<Rightarrow> nat \<Rightarrow> 't loc \<Rightarrow> bool" where
  "at s i l \<equiv> i < length (workers s) \<and> w_loc (workers s ! i) = l"

definition move :: "nat \<Rightarrow> 't loc \<Rightarrow> 't pool \<Rightarrow> 't pool" where
  "move i l s = s\<lparr>workers := (workers s)[i := (workers s ! i)\<lparr>w_loc := l\<rparr>]\<rparr>"

text \<open>\<open>task.take()\<close>, the notification of the producer and the start of the task.\<close>

definition wake_producer :: "'t producer \<Rightarrow> 't producer" where
  "wake_producer p = (case p of Blocked t \<Rightarrow> Woken t | _ \<Rightarrow> p)"

definition take_task :: "nat \<Rightarrow> 't pool \<Rightarrow> 't pool" where
  "take_task i s =
     (move i (Running (task s)) s)\<lparr>task := None, producer := wake_producer (producer s),
       started := started s @ (case task s of Some t \<Rightarrow> [t] | None \<Rightarrow> [])\<rparr>"

definition put_task :: "'t \<Rightarrow> 't pool \<Rightarrow> 't pool" where
  "put_task t s = s\<lparr>task := Some t, posted := posted s @ [t], producer := Free\<rparr>"

definition spawn :: "'t pool \<Rightarrow> 't pool" where
  "spawn s =
     s\<lparr>total_threads := total_threads s + 1,
       workers := workers s @ [\<lparr>w_core = (total_threads s + 1 \<le> CORE_POOL_SIZE), w_loc = AtLoop\<rparr>]\<rparr>"

text \<open>The end of \<open>exec_task_impl\<close>, when the slot is free.\<close>

inductive exec_task :: "'t \<Rightarrow> 't pool \<Rightarrow> 't pool \<Rightarrow> bool" where
  spawned: "task s = None \<Longrightarrow> idle_threads s = 0 \<Longrightarrow> exec_task t s (spawn (put_task t s))"
| notified: "task s = None \<Longrightarrow> idle_threads s \<noteq> 0 \<Longrightarrow> at s i Waiting \<Longrightarrow> exec_task t s (move i Signalled (put_task t s))"
| unheard: "task s = None \<Longrightarrow> idle_threads s \<noteq> 0 \<Longrightarrow> \<forall>i. \<not> at s i Waiting \<Longrightarrow> exec_task t s (put_task t s)"

inductive pool_step :: "'t pool \<Rightarrow> 't pool \<Rightarrow> bool" where
  post: "producer s = Free \<Longrightarrow> exec_task t s s' \<Longrightarrow> pool_step s s'"
| block: "producer s = Free \<Longrightarrow> task s \<noteq> None \<Longrightarrow> pool_step s (s\<lparr>producer := Blocked t\<rparr>)"
| resume: "producer s = Woken t \<Longrightarrow> exec_task t s s' \<Longrightarrow> pool_step s s'"
| block_again: "producer s = Woken t \<Longrightarrow> task s \<noteq> None \<Longrightarrow> pool_step s (s\<lparr>producer := Blocked t\<rparr>)"
| producer_wakes: "producer s = Blocked t \<Longrightarrow> pool_step s (s\<lparr>producer := Woken t\<rparr>)"
| enter_take: "at s i AtLoop \<Longrightarrow> task s \<noteq> None \<Longrightarrow> pool_step s (take_task i s)"
| enter_wait: "at s i AtLoop \<Longrightarrow> task s = None \<Longrightarrow>
    pool_step s ((move i Waiting s)\<lparr>idle_threads := idle_threads s + 1\<rparr>)"
| worker_wakes: "at s i Waiting \<Longrightarrow> pool_step s (move i Signalled s)"
| times_out: "at s i Waiting \<Longrightarrow> \<not> w_core (workers s ! i) \<Longrightarrow> pool_step s (move i TimedOut s)"
| leave: "at s i TimedOut \<Longrightarrow>
    pool_step s ((move i Gone s)\<lparr>idle_threads := idle_threads s - 1, total_threads := total_threads s - 1\<rparr>)"
| wait_take: "at s i Signalled \<Longrightarrow> pool_step s ((take_task i s)\<lparr>idle_threads := idle_threads s - 1\<rparr>)"
| finish: "at s i (Running t) \<Longrightarrow> pool_step s (move i AtLoop s)"

inductive pool_reachable :: "'t pool \<Rightarrow> bool" where
  initial: "pool_reachable pool_default"
| step: "pool_reachable s \<Longrightarrow> pool_step s s' \<Longrightarrow> pool_reachable s'"

inductive_cases exec_taskE: "exec_task t s s'"
inductive_cases pool_stepE: "pool_step s s'"

section \<open>The counters and the tasks\<close>

definition count_at :: "('t loc \<Rightarrow> bool) \<Rightarrow> 't pool \<Rightarrow> nat" where
  "count_at P s = length (filter (\<lambda>w. P (w_loc w)) (workers s))"

fun idle_loc :: "'t loc \<Rightarrow> bool" where
  "idle_loc Waiting = True"
| "idle_loc Signalled = True"
| "idle_loc TimedOut = True"
| "idle_loc _ = False"

definition pending :: "'t pool \<Rightarrow> 't list" where
  "pending s = (case task s of Some t \<Rightarrow> [t] | None \<Rightarrow> [])"

text \<open>While a task is in the slot, a worker is about to look at it or none is waiting.\<close>

definition heard :: "'t pool \<Rightarrow> bool" where
  "heard s \<longleftrightarrow> task s = None \<or> (\<exists>i. at s i Signalled \<or> at s i AtLoop) \<or> (\<forall>i. \<not> at s i Waiting)"

definition pool_inv :: "'t pool \<Rightarrow> bool" where
  "pool_inv s \<longleftrightarrow>
     idle_threads s = int (count_at idle_loc s) \<and>
     total_threads s = int (count_at (\<lambda>l. l \<noteq> Gone) s) \<and>
     posted s = started s @ pending s \<and>
     heard s"

lemma length_filter_update:
  assumes "i < length xs"
  shows "int (length (filter P (xs[i := y]))) =
    int (length (filter P xs)) - (if P (xs ! i) then 1 else 0) + (if P y then 1 else 0)"
proof -
  have "filter P xs = filter P (take i xs) @ (if P (xs ! i) then [xs ! i] else []) @ filter P (drop (Suc i) xs)"
    by (subst id_take_nth_drop [OF assms]) (simp del: append_take_drop_id)
  then show ?thesis using assms by (simp add: upd_conv_take_nth_drop)
qed

lemma count_move:
  assumes "at s i l"
  shows "int (count_at P (move i l' s)) = int (count_at P s) - (if P l then 1 else 0) + (if P l' then 1 else 0)"
  using assms by (auto simp: count_at_def move_def length_filter_update)

lemma move_fields [simp]:
  "idle_threads (move i l s) = idle_threads s" "total_threads (move i l s) = total_threads s"
  "task (move i l s) = task s" "posted (move i l s) = posted s" "started (move i l s) = started s"
  "producer (move i l s) = producer s" "length (workers (move i l s)) = length (workers s)"
  by (simp_all add: move_def)

lemma count_cong: "workers s = workers s' \<Longrightarrow> count_at P s = count_at P s'"
  by (simp add: count_at_def)

lemma loc_move:
  "i < length (workers s) \<Longrightarrow> w_loc (workers (move i l s) ! j) = (if j = i then l else w_loc (workers s ! j))"
  by (cases "i = j") (auto simp: move_def)

lemma core_move [simp]: "w_core (workers (move i l s) ! j) = w_core (workers s ! j)"
  by (cases "i = j"; cases "i < length (workers s)") (auto simp: move_def list_update_beyond)

lemma heard_move:
  assumes "heard s" "at s i l" "l \<noteq> Signalled" "l \<noteq> AtLoop" "l' \<noteq> Waiting"
  shows "heard (move i l' s)"
proof (cases "\<exists>j. at s j Signalled \<or> at s j AtLoop")
  case True
  then obtain j where j: "at s j Signalled \<or> at s j AtLoop" by blast
  then have "j \<noteq> i" using assms by auto
  then have "at (move i l' s) j Signalled \<or> at (move i l' s) j AtLoop" using j assms(2) by (auto simp: loc_move)
  then show ?thesis unfolding heard_def by blast
next
  case False
  then have "task s = None \<or> (\<forall>j. \<not> at s j Waiting)" using assms(1) unfolding heard_def by blast
  then show ?thesis using assms(2,5) unfolding heard_def by (auto simp: loc_move)
qed

lemma heard_at: "at s i Signalled \<Longrightarrow> heard s" "at s i AtLoop \<Longrightarrow> heard s"
  unfolding heard_def by blast+

lemma heard_none: "task s = None \<Longrightarrow> heard s"
  by (simp add: heard_def)

lemma heard_cong: "workers s = workers s' \<Longrightarrow> task s = task s' \<Longrightarrow> heard s = heard s'"
  by (simp add: heard_def)

lemma put_task_fields [simp]:
  "idle_threads (put_task t s) = idle_threads s" "total_threads (put_task t s) = total_threads s"
  "task (put_task t s) = Some t" "posted (put_task t s) = posted s @ [t]" "started (put_task t s) = started s"
  "workers (put_task t s) = workers s" "producer (put_task t s) = Free"
  by (simp_all add: put_task_def)

lemma spawn_fields [simp]:
  "idle_threads (spawn s) = idle_threads s" "total_threads (spawn s) = total_threads s + 1"
  "task (spawn s) = task s" "posted (spawn s) = posted s" "started (spawn s) = started s" "producer (spawn s) = producer s"
  by (simp_all add: spawn_def)

lemma count_spawn: "count_at P (spawn s) = count_at P s + (if P AtLoop then 1 else 0)"
  by (simp add: count_at_def spawn_def)

lemma at_spawn: "at (spawn s) (length (workers s)) AtLoop"
  by (simp add: spawn_def)

lemma exec_task_inv:
  assumes "exec_task t s s'" "pool_inv s"
  shows "pool_inv s'"
  using assms(1)
proof cases
  case spawned
  have "heard (spawn (put_task t s))" using at_spawn [of "put_task t s"] by (rule heard_at)
  then show ?thesis
    using assms(2) spawned unfolding pool_inv_def spawned(1)
    by (simp add: count_spawn pending_def count_cong [of "put_task t s" s])
next
  case (notified i)
  have i: "at (put_task t s) i Waiting" using notified by simp
  have "at (move i Signalled (put_task t s)) i Signalled" using i by (simp add: loc_move)
  then have "heard (move i Signalled (put_task t s))" by (rule heard_at)
  then show ?thesis
    using assms(2) notified unfolding pool_inv_def notified(1)
    by (simp add: count_move [OF i] pending_def count_cong [of "put_task t s" s])
next
  case unheard
  then have "heard (put_task t s)" by (simp add: heard_def)
  then show ?thesis
    using assms(2) unheard unfolding pool_inv_def unheard(1)
    by (simp add: pending_def count_cong [of "put_task t s" s])
qed

lemma producer_inv: "pool_inv s \<Longrightarrow> pool_inv (s\<lparr>producer := p\<rparr>)"
  by (simp add: pool_inv_def pending_def count_at_def heard_def)

lemma take_task_fields [simp]:
  "idle_threads (take_task i s) = idle_threads s" "total_threads (take_task i s) = total_threads s"
  "task (take_task i s) = None" "posted (take_task i s) = posted s" "started (take_task i s) = started s @ pending s"
  "workers (take_task i s) = workers (move i (Running (task s)) s)"
  by (simp_all add: take_task_def pending_def)

lemma count_take:
  assumes "at s i l"
  shows "int (count_at P (take_task i s)) =
    int (count_at P s) - (if P l then 1 else 0) + (if P (Running (task s)) then 1 else 0)"
  using count_move [OF assms, of P "Running (task s)"]
  by (simp add: count_cong [of "take_task i s" "move i (Running (task s)) s"])

lemmas pool_counts = count_move count_take count_spawn

lemma pool_step_inv:
  assumes "pool_step s s'" "pool_inv s"
  shows "pool_inv s'"
  using assms(1)
proof cases
  case (post t)
  then show ?thesis using exec_task_inv [OF _ assms(2)] by simp
next
  case (block t)
  then show ?thesis using assms(2) by (simp add: producer_inv)
next
  case (resume t)
  then show ?thesis using exec_task_inv [OF _ assms(2)] by simp
next
  case (block_again t)
  then show ?thesis using assms(2) by (simp add: producer_inv)
next
  case (producer_wakes t)
  then show ?thesis using assms(2) by (simp add: producer_inv)
next
  case (enter_take i)
  then have i: "at s i AtLoop" by simp
  show ?thesis using assms(2) unfolding enter_take(1) pool_inv_def
    by (simp add: count_take [OF i] pending_def heard_none)
next
  case (enter_wait i)
  then have i: "at s i AtLoop" by simp
  show ?thesis using assms(2) enter_wait(3) unfolding enter_wait(1) pool_inv_def
    using count_move [OF i, of idle_loc Waiting] count_move [OF i, of "\<lambda>l. l \<noteq> Gone" Waiting]
    by (simp add: pending_def count_at_def heard_none)
next
  case (worker_wakes i)
  then have i: "at s i Waiting" by simp
  then have "at (move i Signalled s) i Signalled" by (simp add: loc_move)
  then have "heard (move i Signalled s)" by (rule heard_at)
  then show ?thesis using assms(2) unfolding worker_wakes(1) pool_inv_def
    by (simp add: count_move [OF i] pending_def)
next
  case (times_out i)
  then have i: "at s i Waiting" by simp
  have "heard (move i TimedOut s)" by (rule heard_move [OF _ i]) (use assms(2) in \<open>simp_all add: pool_inv_def\<close>)
  then show ?thesis using assms(2) unfolding times_out(1) pool_inv_def
    by (simp add: count_move [OF i] pending_def)
next
  case (leave i)
  then have i: "at s i TimedOut" by simp
  have "heard (move i Gone s)" by (rule heard_move [OF _ i]) (use assms(2) in \<open>simp_all add: pool_inv_def\<close>)
  then have "heard s'" unfolding leave(1) by (simp add: heard_def)
  then show ?thesis using assms(2) unfolding leave(1) pool_inv_def
    using count_move [OF i, of idle_loc Gone] count_move [OF i, of "\<lambda>l. l \<noteq> Gone" Gone]
    by (simp add: pending_def count_at_def)
next
  case (wait_take i)
  then have i: "at s i Signalled" by simp
  show ?thesis using assms(2) unfolding wait_take(1) pool_inv_def
    using count_take [OF i, of idle_loc] count_take [OF i, of "\<lambda>l. l \<noteq> Gone"]
    by (simp add: pending_def count_at_def heard_none)
next
  case (finish i t)
  then have i: "at s i (Running t)" by simp
  then have "at (move i AtLoop s) i AtLoop" by (simp add: loc_move)
  then have "heard (move i AtLoop s)" by (rule heard_at)
  then show ?thesis using assms(2) unfolding finish(1) pool_inv_def
    by (simp add: count_move [OF i] pending_def)
qed

lemma pool_reachable_inv:
  assumes "pool_reachable s"
  shows "pool_inv s"
  using assms
proof induction
  case initial
  show ?case by (simp add: pool_inv_def pool_default_def count_at_def pending_def heard_none)
next
  case (step s s')
  then show ?case by (blast intro: pool_step_inv)
qed

section \<open>A task that no worker hears of\<close>

text \<open>
  A worker whose wait has timed out is still counted as idle until it has the lock.  A task posted in
  between is announced to nobody, and the worker leaves without looking at the slot.
\<close>

definition stalled :: "'t pool \<Rightarrow> bool" where
  "stalled s \<longleftrightarrow> task s \<noteq> None \<and> (\<forall>i < length (workers s). w_loc (workers s ! i) = Gone \<or> (\<exists>t. w_loc (workers s ! i) = Running t))"

text \<open>A step in which no worker comes back from its task.\<close>

definition quiet_step :: "'t pool \<Rightarrow> 't pool \<Rightarrow> bool" where
  "quiet_step s s' \<longleftrightarrow> pool_step s s' \<and> (\<forall>i t. at s i (Running t) \<longrightarrow> \<not> at s' i AtLoop)"

lemma stalled_quiet_step:
  assumes "stalled s" "quiet_step s s'"
  shows "stalled s' \<and> task s' = task s"
proof -
  have at: "\<not> at s i AtLoop" "\<not> at s i Waiting" "\<not> at s i Signalled" "\<not> at s i TimedOut" for i
    using assms(1) by (auto simp: stalled_def)
  have some: "task s \<noteq> None" using assms(1) by (simp add: stalled_def)
  have "pool_step s s'" using assms(2) by (simp add: quiet_step_def)
  then show ?thesis
  proof cases
    case (finish i t)
    then have "at s' i AtLoop" by (simp add: loc_move)
    then show ?thesis using assms(2) finish unfolding quiet_step_def by blast
  qed (use at some assms(1) in \<open>auto simp: stalled_def elim: exec_taskE\<close>)
qed

lemmas pool_trace = pool_default_def put_task_def spawn_def move_def take_task_def wake_producer_def CORE_POOL_SIZE_def

definition busy_pool :: "nat \<Rightarrow> nat pool" where
  "busy_pool n =
     \<lparr>idle_threads = 0, total_threads = int n, task = None,
      workers = map (\<lambda>i. \<lparr>w_core = (i < 3), w_loc = Running (Some i)\<rparr>) [0..<n],
      producer = Free, posted = [0..<n], started = [0..<n]\<rparr>"

lemma busy_pool_reachable: "pool_reachable (busy_pool n)"
proof (induction n)
  case 0
  then show ?case using pool_reachable.initial by (simp add: busy_pool_def pool_default_def)
next
  case (Suc n)
  let ?s = "spawn (put_task n (busy_pool n))"
  have "pool_step (busy_pool n) ?s"
    by (rule post [OF _ spawned]) (simp_all add: busy_pool_def)
  with Suc have "pool_reachable ?s" by (rule pool_reachable.step)
  moreover have "pool_step ?s (take_task n ?s)"
    by (rule enter_take) (simp_all add: busy_pool_def pool_trace nth_append)
  ultimately have "pool_reachable (take_task n ?s)" by (rule pool_reachable.step)
  moreover have "take_task n ?s = busy_pool (Suc n)"
    by (auto simp: busy_pool_def pool_trace list_update_append nth_append)
  ultimately show ?case by simp
qed

text \<open>The task of the slot is never announced: the worker that counts as idle has timed out.\<close>

definition expired_pool :: "nat pool" where
  "expired_pool = (move 3 TimedOut (busy_pool 4))\<lparr>idle_threads := 1\<rparr>"

definition lost_wakeup :: "nat pool" where
  "lost_wakeup = (put_task 4 (move 3 Gone (busy_pool 4)))\<lparr>total_threads := 3\<rparr>"

lemma expired_pool_reachable: "pool_reachable expired_pool"
proof -
  let ?l = "move 3 AtLoop (busy_pool 4)"
  let ?w = "(move 3 Waiting ?l)\<lparr>idle_threads := idle_threads ?l + 1\<rparr>"
  have "pool_step (busy_pool 4) ?l" by (rule finish) (simp add: busy_pool_def)
  then have "pool_reachable ?l" by (rule pool_reachable.step [OF busy_pool_reachable])
  moreover have "pool_step ?l ?w" by (rule enter_wait) (simp_all add: busy_pool_def loc_move)
  ultimately have "pool_reachable ?w" by (rule pool_reachable.step)
  moreover have "pool_step ?w (move 3 TimedOut ?w)"
    by (rule times_out) (simp_all add: busy_pool_def move_def)
  ultimately have "pool_reachable (move 3 TimedOut ?w)" by (rule pool_reachable.step)
  moreover have "move 3 TimedOut ?w = expired_pool"
    by (simp add: expired_pool_def busy_pool_def move_def)
  ultimately show ?thesis by simp
qed

lemma lost_wakeup_reachable: "pool_reachable lost_wakeup"
proof -
  let ?p = "put_task 4 expired_pool"
  let ?g = "(move 3 Gone ?p)\<lparr>idle_threads := idle_threads ?p - 1, total_threads := total_threads ?p - 1\<rparr>"
  have workers: "workers expired_pool = map (\<lambda>i. \<lparr>w_core = i < 3, w_loc = if i = 3 then TimedOut else Running (Some i)\<rparr>) [0, 1, 2, 3]"
    by (simp add: expired_pool_def busy_pool_def move_def upt_rec)
  have none: "\<not> at expired_pool i Waiting" for i
  proof
    assume "at expired_pool i Waiting"
    then have "workers expired_pool ! i \<in> set (workers expired_pool)" "w_loc (workers expired_pool ! i) = Waiting"
      by simp_all
    then show False unfolding workers by auto
  qed
  have "exec_task 4 expired_pool ?p"
    by (rule unheard) (use none in \<open>simp_all add: expired_pool_def busy_pool_def\<close>)
  then have "pool_step expired_pool ?p"
    by (rule post [rotated]) (simp add: expired_pool_def busy_pool_def)
  then have "pool_reachable ?p" by (rule pool_reachable.step [OF expired_pool_reachable])
  moreover have "pool_step ?p ?g" by (rule leave) (simp add: workers)
  ultimately have "pool_reachable ?g" by (rule pool_reachable.step)
  moreover have "?g = lost_wakeup"
    by (simp add: lost_wakeup_def expired_pool_def busy_pool_def move_def put_task_def)
  ultimately show ?thesis by simp
qed

section \<open>Properties\<close>

text \<open>
  C18. In every reachable state of the thread pool the counter of idle threads is the number of workers
  that wait or have yet to return from waiting, the counter of threads is the number of workers that have
  not ended, and the tasks started so far are the tasks posted so far, each once and in order, but for the
  one still in the slot.
\<close>

theorem pool_counters:
  assumes "pool_reachable s"
  shows "idle_threads s = int (count_at idle_loc s) \<and>
    total_threads s = int (count_at (\<lambda>l. l \<noteq> Gone) s) \<and>
    posted s = started s @ (case task s of Some t \<Rightarrow> [t] | None \<Rightarrow> [])"
  using pool_reachable_inv [OF assms] by (simp add: pool_inv_def pending_def)

theorem pool_counters_witness:
  "pool_reachable lost_wakeup \<and> idle_threads lost_wakeup = int (count_at idle_loc lost_wakeup) \<and>
   posted lost_wakeup = [0, 1, 2, 3, 4] \<and> started lost_wakeup = [0, 1, 2, 3]"
  using lost_wakeup_reachable pool_counters [OF lost_wakeup_reachable]
  by (simp add: lost_wakeup_def busy_pool_def upt_rec)

text \<open>
  A posted task can be started by the next step of some worker, unless every worker is busy with
  another task, has ended, or is ending because its wait timed out.
\<close>

theorem pool_progress:
  assumes "pool_reachable s" "task s = Some t"
  shows "(\<exists>s' i. pool_step s s' \<and> at s' i (Running (Some t)) \<and> started s' = started s @ [t]) \<or>
    (\<forall>w \<in> set (workers s). w_loc w \<in> {TimedOut, Gone} \<or> (\<exists>r. w_loc w = Running r))"
proof (cases "\<exists>i. at s i Signalled \<or> at s i AtLoop")
  case True
  then obtain i where i: "at s i Signalled \<or> at s i AtLoop" by blast
  then obtain s' where "pool_step s s'" "workers s' = workers (take_task i s)" "started s' = started (take_task i s)"
  proof
    assume "at s i Signalled"
    from wait_take [OF this] show thesis by (rule that) simp_all
  next
    assume "at s i AtLoop"
    then show thesis using enter_take [of i s] assms(2) that by simp
  qed
  then show ?thesis using i assms(2) by (auto simp: pending_def loc_move intro!: exI [of _ s'] exI [of _ i])
next
  case False
  then have "\<not> at s i Waiting" for i
    using pool_reachable_inv [OF assms(1)] assms(2) unfolding pool_inv_def heard_def by auto
  then have "w_loc w \<in> {TimedOut, Gone} \<or> (\<exists>r. w_loc w = Running r)" if "w \<in> set (workers s)" for w
    using that False by (cases "w_loc w") (auto simp: in_set_conv_nth)
  then show ?thesis by blast
qed

theorem pool_progress_witness:
  "\<exists>s' i. pool_step (spawn (put_task 7 pool_default)) s' \<and> at s' i (Running (Some (7 :: nat))) \<and> started s' = [7]"
proof -
  let ?s = "spawn (put_task 7 pool_default) :: nat pool"
  have "pool_step pool_default ?s" by (rule post [OF _ spawned]) (simp_all add: pool_default_def)
  then have "pool_reachable ?s" by (rule pool_reachable.step [OF pool_reachable.initial])
  from pool_progress [OF this, of 7] show ?thesis by (auto simp: pool_trace)
qed



end
