(* ===== verification/Spec2Isabelle.thy ===== *)
theory Spec2Isabelle
  imports CpioTool Compress Daemon SepolicyText ThreadPool
begin

text \<open>
  Verification of the native code of Magisk (src/native/src).

  The program.  \<^bold>\<open>magiskboot\<close> (boot/) unpacks and edits boot images: it reads and writes cpio
  archives, patches the ramdisk, keeps a backup of what it changed and handles compressed files.
  \<^bold>\<open>magiskd\<close> (core/) is the root daemon: clients send requests over a socket; it decides about
  superuser requests with the help of a database and the manager application, runs the boot stages,
  loads and mounts modules, changes system properties and injects code into zygote.
  \<^bold>\<open>magiskpolicy\<close> (sepolicy/) edits the SELinux policy.  All rest on \<^bold>\<open>base/\<close> (strings, paths,
  files, directories, mounts).

  Theories, in the order they build on each other, with the sources they model:
  \<^item> \<^verbatim>\<open>Prelude\<close>, \<^verbatim>\<open>BTreeMap\<close>: bytes, UTF-8, errors (\<open>error\<close>, results \<open>'a res\<close>, \<open>bindE\<close>), and the
    ordered map of the standard library with its contract (locales \<open>store\<close>, \<open>sorted_store\<close>).
  \<^item> \<^verbatim>\<open>CStr\<close> (base/cstr.rs, path tracker of core/module.rs): the fixed and the heap buffer behind the
    locale \<open>cstr_buf\<close>; path building, that nested trackers restore a buffer, and that no use of a fixed
    buffer leaves its array.
  \<^item> \<^verbatim>\<open>Cpio\<close>, \<^verbatim>\<open>Patch\<close>, \<^verbatim>\<open>Ramdisk\<close>, \<^verbatim>\<open>CpioTool\<close> (boot/cpio.rs, boot/patch.rs): the archive format with its
    round trip, the editing operations and their invariant, removal of mount flags (locale
    \<open>pattern_matcher\<close>), backup and restore, and the command interpreter.
  \<^item> \<^verbatim>\<open>Files\<close>, \<^verbatim>\<open>Dir\<close> (base/files.rs, base/dir.rs): paths, lines, properties, mountinfo; directory walks
    and recursive removal.
  \<^item> \<^verbatim>\<open>Chunks\<close>, \<^verbatim>\<open>Compress\<close> (base/misc.rs, boot/compress.rs, boot/format.rs): the chunker and the LZ4
    block archives.
  \<^item> \<^verbatim>\<open>Socket\<close> (core/socket.rs, base/derive/decodable.rs): the wire format, locale \<open>wire\<close>.
  \<^item> \<^verbatim>\<open>Db\<close> (core/db.rs): settings and strings of the database.
  \<^item> \<^verbatim>\<open>ApkCert\<close>, \<^verbatim>\<open>Package\<close> (core/package.rs): the certificate of an APK, and finding, checking and
    caching the manager.
  \<^item> \<^verbatim>\<open>SuApp\<close>, \<^verbatim>\<open>Su\<close> (core/su): talking to the manager, and the decision on a superuser request.
  \<^item> \<^verbatim>\<open>ResetProp\<close> (core/resetprop), \<^verbatim>\<open>Zygisk\<close> (core/zygisk/daemon.rs): system properties, and the
    native bridge with the requests of the injected code.
  \<^item> \<^verbatim>\<open>ThreadPool\<close> (core/thread.rs): the pool as a step relation on its counters and workers.
  \<^item> \<^verbatim>\<open>Sepolicy\<close>, \<^verbatim>\<open>SepolicyText\<close> (sepolicy/): the tokenizer and parser of policy statements, the calls
    they lead to, the texts printed, and the loading of rule files.
  \<^item> \<^verbatim>\<open>ModuleTree\<close>, \<^verbatim>\<open>ModuleMount\<close>, \<^verbatim>\<open>ModuleCollect\<close>, \<^verbatim>\<open>Modules\<close> (core/module.rs): the virtual tree of the
    modules, the mounts made from it, how the trees of several modules are merged, and the directory of
    the modules with upgrades, removal and loading.
  \<^item> \<^verbatim>\<open>FileTree\<close> (base/files.rs, base/dir.rs), \<^verbatim>\<open>Selinux\<close> (core/selinux.rs), \<^verbatim>\<open>Mount\<close> (base/mount.rs,
    core/mount.rs): copying, moving, linking and removing trees of files with their attributes, restoring
    security labels, and the mounts the daemon makes and undoes.
  \<^item> \<^verbatim>\<open>BootStages\<close> (core/bootstages.rs), \<^verbatim>\<open>Daemon\<close> (core/daemon.rs): the stages and the requests on the
    state of the whole daemon (record \<open>magiskd\<close>), composed of the components above.

  How state and effects are modelled.  A struct is a record and an enum a datatype; machine integers
  are words, or integers with the wrap-around written out (\<open>wrap_i32\<close>, \<open>wrap_i64\<close>).  Operations
  pass their state explicitly.  A fallible operation returns \<open>'a res\<close>: a logged error, a panic, or
  the exit of the process.  A loop that may not end is a \<open>partial_function\<close> whose value \<open>None\<close>
  means that it does not return; that the ordinary inputs return, and that some do not, is proved.
  The daemon's operations that combine both are \<open>('s, 'a) run\<close>.  Directories are trees (\<open>'a node\<close>).
  Calls that change mounts, and scripts, are values returned in the order they are made.  The pool, the
  boot stages and the daemon are \<open>inductive\<close> step relations with invariants over all reachable states; a
  handler runs as one step, because the code holds a lock or is the only writer.  No theory uses fuel,
  except the text codec of \<^verbatim>\<open>ResetProp\<close> that the examples use, which has more than its input is long.

  Parameters.  Code that is not part of the repository's Rust sources is an argument: the xz and LZ4
  block codecs, the protobuf codec, SQLite (\<open>'db sqlite\<close> with \<open>sqlite_ok\<close> as its contract), the
  property area of the C library (\<open>sys_prop\<close>, contract \<open>sys_prop_ok\<close>), the policy database, files,
  processes and scripts (\<open>pkg_env\<close>, \<open>app_env\<close>, \<open>mod_env\<close>, \<open>mod_os\<close>, \<open>copy_env\<close>, \<open>boot_env\<close>,
  \<open>daemon_env\<close>: which system calls succeed and what the kernel answers), the deny list, and the argument
  parser.  Each contract is shown to hold of a concrete instance (\<open>mem_sqlite\<close>, \<open>mem_area\<close>,
  \<open>text_codec\<close>), on which the properties are applied.

  What the lemmas show.  Round trips: cpio archives, backup and restore, LZ4 archives, wire values,
  policy statements, mountinfo lines, provider arguments, the native bridge property.  Invariants: the
  order of archive entries, the content of buffers, unique names in the persistent store, the counters of
  the pool, the order of the boot stages.  Refinement: the mounts of a partition show the overlay of the
  modules, the daemon refines the machine of the boot stages, the persistent store refines a map.
  Decisions: only a trusted file is the manager, the two decisions about root agree, denied processes get
  no modules, safe mode loads nothing and comes after two failed boots, unprivileged clients change nothing.
  Termination: the archive commands and the certificate reader on well-formed files.
  Defects: the theorems about errors and about loops that do not end state what the code does there.

  Not modelled: logging, the argument parser (vendored), the boot image parser and the other C++ parts,
  device trees, OTA payloads and signatures (streams over external crates), the terminal pump, the command
  line of the client, and init, which runs before any other process and consists of mounts and patches of
  files that only system calls can tell apart.  Copies that follow a symbolic link out of the destination,
  and paths longer than their buffers in the module code, are outside of the trees the model has.
\<close>

end
